(* ===== verification/Prelude.thy ===== *)
theory Prelude
  imports Main "HOL-Library.Sublist"
begin

text \<open>
  Shared vocabulary of the development: the proof-automation collections, Go's 64-bit integer
  range, and the functions of Go's standard packages \<open>strings\<close> and \<open>strconv\<close> that the
  program calls. A Go string is a sequence of bytes, here a \<^typ>\<open>string\<close> (a list of 8-bit
  characters). Times and durations are integers counting nanoseconds.
\<close>

named_theorems inv_intros \<open>preservation lemmas of the component invariants\<close>

section \<open>Integers, instants and durations\<close>

type_synonym int64 = int
type_synonym instant = int    \<comment> \<open>\<open>time.Time\<close>: nanoseconds since the Unix epoch\<close>
type_synonym duration = int   \<comment> \<open>\<open>time.Duration\<close>: nanoseconds\<close>

definition in_int64 :: "int \<Rightarrow> bool" where
  "in_int64 i \<longleftrightarrow> - (2 ^ 63) \<le> i \<and> i < 2 ^ 63"

definition millisecond :: duration where "millisecond = 1000000"
definition second :: duration where "second = 1000 * millisecond"
definition minute :: duration where "minute = 60 * second"

lemmas duration_defs = millisecond_def second_def minute_def

text \<open>\<open>Time.Unix()\<close>: whole seconds, rounded towards the past.\<close>

definition unix_seconds :: "instant \<Rightarrow> int64" where
  "unix_seconds t = t div second"

text \<open>\<open>Time.Sub\<close>, and so \<open>time.Since\<close> and \<open>time.Until\<close>, saturate at the range of a duration.\<close>

definition time_sub :: "instant \<Rightarrow> instant \<Rightarrow> duration" where
  "time_sub t u = max (- (2 ^ 63)) (min (2 ^ 63 - 1) (t - u))"

text \<open>The zero \<open>time.Time\<close> is the first instant of year 1.\<close>

definition zero_time :: instant where
  "zero_time = - 62135596800 * second"

lemma time_sub_less_iff:
  assumes "- (2 ^ 63) < d" and "d < 2 ^ 63"
  shows "time_sub t u < d \<longleftrightarrow> t - u < d"
  using assms by (auto simp: time_sub_def)

section \<open>Lists\<close>

lemma find_append:
  "List.find P (xs @ ys) = (case List.find P xs of None \<Rightarrow> List.find P ys | Some x \<Rightarrow> Some x)"
  by (induction xs) auto

section \<open>Package strings\<close>

definition has_prefix :: "string \<Rightarrow> string \<Rightarrow> bool" where
  "has_prefix s p \<longleftrightarrow> prefix p s"

definition trim_prefix :: "string \<Rightarrow> string \<Rightarrow> string" where
  "trim_prefix s p = (if has_prefix s p then drop (length p) s else s)"

definition contains :: "string \<Rightarrow> string \<Rightarrow> bool" where
  "contains s sub \<longleftrightarrow> sublist sub s"

lemma trim_prefix_append [simp]: "trim_prefix (p @ s) p = s"
  by (simp add: trim_prefix_def has_prefix_def)

lemma has_prefix_append [simp]: "has_prefix (p @ s) p"
  by (simp add: has_prefix_def)

text \<open>\<open>strings.Split\<close> with a one-byte separator.\<close>

fun split_on :: "char \<Rightarrow> string \<Rightarrow> string list" where
  "split_on sep [] = [[]]"
| "split_on sep (c # s) =
     (if c = sep then [] # split_on sep s
      else (case split_on sep s of [] \<Rightarrow> [[c]] | w # ws \<Rightarrow> (c # w) # ws))"

fun join_on :: "char \<Rightarrow> string list \<Rightarrow> string" where
  "join_on sep [] = []"
| "join_on sep [w] = w"
| "join_on sep (w # v # ws) = w @ sep # join_on sep (v # ws)"

lemma split_on_nonempty [simp]: "split_on sep s \<noteq> []"
  by (induction s) (auto split: list.splits)

lemma join_split [simp]: "join_on sep (split_on sep s) = s"
proof (induction s)
  case (Cons c s)
  then show ?case
    by (cases "split_on sep s"; cases "tl (split_on sep s)") auto
qed simp

lemma split_on_no_sep: "w \<in> set (split_on sep s) \<Longrightarrow> sep \<notin> set w"
  by (induction s arbitrary: w) (auto split: list.splits if_splits)

lemma split_on_single: "sep \<notin> set w \<Longrightarrow> split_on sep w = [w]"
  by (induction w) auto

lemma split_on_append: "sep \<notin> set w \<Longrightarrow> split_on sep (w @ sep # s) = w # split_on sep s"
  by (induction w) auto

lemma split_join:
  "ws \<noteq> [] \<Longrightarrow> \<forall>w \<in> set ws. sep \<notin> set w \<Longrightarrow> split_on sep (join_on sep ws) = ws"
  by (induction sep ws rule: join_on.induct) (auto simp: split_on_single split_on_append)

text \<open>\<open>strings.Cut\<close> at a one-byte separator: before, after, found.\<close>

definition cut_at :: "char \<Rightarrow> string \<Rightarrow> string \<times> string \<times> bool" where
  "cut_at sep s =
     (if sep \<in> set s
      then (takeWhile (\<lambda>c. c \<noteq> sep) s, tl (dropWhile (\<lambda>c. c \<noteq> sep) s), True)
      else (s, [], False))"

text \<open>
  \<open>strings.TrimSpace\<close> removes Unicode white space, so besides the six ASCII characters the
  UTF-8 encodings of U+0085, U+00A0, U+1680, U+2000 to U+200A, U+2028, U+2029, U+202F, U+205F
  and U+3000.
\<close>

definition bytes :: "nat list \<Rightarrow> string" where
  "bytes ns = map char_of ns"

definition space_seqs :: "string list" where
  "space_seqs = map bytes
     ([[9], [10], [11], [12], [13], [32], [194, 133], [194, 160], [225, 154, 128]]
      @ map (\<lambda>b. [226, 128, b]) [128 ..< 139]
      @ [[226, 128, 168], [226, 128, 169], [226, 128, 175], [226, 129, 159], [227, 128, 128]])"

fun strip_one :: "string list \<Rightarrow> string \<Rightarrow> string option" where
  "strip_one [] s = None"
| "strip_one (p # ps) s =
     (if p \<noteq> [] \<and> prefix p s then Some (drop (length p) s) else strip_one ps s)"

lemma strip_one_SomeD: "strip_one ps s = Some s' \<Longrightarrow> \<exists>p. p \<noteq> [] \<and> s = p @ s'"
  by (induction ps) (auto simp: prefix_def split: if_splits)

lemma strip_one_shorter: "strip_one ps s = Some s' \<Longrightarrow> length s' < length s"
  by (auto dest!: strip_one_SomeD)

function trim_seqs :: "string list \<Rightarrow> string \<Rightarrow> string" where
  "trim_seqs ps s = (case strip_one ps s of None \<Rightarrow> s | Some s' \<Rightarrow> trim_seqs ps s')"
  by pat_completeness auto
termination
  by (relation "measure (\<lambda>(ps, s). length s)") (auto simp: strip_one_shorter)

declare trim_seqs.simps [simp del]

definition trim_left :: "string \<Rightarrow> string" where
  "trim_left s = trim_seqs space_seqs s"

definition trim_right :: "string \<Rightarrow> string" where
  "trim_right s = rev (trim_seqs (map rev space_seqs) (rev s))"

definition trim_space :: "string \<Rightarrow> string" where
  "trim_space s = trim_right (trim_left s)"

lemma trim_seqs_suffix: "suffix (trim_seqs ps s) s"
proof (induction ps s rule: trim_seqs.induct)
  case (1 ps s)
  show ?case
  proof (cases "strip_one ps s")
    case None
    then show ?thesis by (simp add: trim_seqs.simps [of ps s])
  next
    case (Some s')
    then have "suffix (trim_seqs ps s') s'" by (rule "1.IH")
    moreover have "suffix s' s"
      using strip_one_SomeD [OF Some] by (auto simp: suffix_def)
    ultimately show ?thesis
      using Some by (auto simp: trim_seqs.simps [of ps s] intro: suffix_order.trans)
  qed
qed

lemma strip_one_trim_seqs: "strip_one ps (trim_seqs ps s) = None"
proof (induction ps s rule: trim_seqs.induct)
  case (1 ps s)
  then show ?case
    by (cases "strip_one ps s") (simp_all add: trim_seqs.simps [of ps s])
qed

lemma strip_one_None_iff:
  "strip_one ps s = None \<longleftrightarrow> (\<forall>p \<in> set ps. p = [] \<or> \<not> prefix p s)"
  by (induction ps) auto

lemma trim_seqs_fixed: "strip_one ps s = None \<Longrightarrow> trim_seqs ps s = s"
  by (subst trim_seqs.simps) simp

lemma trim_right_prefix: "prefix (trim_right s) s"
  using trim_seqs_suffix [of "map rev space_seqs" "rev s"]
  by (simp add: trim_right_def suffix_to_prefix)

lemma trim_left_no_space: "p \<in> set space_seqs \<Longrightarrow> p \<noteq> [] \<Longrightarrow> \<not> prefix p (trim_left s)"
  using strip_one_trim_seqs [of space_seqs s] by (auto simp: trim_left_def strip_one_None_iff)

lemma trim_space_no_leading:
  assumes "p \<in> set space_seqs" and "p \<noteq> []"
  shows "\<not> prefix p (trim_space s)"
  using trim_left_no_space [OF assms] trim_right_prefix [of "trim_left s"]
  by (auto simp: trim_space_def intro: prefix_order.trans)

lemma trim_space_no_trailing:
  assumes "p \<in> set space_seqs" and "p \<noteq> []"
  shows "\<not> suffix p (trim_space s)"
proof
  assume "suffix p (trim_space s)"
  then have "prefix (rev p) (trim_seqs (map rev space_seqs) (rev (trim_left s)))"
    by (simp add: trim_space_def trim_right_def suffix_to_prefix)
  moreover have "strip_one (map rev space_seqs)
      (trim_seqs (map rev space_seqs) (rev (trim_left s))) = None"
    by (rule strip_one_trim_seqs)
  ultimately show False
    using assms by (auto simp: strip_one_None_iff)
qed

lemma trim_space_idem: "trim_space (trim_space s) = trim_space s"
proof -
  have "trim_left (trim_space s) = trim_space s"
    using trim_space_no_leading by (auto simp: trim_left_def strip_one_None_iff intro!: trim_seqs_fixed)
  moreover have "strip_one (map rev space_seqs) (rev (trim_space s)) = None"
    using trim_space_no_trailing by (auto simp: strip_one_None_iff suffix_to_prefix)
  then have "trim_right (trim_space s) = trim_space s"
    by (simp add: trim_right_def trim_seqs_fixed)
  ultimately show ?thesis by (simp add: trim_space_def [of "trim_space s"])
qed

lemma ascii_space_seqs: "'' '' \<in> set space_seqs"
  by code_simp

text \<open>A string that starts and ends with a visible ASCII character is not changed.\<close>

definition visible :: "char \<Rightarrow> bool" where
  "visible c \<longleftrightarrow> 33 \<le> (of_char c :: nat) \<and> (of_char c :: nat) < 127"

lemma space_seq_ends:
  assumes "p \<in> set space_seqs"
  shows "p \<noteq> [] \<and> \<not> visible (hd p) \<and> \<not> visible (last p)"
proof -
  let ?plain = "\<lambda>ns. ns \<noteq> [] \<and> hd ns < 256 \<and> last ns < (256 :: nat)
      \<and> (hd ns < 33 \<or> 127 \<le> hd ns) \<and> (last ns < 33 \<or> 127 \<le> last ns)"
  obtain ns where p: "p = bytes ns" and "?plain ns"
    using assms by (auto simp: space_seqs_def)
  then show ?thesis by (auto simp: bytes_def visible_def hd_map last_map)
qed

lemma trim_space_visible:
  assumes "s = [] \<or> visible (hd s) \<and> visible (last s)"
  shows "trim_space s = s"
proof (cases "s = []")
  case True
  have "strip_one space_seqs [] = None" "strip_one (map rev space_seqs) [] = None"
    by (simp_all add: strip_one_None_iff)
  with True show ?thesis by (simp add: trim_space_def trim_left_def trim_right_def trim_seqs_fixed)
next
  case False
  have "\<not> prefix p s" if "p \<in> set space_seqs" for p
  proof
    assume "prefix p s"
    then obtain t where "s = p @ t" by (rule prefixE)
    with space_seq_ends [OF that] assms False show False by simp
  qed
  then have left: "trim_left s = s"
    unfolding trim_left_def by (intro trim_seqs_fixed) (simp add: strip_one_None_iff)
  have "\<not> prefix (rev p) (rev s)" if "p \<in> set space_seqs" for p
  proof
    assume "prefix (rev p) (rev s)"
    then obtain t where "s = t @ p" unfolding suffix_to_prefix [symmetric] by (rule suffixE)
    with space_seq_ends [OF that] assms False show False by simp
  qed
  then have "trim_right s = s"
    unfolding trim_right_def by (subst trim_seqs_fixed) (simp_all add: strip_one_None_iff)
  with left show ?thesis by (simp add: trim_space_def)
qed

text \<open>
  \<open>strings.ToLower\<close> lowers ASCII strings letter by letter; on any other string it maps every
  rune through the Unicode tables, which are the argument \<open>uni\<close> here.
\<close>

definition is_ascii :: "string \<Rightarrow> bool" where
  "is_ascii s \<longleftrightarrow> list_all (\<lambda>c. (of_char c :: nat) < 128) s"

definition ascii_lower :: "char \<Rightarrow> char" where
  "ascii_lower c =
     (if 65 \<le> (of_char c :: nat) \<and> (of_char c :: nat) \<le> 90 then char_of (of_char c + 32 :: nat) else c)"

definition to_lower :: "(string \<Rightarrow> string) \<Rightarrow> string \<Rightarrow> string" where
  "to_lower uni s = (if is_ascii s then map ascii_lower s else uni s)"

section \<open>Package strconv\<close>

definition digit_of :: "char \<Rightarrow> nat option" where
  "digit_of c =
     (let n = of_char c in if 48 \<le> n \<and> n \<le> (57 :: nat) then Some (n - 48) else None)"

fun digits_val :: "nat \<Rightarrow> string \<Rightarrow> nat option" where
  "digits_val acc [] = Some acc"
| "digits_val acc (c # s) =
     (case digit_of c of None \<Rightarrow> None | Some d \<Rightarrow> digits_val (10 * acc + d) s)"

text \<open>
  \<open>strconv.ParseInt(s, 10, 64)\<close>: an optional sign, at least one digit, nothing else, and a value
  in range. No caller tells a syntax error from a range error, so both are \<open>None\<close>.
\<close>

definition parse_int64 :: "string \<Rightarrow> int64 option" where
  "parse_int64 s =
     (let neg = prefix ''-'' s;
          ds = (if prefix ''-'' s \<or> prefix ''+'' s then tl s else s)
      in if ds = [] then None
         else case digits_val 0 ds of
                None \<Rightarrow> None
              | Some n \<Rightarrow> (let i = (if neg then - int n else int n)
                          in if in_int64 i then Some i else None))"

fun nat_digits :: "nat \<Rightarrow> nat \<Rightarrow> nat list" where
  "nat_digits b n = (if b < 2 \<or> n < b then [n] else nat_digits b (n div b) @ [n mod b])"

declare nat_digits.simps [simp del]

definition digit_char :: "nat \<Rightarrow> char" where
  "digit_char d = ''0123456789abcdefghijklmnopqrstuvwxyz'' ! d"

text \<open>\<open>strconv.FormatInt\<close> in a base from 2 to 36.\<close>

definition format_int :: "nat \<Rightarrow> int64 \<Rightarrow> string" where
  "format_int b i =
     (if i < 0 then CHR ''-'' # map digit_char (nat_digits b (nat (- i)))
      else map digit_char (nat_digits b (nat i)))"

lemma parse_int64_range: "parse_int64 s = Some i \<Longrightarrow> in_int64 i"
  by (auto simp: parse_int64_def Let_def split: if_splits option.splits)

lemma less_ten_cases:
  assumes "d < (10 :: nat)"
  shows "d = 0 \<or> d = 1 \<or> d = 2 \<or> d = 3 \<or> d = 4 \<or> d = 5 \<or> d = 6 \<or> d = 7 \<or> d = 8 \<or> d = 9"
  using assms by presburger

lemma digit_of_digit_char:
  assumes "d < 10"
  shows "digit_of (digit_char d) = Some d"
  using less_ten_cases [OF assms]
  by (elim disjE) (simp_all add: digit_char_def digit_of_def)

lemma digits_val_append:
  "digits_val acc (s @ t) = Option.bind (digits_val acc s) (\<lambda>a. digits_val a t)"
  by (induction s arbitrary: acc) (auto split: option.splits)

lemma digits_val_nat_digits: "digits_val 0 (map digit_char (nat_digits 10 n)) = Some n"
proof (induction "10 :: nat" n rule: nat_digits.induct)
  case (1 n)
  show ?case
  proof (cases "n < 10")
    case True
    then show ?thesis
      by (simp add: nat_digits.simps [of 10 n] digit_of_digit_char)
  next
    case False
    with 1 show ?thesis
      by (simp add: nat_digits.simps [of 10 n] digits_val_append digit_of_digit_char)
  qed
qed

lemma nat_digits_nonempty [simp]: "nat_digits b n \<noteq> []"
  by (subst nat_digits.simps) simp

lemma nat_digits_bound: "2 \<le> b \<Longrightarrow> \<forall>d \<in> set (nat_digits b n). d < b"
proof (induction b n rule: nat_digits.induct)
  case (1 b n)
  show ?case
  proof (cases "n < b")
    case True
    then show ?thesis by (simp add: nat_digits.simps [of b n])
  next
    case False
    with 1 show ?thesis by (auto simp: nat_digits.simps [of b n])
  qed
qed

lemma format_nat_no_sign:
  assumes "n \<ge> 0"
  shows "\<not> prefix ''-'' (format_int 10 n)" and "\<not> prefix ''+'' (format_int 10 n)"
proof -
  obtain d ds where ds: "nat_digits 10 (nat n) = d # ds"
    by (cases "nat_digits 10 (nat n)") auto
  with nat_digits_bound [of 10 "nat n"] have "d < 10" by simp
  then have "digit_of (digit_char d) = Some d" by (rule digit_of_digit_char)
  then have "digit_char d \<noteq> CHR ''-''" and "digit_char d \<noteq> CHR ''+''"
    by (auto simp: digit_of_def)
  with assms ds show "\<not> prefix ''-'' (format_int 10 n)" and "\<not> prefix ''+'' (format_int 10 n)"
    by (auto simp: format_int_def)
qed

lemma parse_format_int:
  assumes "in_int64 i"
  shows "parse_int64 (format_int 10 i) = Some i"
proof (cases "i < 0")
  case True
  with assms show ?thesis
    by (simp add: parse_int64_def format_int_def digits_val_nat_digits)
next
  case False
  with assms format_nat_no_sign [of i] show ?thesis
    by (simp add: parse_int64_def) (simp add: format_int_def digits_val_nat_digits)
qed

end
