(* ===== verification/Json.thy ===== *)
theory Json
  imports Prelude
begin

text \<open>
  The part of Go's \<open>encoding/json\<close> the program relies on: reading a JSON text
  (\<open>json.Unmarshal\<close>, \<open>Decoder.Decode\<close>), writing one (\<open>json.Marshal\<close>), and storing a JSON
  value into a struct. A number keeps its literal, since Go decides what it means only when it
  knows the field's type. Strings are byte strings; the reader and the writer replace bytes that
  are not valid UTF-8 by U+FFFD, as Go does.
\<close>

datatype json =
    JNull
  | JBool bool
  | JNum string
  | JStr string
  | JArr "json list"
  | JObj "(string \<times> json) list"

section \<open>UTF-8\<close>

abbreviation byte :: "char \<Rightarrow> nat" where "byte c \<equiv> of_char c"

definition byte_in :: "nat \<Rightarrow> nat \<Rightarrow> char \<Rightarrow> bool" where
  "byte_in lo hi c \<longleftrightarrow> lo \<le> byte c \<and> byte c \<le> hi"

text \<open>
  \<open>utf8.DecodeRune\<close>: the length of the rune at the head of a string, 0 where there is none.
  The first byte fixes the length and the range of the second byte (which rules out overlong
  forms, surrogates and code points beyond U+10FFFF); the other bytes are plain continuations.
\<close>

definition lead_size :: "char \<Rightarrow> nat" where
  "lead_size c =
     (if byte c < 128 then 1
      else if byte_in 194 223 c then 2
      else if byte_in 224 239 c then 3
      else if byte_in 240 244 c then 4
      else 0)"

definition second_range :: "char \<Rightarrow> char \<Rightarrow> bool" where
  "second_range c =
     byte_in (if byte c = 224 then 160 else if byte c = 240 then 144 else 128)
       (if byte c = 237 then 159 else if byte c = 244 then 143 else 191)"

definition tail_ok :: "char \<Rightarrow> string \<Rightarrow> bool" where
  "tail_ok c t =
     (case t of [] \<Rightarrow> True | c1 # cs \<Rightarrow> second_range c c1 \<and> list_all (byte_in 128 191) cs)"

definition rune_size :: "string \<Rightarrow> nat" where
  "rune_size s =
     (case s of
        [] \<Rightarrow> 0
      | c # t \<Rightarrow>
          (let n = lead_size c
           in if n \<noteq> 0 \<and> n - 1 \<le> length t \<and> tail_ok c (take (n - 1) t) then n else 0))"

lemma rune_size_Nil [simp]: "rune_size [] = 0"
  by (simp add: rune_size_def)

definition replacement :: string where
  "replacement = bytes [239, 191, 189]"

definition encode_rune :: "nat \<Rightarrow> string" where
  "encode_rune r =
     (if r < 128 then bytes [r]
      else if r < 2048 then bytes [192 + r div 64, 128 + r mod 64]
      else if (55296 \<le> r \<and> r < 57344) \<or> 1114112 \<le> r then replacement
      else if r < 65536 then bytes [224 + r div 4096, 128 + r div 64 mod 64, 128 + r mod 64]
      else bytes [240 + r div 262144, 128 + r div 4096 mod 64, 128 + r div 64 mod 64, 128 + r mod 64])"

section \<open>Reading\<close>

definition is_space :: "char \<Rightarrow> bool" where
  "is_space c \<longleftrightarrow> byte c \<in> {9, 10, 13, 32}"

definition skip_ws :: "string \<Rightarrow> string" where
  "skip_ws s = dropWhile is_space s"

definition is_digit :: "char \<Rightarrow> bool" where
  "is_digit c \<longleftrightarrow> byte_in 48 57 c"

definition hex_of :: "char \<Rightarrow> nat option" where
  "hex_of c =
     (if byte_in 48 57 c then Some (byte c - 48)
      else if byte_in 97 102 c then Some (byte c - 87)
      else if byte_in 65 70 c then Some (byte c - 55)
      else None)"

fun hex4 :: "string \<Rightarrow> (nat \<times> string) option" where
  "hex4 (a # b # c # d # s) =
     (case (hex_of a, hex_of b, hex_of c, hex_of d) of
        (Some a', Some b', Some c', Some d') \<Rightarrow> Some (4096 * a' + 256 * b' + 16 * c' + d', s)
      | _ \<Rightarrow> None)"
| "hex4 _ = None"

text \<open>What follows a backslash: the bytes it stands for and the rest.\<close>

definition scan_unicode :: "string \<Rightarrow> (string \<times> string) option" where
  "scan_unicode s =
     (case hex4 s of
        None \<Rightarrow> None
      | Some (n, r) \<Rightarrow>
          if 55296 \<le> n \<and> n < 57344 then
            (case (if prefix [CHR 0x5C, CHR ''u''] r then hex4 (drop 2 r) else None) of
               Some (m, r') \<Rightarrow>
                 if n < 56320 \<and> 56320 \<le> m \<and> m < 57344
                 then Some (encode_rune (65536 + 1024 * (n - 55296) + (m - 56320)), r')
                 else Some (replacement, r)
             | None \<Rightarrow> Some (replacement, r))
          else Some (encode_rune n, r))"

definition scan_escape :: "string \<Rightarrow> (string \<times> string) option" where
  "scan_escape s =
     (case s of
        [] \<Rightarrow> None
      | c # r \<Rightarrow>
          if c = CHR 0x22 \<or> c = CHR 0x5C \<or> c = CHR ''/'' then Some ([c], r)
          else if c = CHR ''b'' then Some (bytes [8], r)
          else if c = CHR ''f'' then Some (bytes [12], r)
          else if c = CHR ''n'' then Some (bytes [10], r)
          else if c = CHR ''r'' then Some (bytes [13], r)
          else if c = CHR ''t'' then Some (bytes [9], r)
          else if c = CHR ''u'' then scan_unicode r
          else None)"

definition prepend :: "'a list \<Rightarrow> ('a list \<times> 'b) option \<Rightarrow> ('a list \<times> 'b) option" where
  "prepend xs = map_option (map_prod ((@) xs) id)"

lemma hex4_length: "hex4 s = Some (n, r) \<Longrightarrow> length r < length s"
  by (induction s rule: hex4.induct) (auto split: option.splits)

lemma scan_unicode_length: "scan_unicode s = Some (b, r) \<Longrightarrow> length r < length s"
  by (auto simp: scan_unicode_def split: option.splits if_splits dest!: hex4_length)

lemma scan_escape_length: "scan_escape s = Some (b, r) \<Longrightarrow> length r < length s"
  by (auto simp: scan_escape_def split: list.splits if_splits dest!: scan_unicode_length)

text \<open>A string after its opening quote: its bytes and what follows the closing quote.\<close>

function scan_string :: "string \<Rightarrow> (string \<times> string) option" where
  "scan_string s =
     (case s of
        [] \<Rightarrow> None
      | c # r \<Rightarrow>
          if c = CHR 0x22 then Some ([], r)
          else if c = CHR 0x5C then
            (case scan_escape r of None \<Rightarrow> None | Some (b, r') \<Rightarrow> prepend b (scan_string r'))
          else if byte c < 32 then None
          else if rune_size s = 0 then prepend replacement (scan_string r)
          else prepend (take (rune_size s) s) (scan_string (drop (rune_size s) s)))"
  by pat_completeness auto
termination
proof (relation "measure length", goal_cases)
  case (2 s c r y b r')
  then show ?case using scan_escape_length [of r b r'] by simp
qed auto

declare scan_string.simps [simp del]

text \<open>
  A number literal: an optional minus, an integer part without superfluous zeros, an optional
  fraction and an optional exponent.
\<close>

definition scan_digits :: "string \<Rightarrow> string \<times> string" where
  "scan_digits s = (takeWhile is_digit s, dropWhile is_digit s)"

definition scan_int :: "string \<Rightarrow> string \<times> string" where
  "scan_int s = (if prefix ''0'' s then (''0'', tl s) else scan_digits s)"

definition scan_frac :: "string \<Rightarrow> (string \<times> string) option" where
  "scan_frac s =
     (if prefix ''.'' s
      then (let (ds, r) = scan_digits (tl s) in if ds = [] then None else Some (CHR ''.'' # ds, r))
      else Some ([], s))"

definition scan_exp :: "string \<Rightarrow> (string \<times> string) option" where
  "scan_exp s =
     (if prefix ''e'' s \<or> prefix ''E'' s
      then (let sgn = (if prefix ''+'' (tl s) \<or> prefix ''-'' (tl s) then take 1 (tl s) else []);
                (ds, r) = scan_digits (drop (length sgn) (tl s))
            in if ds = [] then None else Some (hd s # sgn @ ds, r))
      else Some ([], s))"

definition scan_number :: "string \<Rightarrow> (string \<times> string) option" where
  "scan_number s =
     (let sgn = (if prefix ''-'' s then ''-'' else []);
          (ip, r) = scan_int (drop (length sgn) s)
      in if ip = [] then None
         else case scan_frac r of
                None \<Rightarrow> None
              | Some (fp, r') \<Rightarrow>
                  (case scan_exp r' of
                     None \<Rightarrow> None
                   | Some (ep, r'') \<Rightarrow> Some (sgn @ ip @ fp @ ep, r'')))"

definition scan_literal :: "string \<Rightarrow> json \<Rightarrow> string \<Rightarrow> (json \<times> string) option" where
  "scan_literal w v s = (if prefix w s then Some (v, drop (length w) s) else None)"

text \<open>
  The reader proper. The first argument bounds the recursion (twice the length of the text is
  enough, see \<open>parse_value_fuel\<close>), the second is the nesting depth that is left:
  Go refuses a text nested deeper than 10000.
\<close>

fun parse_value :: "nat \<Rightarrow> int \<Rightarrow> string \<Rightarrow> (json \<times> string) option"
  and parse_elems :: "nat \<Rightarrow> int \<Rightarrow> string \<Rightarrow> (json list \<times> string) option"
  and parse_members :: "nat \<Rightarrow> int \<Rightarrow> string \<Rightarrow> ((string \<times> json) list \<times> string) option"
where
  "parse_value 0 d s = None"
| "parse_value (Suc n) d s =
     (case skip_ws s of
        [] \<Rightarrow> None
      | c # r \<Rightarrow>
          if c = CHR ''{'' then
            (if d \<le> 0 then None
             else if prefix ''}'' (skip_ws r) then Some (JObj [], tl (skip_ws r))
             else map_option (map_prod JObj id) (parse_members n (d - 1) r))
          else if c = CHR ''['' then
            (if d \<le> 0 then None
             else if prefix '']'' (skip_ws r) then Some (JArr [], tl (skip_ws r))
             else map_option (map_prod JArr id) (parse_elems n (d - 1) r))
          else if c = CHR 0x22 then map_option (map_prod JStr id) (scan_string r)
          else if c = CHR ''t'' then scan_literal ''rue'' (JBool True) r
          else if c = CHR ''f'' then scan_literal ''alse'' (JBool False) r
          else if c = CHR ''n'' then scan_literal ''ull'' JNull r
          else map_option (map_prod JNum id) (scan_number (c # r)))"
| "parse_elems 0 d s = None"
| "parse_elems (Suc n) d s =
     (case parse_value n d s of
        None \<Rightarrow> None
      | Some (v, r) \<Rightarrow>
          (case skip_ws r of
             [] \<Rightarrow> None
           | c # r' \<Rightarrow>
               if c = CHR '','' then prepend [v] (parse_elems n d r')
               else if c = CHR '']'' then Some ([v], r')
               else None))"
| "parse_members 0 d s = None"
| "parse_members (Suc n) d s =
     (case skip_ws s of
        [] \<Rightarrow> None
      | q # r \<Rightarrow>
          if q \<noteq> CHR 0x22 then None
          else (case scan_string r of
                  None \<Rightarrow> None
                | Some (k, r1) \<Rightarrow>
                    if \<not> prefix '':'' (skip_ws r1) then None
                    else (case parse_value n d (tl (skip_ws r1)) of
                            None \<Rightarrow> None
                          | Some (v, r2) \<Rightarrow>
                              (case skip_ws r2 of
                                 [] \<Rightarrow> None
                               | c # r' \<Rightarrow>
                                   if c = CHR '','' then prepend [(k, v)] (parse_members n d r')
                                   else if c = CHR ''}'' then Some ([(k, v)], r')
                                   else None))))"

definition max_nesting :: int where "max_nesting = 10000"

definition parse_first :: "string \<Rightarrow> (json \<times> string) option" where
  "parse_first s = parse_value (Suc (2 * length s)) max_nesting s"

text \<open>
  \<open>json.Unmarshal\<close> wants one value and white space around it; \<open>Decoder.Decode\<close> reads the
  first value of its input and leaves what follows it unread.
\<close>

definition unmarshal :: "string \<Rightarrow> json option" where
  "unmarshal s =
     (case parse_first s of
        Some (v, r) \<Rightarrow> if skip_ws r = [] then Some v else None
      | None \<Rightarrow> None)"

definition decode_first :: "string \<Rightarrow> json option" where
  "decode_first s = map_option fst (parse_first s)"

section \<open>The reader consumes its input, and the fuel is enough\<close>

lemma prepend_Some_iff:
  "prepend xs p = Some (ys, z) \<longleftrightarrow> (\<exists>zs. p = Some (zs, z) \<and> ys = xs @ zs)"
  by (auto simp: prepend_def)

lemma skip_ws_length: "length (skip_ws s) \<le> length s"
  by (simp add: skip_ws_def length_dropWhile_le)

lemma scan_string_shorter: "scan_string s = Some (b, r) \<Longrightarrow> length r < length s"
proof (induction s arbitrary: b rule: scan_string.induct)
  case (1 s)
  show ?case
  proof (cases s)
    case Nil
    with "1.prems" show ?thesis by (simp add: scan_string.simps)
  next
    case (Cons c t)
    consider "c = CHR 0x22" | "c = CHR 0x5C" | "c \<noteq> CHR 0x22" "c \<noteq> CHR 0x5C" "\<not> byte c < 32" "rune_size s = 0"
      | "c \<noteq> CHR 0x22" "c \<noteq> CHR 0x5C" "\<not> byte c < 32" "rune_size s \<noteq> 0"
      using "1.prems" Cons scan_string.simps [of "c # t"] by (auto split: if_splits)
    then show ?thesis
    proof cases
      case 2
      with "1.prems" Cons scan_string.simps [of "c # t"] obtain e t' b' where
        "scan_escape t = Some (e, t')" "scan_string t' = Some (b', r)"
        by (auto simp: prepend_Some_iff eq_commute [of "Some (b, r)"] split: option.splits)
      with "1.IH"(1) [OF Cons] 2 show ?thesis
        using Cons scan_escape_length [of t e t'] by fastforce
    next
      case 3
      with "1.prems" Cons "1.IH"(2) [OF Cons] show ?thesis
        by (fastforce simp: scan_string.simps [of "c # t"] prepend_Some_iff)
    next
      case 4
      with "1.prems" Cons "1.IH"(3) [OF Cons] show ?thesis
        by (fastforce simp: scan_string.simps [of "c # t"] prepend_Some_iff)
    qed (use "1.prems" Cons scan_string.simps [of "c # t"] in auto)
  qed
qed

lemma scan_digits_split: "scan_digits s = (ds, r) \<Longrightarrow> s = ds @ r"
  by (auto simp: scan_digits_def)

lemma scan_int_split: "scan_int s = (ip, r) \<Longrightarrow> s = ip @ r"
  by (auto simp: scan_int_def prefix_def dest: scan_digits_split split: if_splits)

lemma scan_frac_shorter: "scan_frac s = Some (fp, r) \<Longrightarrow> length r \<le> length s"
  by (auto simp: scan_frac_def prefix_def dest!: scan_digits_split split: if_splits prod.splits)

lemma scan_exp_shorter: "scan_exp s = Some (ep, r) \<Longrightarrow> length r \<le> length s"
  by (auto simp: scan_exp_def scan_digits_def Let_def split: if_splits
      intro!: order.trans [OF length_dropWhile_le])

lemma scan_number_shorter:
  assumes "scan_number s = Some (l, r)"
  shows "length r < length s"
proof -
  define sgn where "sgn = (if prefix ''-'' s then ''-'' else [])"
  obtain ip r0 where int: "scan_int (drop (length sgn) s) = (ip, r0)" by fastforce
  with assms obtain fp r1 ep where
    "ip \<noteq> []" "scan_frac r0 = Some (fp, r1)" "scan_exp r1 = Some (ep, r)"
    by (auto simp: scan_number_def sgn_def Let_def split: if_splits option.splits)
  then have "length r \<le> length r0" "length r0 < length (drop (length sgn) s)"
    using scan_frac_shorter scan_exp_shorter scan_int_split [OF int] by fastforce+
  then show ?thesis by simp
qed

lemma skip_ws_Cons_length: "skip_ws s = c # r \<Longrightarrow> length r < length s"
  using skip_ws_length [of s] by simp

lemma skip_ws_prefix_length: "prefix [c] (skip_ws s) \<Longrightarrow> length (tl (skip_ws s)) < length s"
  using skip_ws_length [of s] by (cases "skip_ws s") auto

lemma parse_shorter:
  "parse_value n d s = Some (v, r) \<Longrightarrow> length r < length s"
  "parse_elems n d s = Some (vs, r) \<Longrightarrow> length r < length s"
  "parse_members n d s = Some (ms, r) \<Longrightarrow> length r < length s"
proof (induction n d s and n d s and n d s arbitrary: v r and vs r and ms r
    rule: parse_value_parse_elems_parse_members.induct)
  case (2 n d s)
  then obtain c t where ct: "skip_ws s = c # t" by (auto split: list.splits)
  have t: "length t < length s" using skip_ws_Cons_length [OF ct] .
  have close: "length (tl (skip_ws t)) < length s"
    using t skip_ws_length [of t] by simp
  show ?case
    using "2.prems" "2.IH" ct t close
    by (fastforce simp: scan_literal_def split: if_splits
        dest!: scan_string_shorter scan_number_shorter)
next
  case (4 n d s)
  then obtain w t where w: "parse_value n d s = Some (w, t)" by (auto split: option.splits)
  with "4.IH"(1) have t: "length t < length s" by simp
  from "4.prems" w obtain c t' where ct: "skip_ws t = c # t'" by (auto split: list.splits)
  then have "length t' < length s" using t skip_ws_Cons_length [OF ct] by simp
  with "4.prems" "4.IH"(2) [OF w] w ct show ?case
    by (fastforce simp: prepend_Some_iff split: if_splits)
next
  case (6 n d s)
  then obtain t where ct: "skip_ws s = CHR 0x22 # t" by (auto split: list.splits if_splits)
  with "6.prems" obtain k r1 where k: "scan_string t = Some (k, r1)" by (auto split: option.splits)
  with "6.prems" ct have colon: "prefix '':'' (skip_ws r1)" by (auto split: if_splits)
  with "6.prems" ct k obtain w r2 where w: "parse_value n d (tl (skip_ws r1)) = Some (w, r2)"
    by (auto split: option.splits)
  with "6.IH"(1) [OF ct _ k] colon have r2: "length r2 < length (tl (skip_ws r1))" by simp
  from "6.prems" ct k colon w obtain c r' where c: "skip_ws r2 = c # r'" by (auto split: list.splits)
  have "length r' < length s"
    using skip_ws_Cons_length [OF c] r2 skip_ws_prefix_length [OF colon] scan_string_shorter [OF k]
      skip_ws_Cons_length [OF ct] by linarith
  with "6.prems" "6.IH"(2) [OF ct _ k _ _ w] ct k colon w c show ?case
    by (fastforce simp: prepend_Some_iff split: if_splits)
qed auto

lemma parse_fuel_step:
  "2 * length s < n \<Longrightarrow> 2 * length s < m \<Longrightarrow> parse_value n d s = parse_value m d s"
  "2 * length s + 1 < n \<Longrightarrow> 2 * length s + 1 < m \<Longrightarrow> parse_elems n d s = parse_elems m d s"
  "2 * length s + 1 < n \<Longrightarrow> 2 * length s + 1 < m \<Longrightarrow> parse_members n d s = parse_members m d s"
proof (induction n arbitrary: m d s)
  case (Suc n)
  { case 1
    then obtain m' where m: "m = Suc m'" by (cases m) auto
    have "parse_elems n (d - 1) t = parse_elems m' (d - 1) t"
      "parse_members n (d - 1) t = parse_members m' (d - 1) t" if "skip_ws s = c # t" for c t
      using skip_ws_Cons_length [OF that] 1 m by (auto intro: Suc.IH)
    then show ?case by (simp add: m split: list.split)
  next
    case 2
    then obtain m' where m: "m = Suc m'" by (cases m) auto
    have v: "parse_value n d s = parse_value m' d s" using 2 m by (intro Suc.IH) auto
    have "parse_elems n d t' = parse_elems m' d t'"
      if "parse_value m' d s = Some (w, t)" "skip_ws t = c # t'" for w t c t'
      using parse_shorter(1) [OF that(1)] skip_ws_Cons_length [OF that(2)] 2 m
      by (intro Suc.IH) auto
    then show ?case by (simp add: m v split: option.split list.split)
  next
    case 3
    then obtain m' where m: "m = Suc m'" by (cases m) auto
    have v: "parse_value n d (tl (skip_ws r)) = parse_value m' d (tl (skip_ws r))"
      if "skip_ws s = c # t" "scan_string t = Some (k, r)" for c t k r
      using skip_ws_Cons_length [OF that(1)] scan_string_shorter [OF that(2)] skip_ws_length [of r] 3 m
      by (intro Suc.IH) (auto simp: length_tl)
    have "parse_members n d t' = parse_members m' d t'"
      if "skip_ws s = c # t" "scan_string t = Some (k, r)"
        "parse_value m' d (tl (skip_ws r)) = Some (w, u)" "skip_ws u = c' # t'" for c t k r w u c' t'
      using skip_ws_Cons_length [OF that(1)] scan_string_shorter [OF that(2)] skip_ws_length [of r]
        parse_shorter(1) [OF that(3)] skip_ws_Cons_length [OF that(4)] 3 m
      by (intro Suc.IH) (auto simp: length_tl)
    then show ?case by (simp add: m v split: option.split list.split)
  }
qed simp_all

text \<open>More fuel than \<open>parse_first\<close> takes changes nothing, so the fuel never decides a result.\<close>

lemma parse_value_fuel:
  "2 * length s < n \<Longrightarrow> parse_value n max_nesting s = parse_first s"
  unfolding parse_first_def by (rule parse_fuel_step) auto

end
