(* ===== verification/Json_Writer.thy ===== *)
theory Json_Writer
  imports Json
begin

text \<open>
  \<open>json.Marshal\<close> on JSON values, and the proof that the reader of \<open>Json\<close> inverts it on values
  whose strings are valid UTF-8 and whose numbers are integer literals, the only values this
  program writes to its outbox.
\<close>

section \<open>The writer\<close>

definition hex_char :: "nat \<Rightarrow> char" where
  "hex_char n = char_of (if n < 10 then n + 48 else n + 87)"

text \<open>
  One ASCII character inside quotes. Besides the quote, the backslash and the control
  characters, Go escapes the three characters that matter to HTML.
\<close>

definition escape_char :: "char \<Rightarrow> string" where
  "escape_char c =
     (if c = CHR 0x22 \<or> c = CHR 0x5C then [CHR 0x5C, c]
      else if byte c = 8 then [CHR 0x5C, CHR ''b'']
      else if byte c = 9 then [CHR 0x5C, CHR ''t'']
      else if byte c = 10 then [CHR 0x5C, CHR ''n'']
      else if byte c = 12 then [CHR 0x5C, CHR ''f'']
      else if byte c = 13 then [CHR 0x5C, CHR ''r'']
      else if byte c < 32 \<or> c = CHR ''<'' \<or> c = CHR ''>'' \<or> c = CHR ''&''
      then [CHR 0x5C, CHR ''u'', CHR ''0'', CHR ''0'', hex_char (byte c div 16), hex_char (byte c mod 16)]
      else [c])"

definition line_separator :: "string \<Rightarrow> bool" where
  "line_separator s \<longleftrightarrow> prefix (bytes [226, 128, 168]) s \<or> prefix (bytes [226, 128, 169]) s"

function escape_string :: "string \<Rightarrow> string" where
  "escape_string s =
     (case s of
        [] \<Rightarrow> []
      | c # r \<Rightarrow>
          if byte c < 128 then escape_char c @ escape_string r
          else if rune_size s = 0 then CHR 0x5C # ''ufffd'' @ escape_string r
          else if line_separator s
          then CHR 0x5C # ''u202'' @ [if prefix (bytes [226, 128, 168]) s then CHR ''8'' else CHR ''9'']
               @ escape_string (drop 3 s)
          else take (rune_size s) s @ escape_string (drop (rune_size s) s))"
  by pat_completeness auto
termination by (relation "measure length") auto

declare escape_string.simps [simp del]

definition quote_string :: "string \<Rightarrow> string" where
  "quote_string s = CHR 0x22 # escape_string s @ [CHR 0x22]"

fun marshal :: "json \<Rightarrow> string" where
  "marshal JNull = ''null''"
| "marshal (JBool b) = (if b then ''true'' else ''false'')"
| "marshal (JNum lit) = lit"
| "marshal (JStr s) = quote_string s"
| "marshal (JArr vs) = CHR ''['' # join_on (CHR '','') (map marshal vs) @ '']''"
| "marshal (JObj ms) =
     CHR ''{'' # join_on (CHR '','') (map (\<lambda>(k, v). quote_string k @ CHR '':'' # marshal v) ms) @ ''}''"

section \<open>Strings\<close>

function utf8_ok :: "string \<Rightarrow> bool" where
  "utf8_ok s =
     (if s = [] then True
      else if rune_size s = 0 then False
      else utf8_ok (drop (rune_size s) s))"
  by pat_completeness auto
termination by (relation "measure length") auto

declare utf8_ok.simps [simp del]

lemma ascii_rune_size: "byte c < 128 \<Longrightarrow> rune_size (c # s) = 1"
  by (simp add: rune_size_def lead_size_def tail_ok_def)

lemma rune_size_le: "rune_size s \<le> length s"
  by (auto simp: rune_size_def Let_def split: list.splits)

lemma rune_size_cut:
  assumes "rune_size s \<noteq> 0"
  shows "rune_size (take (rune_size s) s @ t) = rune_size s"
proof (cases s)
  case Nil
  with assms show ?thesis by simp
next
  case (Cons c u)
  define n where "n = lead_size c"
  from assms have n: "n \<noteq> 0" "n - 1 \<le> length u" "tail_ok c (take (n - 1) u)" "rune_size s = n"
    by (auto simp: Cons n_def rune_size_def Let_def split: if_splits)
  then have "take n (c # u) = c # take (n - 1) u" by (cases n) auto
  with n show ?thesis
    by (simp add: Cons rune_size_def n_def [symmetric] Let_def)
qed

lemma utf8_ok_ascii: "list_all (\<lambda>c. byte c < 128) s \<Longrightarrow> utf8_ok s"
proof (induction s)
  case (Cons c s)
  then show ?case by (simp add: utf8_ok.simps [of "c # s"] ascii_rune_size)
qed (simp add: utf8_ok.simps)

lemma hex_of_hex_char:
  assumes "n < 16"
  shows "hex_of (hex_char n) = Some n"
  using assms by (auto simp: hex_of_def hex_char_def byte_in_def)

lemma ascii_is_one_rune: "byte c < 128 \<Longrightarrow> encode_rune (byte c) = [c]"
  by (simp add: encode_rune_def bytes_def)

lemma scan_unicode_byte:
  assumes "byte c < 128"
  shows "scan_unicode (CHR ''0'' # CHR ''0'' # hex_char (byte c div 16) # hex_char (byte c mod 16) # s)
    = Some ([c], s)"
proof -
  have "byte c div 16 < 16" "byte c mod 16 < 16" using assms by simp_all
  then have "hex4 (CHR ''0'' # CHR ''0'' # hex_char (byte c div 16) # hex_char (byte c mod 16) # s)
      = Some (byte c, s)"
    by (simp add: hex_of_hex_char) (simp add: hex_of_def byte_in_def)
  then show ?thesis
    using assms by (simp add: scan_unicode_def ascii_is_one_rune)
qed

lemma char_eqI: "byte c = n \<Longrightarrow> n < 256 \<Longrightarrow> c = char_of n"
  by auto

lemma scan_escape_char:
  assumes "byte c < 128"
  shows "scan_string (escape_char c @ s) = prepend [c] (scan_string s)"
proof -
  have esc: "scan_string (CHR 0x5C # e) =
      (case scan_escape e of None \<Rightarrow> None | Some (b, r') \<Rightarrow> prepend b (scan_string r'))" for e
    by (subst scan_string.simps) simp
  consider "c = CHR 0x22 \<or> c = CHR 0x5C" | "byte c = 8" | "byte c = 9" | "byte c = 10"
    | "byte c = 12" | "byte c = 13"
    | "c \<noteq> CHR 0x22" "c \<noteq> CHR 0x5C" "byte c \<notin> {8, 9, 10, 12, 13}"
      "byte c < 32 \<or> c = CHR ''<'' \<or> c = CHR ''>'' \<or> c = CHR ''&''"
    | "c \<noteq> CHR 0x22" "c \<noteq> CHR 0x5C" "32 \<le> byte c" "c \<noteq> CHR ''<''" "c \<noteq> CHR ''>''" "c \<noteq> CHR ''&''"
    by fastforce
  then show ?thesis
  proof cases
    case 1
    then show ?thesis by (auto simp: escape_char_def esc scan_escape_def)
  next
    case 7
    then have "escape_char c = [CHR 0x5C, CHR ''u'', CHR ''0'', CHR ''0'',
        hex_char (byte c div 16), hex_char (byte c mod 16)]"
      by (simp add: escape_char_def)
    then show ?thesis
      using scan_unicode_byte [OF assms] by (simp add: esc scan_escape_def)
  next
    case 8
    then have "escape_char c = [c]" by (auto simp: escape_char_def)
    with 8 assms show ?thesis
      by (simp, subst scan_string.simps) (simp add: ascii_rune_size)
  qed (auto dest: char_eqI simp: escape_char_def esc scan_escape_def bytes_def)
qed

lemma scan_string_run:
  assumes "rune_size s \<noteq> 0" and "128 \<le> byte (hd s)"
  shows "scan_string (take (rune_size s) s @ t) = prepend (take (rune_size s) s) (scan_string t)"
proof -
  obtain c r where s: "s = c # r" using assms(1) by (cases s) (auto simp: rune_size_def)
  obtain n where n: "rune_size s = Suc n" using assms(1) by (cases "rune_size s") auto
  let ?u = "take (rune_size s) s @ t"
  have hd: "?u = c # (take n r @ t)" using s n by simp
  have size: "rune_size ?u = rune_size s" by (rule rune_size_cut [OF assms(1)])
  have "take (rune_size s) ?u = take (rune_size s) s" "drop (rune_size s) ?u = t"
    using rune_size_le [of s] by simp_all
  moreover have "c \<noteq> CHR 0x22" "c \<noteq> CHR 0x5C" "\<not> byte c < 32"
    using assms(2) s by auto
  ultimately show ?thesis
    using size assms(1) by (subst scan_string.simps) (simp add: hd)
qed

lemma prepend_simps [simp]:
  "prepend xs None = None" "prepend xs (Some (ys, z)) = Some (xs @ ys, z)"
  by (simp_all add: prepend_def)

lemma line_separator_size: "line_separator s \<Longrightarrow> rune_size s = 3 \<and> 128 \<le> byte (hd s)"
  by (auto simp: line_separator_def bytes_def prefix_def rune_size_def lead_size_def byte_in_def
      tail_ok_def second_range_def)

lemma scan_line_separator:
  "scan_string (CHR 0x5C # ''u2028'' @ s) = prepend (bytes [226, 128, 168]) (scan_string s)"
  "scan_string (CHR 0x5C # ''u2029'' @ s) = prepend (bytes [226, 128, 169]) (scan_string s)"
  by (subst scan_string.simps,
      simp add: scan_escape_def scan_unicode_def hex_of_def byte_in_def encode_rune_def)+

lemma prepend_take_drop:
  "prepend (take n s) (Some (drop n s, r)) = Some (s, r)"
  by simp

lemma scan_escape_string:
  assumes "utf8_ok s"
  shows "scan_string (escape_string s @ CHR 0x22 # r) = Some (s, r)"
  using assms
proof (induction s rule: escape_string.induct)
  case (1 s)
  show ?case
  proof (cases s)
    case Nil
    then show ?thesis by (simp add: escape_string.simps [of "[]"] scan_string.simps)
  next
    case (Cons c t)
    have ok: "rune_size s \<noteq> 0" "utf8_ok (drop (rune_size s) s)"
      using "1.prems" Cons utf8_ok.simps [of s] by (auto split: if_splits)
    show ?thesis
    proof (cases "byte c < 128")
      case True
      with ok Cons have "utf8_ok t" by (simp add: ascii_rune_size)
      then show ?thesis
        using "1.IH"(1) [OF Cons True] Cons True
        by (simp add: escape_string.simps [of "c # t"] scan_escape_char)
    next
      case False
      show ?thesis
      proof (cases "line_separator s")
        case True
        have IH: "scan_string (escape_string (drop 3 s) @ CHR 0x22 # r) = Some (drop 3 s, r)"
          using "1.IH"(3) [OF Cons False ok(1) True] ok(2) line_separator_size [OF True] by simp
        from True show ?thesis
          using IH Cons False ok(1)
          by (auto simp: line_separator_def escape_string.simps [of "c # t"] prefix_def bytes_def
              scan_line_separator [simplified] rune_size_def)
      next
        case False
        then show ?thesis
          using "1.IH"(4) [OF Cons \<open>\<not> byte c < 128\<close> ok(1) False] \<open>\<not> byte c < 128\<close> ok Cons
            scan_string_run [OF ok(1)]
          by (simp add: escape_string.simps [of "c # t"])
      qed
    qed
  qed
qed

section \<open>Integer literals\<close>

definition int_literal :: "string \<Rightarrow> bool" where
  "int_literal lit \<longleftrightarrow> (\<exists>i. lit = format_int 10 i)"

text \<open>A text that cannot continue a number.\<close>

definition number_end :: "string \<Rightarrow> bool" where
  "number_end r \<longleftrightarrow>
     (case r of [] \<Rightarrow> True | c # _ \<Rightarrow> \<not> is_digit c \<and> c \<notin> {CHR ''.'', CHR ''e'', CHR ''E''})"

lemma nat_digits_leading_zero: "nat_digits 10 n = 0 # ds \<Longrightarrow> ds = []"
proof (induction "10 :: nat" n arbitrary: ds rule: nat_digits.induct)
  case (1 n)
  show ?case
  proof (cases "n < 10")
    case True
    with "1.prems" show ?thesis by (simp add: nat_digits.simps [of 10 n])
  next
    case False
    with "1.prems" obtain es where es: "nat_digits 10 (n div 10) = 0 # es"
      by (cases "nat_digits 10 (n div 10)") (auto simp: nat_digits.simps [of 10 n])
    with False have "es = []" using "1.hyps" by simp
    with es have "digits_val 0 (map digit_char [0]) = Some (n div 10)"
      using digits_val_nat_digits [of "n div 10"] by simp
    then have "n div 10 = 0" by (simp add: digit_of_digit_char)
    with False show ?thesis by simp
  qed
qed

lemma is_digit_digit_char:
  assumes "d < 10"
  shows "is_digit (digit_char d)"
  using less_ten_cases [OF assms]
  by (elim disjE) (simp_all add: digit_char_def is_digit_def byte_in_def)

lemma digit_char_zero_iff:
  assumes "d < 10"
  shows "digit_char d = CHR ''0'' \<longleftrightarrow> d = 0"
  using less_ten_cases [OF assms] by (elim disjE) (simp_all add: digit_char_def)

lemma scan_int_digits:
  assumes "number_end r"
  shows "scan_int (map digit_char (nat_digits 10 n) @ r) = (map digit_char (nat_digits 10 n), r)"
proof -
  obtain d ds where ds: "nat_digits 10 n = d # ds"
    by (cases "nat_digits 10 n") auto
  have bound: "\<forall>d \<in> set (d # ds). d < 10"
    using nat_digits_bound [of 10 n] ds by simp
  show ?thesis
  proof (cases "d = 0")
    case True
    with ds have "ds = []" using nat_digits_leading_zero by simp
    with True ds show ?thesis by (simp add: scan_int_def digit_char_def)
  next
    case False
    have "\<forall>c \<in> set (map digit_char (d # ds)). is_digit c"
      using bound by (auto simp: is_digit_digit_char)
    moreover have "takeWhile is_digit r = []" "dropWhile is_digit r = r"
      using assms by (cases r; simp add: number_end_def)+
    ultimately have "scan_digits (map digit_char (d # ds) @ r) = (map digit_char (d # ds), r)"
      by (simp add: scan_digits_def takeWhile_append dropWhile_append)
    with False bound ds show ?thesis by (auto simp: scan_int_def digit_char_zero_iff eq_commute [of "CHR ''0''"])
  qed
qed

lemma scan_frac_none: "number_end r \<Longrightarrow> scan_frac r = Some ([], r)"
  and scan_exp_none: "number_end r \<Longrightarrow> scan_exp r = Some ([], r)"
  by (auto simp: scan_frac_def scan_exp_def number_end_def split: list.splits)

lemma scan_int_literal:
  assumes "int_literal lit" and "number_end r"
  shows "scan_number (lit @ r) = Some (lit, r)"
proof -
  from assms(1) obtain i where lit: "lit = format_int 10 i"
    by (auto simp: int_literal_def)
  show ?thesis
  proof (cases "i < 0")
    case True
    then show ?thesis
      by (simp add: lit format_int_def scan_number_def scan_int_digits [OF assms(2)]
          scan_frac_none [OF assms(2)] scan_exp_none [OF assms(2)])
  next
    case False
    with format_nat_no_sign [of i] have "\<not> prefix ''-'' (lit @ r)"
      by (cases lit) (auto simp: lit format_int_def)
    with False show ?thesis
      by (simp add: lit scan_number_def)
        (simp add: format_int_def scan_int_digits [OF assms(2)]
          scan_frac_none [OF assms(2)] scan_exp_none [OF assms(2)])
  qed
qed

section \<open>Values\<close>

text \<open>What the writer can be given so that the reader gives it back, nested at most \<open>d\<close> deep.\<close>

fun writable :: "int \<Rightarrow> json \<Rightarrow> bool" where
  "writable d (JNum lit) = int_literal lit"
| "writable d (JStr s) = utf8_ok s"
| "writable d (JArr vs) = (0 < d \<and> (\<forall>v \<in> set vs. writable (d - 1) v))"
| "writable d (JObj ms) = (0 < d \<and> (\<forall>m \<in> set ms. utf8_ok (fst m) \<and> writable (d - 1) (snd m)))"
| "writable d _ = True"

lemma int_literal_head:
  assumes "int_literal lit"
  obtains c t where "lit = c # t" and "c = CHR ''-'' \<or> is_digit c"
proof -
  obtain i where lit: "lit = format_int 10 i" using assms by (auto simp: int_literal_def)
  show ?thesis
  proof (cases "i < 0")
    case True
    then show ?thesis using that by (simp add: lit format_int_def)
  next
    case False
    obtain d ds where ds: "nat_digits 10 (nat i) = d # ds"
      by (cases "nat_digits 10 (nat i)") auto
    with nat_digits_bound [of 10 "nat i"] have "d < 10" by simp
    with False ds that is_digit_digit_char show ?thesis by (simp add: lit format_int_def)
  qed
qed

lemma number_head:
  assumes "c = CHR ''-'' \<or> is_digit c"
  shows "\<not> is_space c" and "c \<notin> {CHR ''{'', CHR ''['', CHR 0x22, CHR ''t'', CHR ''f'', CHR ''n''}"
    and "c \<noteq> CHR '']''"
  using assms by (auto simp: is_space_def is_digit_def byte_in_def)

lemma marshal_head:
  assumes "writable d v"
  obtains c t where "marshal v = c # t" and "\<not> is_space c" and "c \<noteq> CHR '']''"
proof (cases v)
  case (JNum lit)
  with assms show ?thesis
    using that number_head by (auto elim: int_literal_head)
next
  case (JBool b)
  then show ?thesis using that by (cases b) (auto simp: is_space_def)
qed (use that in \<open>auto simp: is_space_def quote_string_def\<close>)

lemma skip_ws_Cons [simp]: "\<not> is_space c \<Longrightarrow> skip_ws (c # s) = c # s"
  by (simp add: skip_ws_def)

lemma punctuation_not_space [simp]:
  "\<not> is_space (CHR '','')" "\<not> is_space (CHR '':'')" "\<not> is_space (CHR ''}'')"
  "\<not> is_space (CHR '']'')" "\<not> is_space (CHR ''{'')" "\<not> is_space (CHR ''['')"
  "\<not> is_space (CHR 0x22)" "\<not> is_space (CHR ''t'')" "\<not> is_space (CHR ''f'')"
  "\<not> is_space (CHR ''n'')"
  by (simp_all add: is_space_def)

lemma join_on_length_Cons:
  "ws \<noteq> [] \<Longrightarrow> length (join_on c (w # ws)) = length w + 1 + length (join_on c ws)"
  by (cases ws) auto

text \<open>
  The reader inverts the writer. The fuel argument counts calls along one path of the recursion,
  which the text bounds: an array costs one call for its list and one for each element, and each
  of these owns at least one character.
\<close>

lemma parse_elems_join:
  assumes "\<And>v r n. v \<in> set vs \<Longrightarrow> number_end r \<Longrightarrow> 2 * length (marshal v) \<le> n \<Longrightarrow>
      parse_value n d (marshal v @ r) = Some (v, r)"
    and "vs \<noteq> []" and "2 * length (join_on (CHR '','') (map marshal vs)) < n"
  shows "parse_elems n d (join_on (CHR '','') (map marshal vs) @ CHR '']'' # r) = Some (vs, r)"
  using assms
proof (induction vs arbitrary: n)
  case (Cons v vs)
  then obtain m where n: "n = Suc m" by (cases n) auto
  show ?case
  proof (cases "vs = []")
    case True
    with Cons.prems n show ?thesis
      by (simp add: number_end_def is_digit_def byte_in_def)
  next
    case False
    have elem: "parse_value m d (marshal v @ CHR '','' # s) = Some (v, CHR '','' # s)" for s
      using Cons.prems(3) n
      by (intro Cons.prems(1)) (auto simp: number_end_def is_digit_def byte_in_def
          join_on_length_Cons False)
    have "parse_elems m d (join_on (CHR '','') (map marshal vs) @ CHR '']'' # r) = Some (vs, r)"
      using Cons.prems n False by (intro Cons.IH) (auto simp: join_on_length_Cons)
    with False show ?thesis
      by (cases vs) (simp_all add: n elem)
  qed
qed simp

definition member_text :: "string \<times> json \<Rightarrow> string" where
  "member_text m = quote_string (fst m) @ CHR '':'' # marshal (snd m)"

lemma marshal_JObj:
  "marshal (JObj ms) = CHR ''{'' # join_on (CHR '','') (map member_text ms) @ ''}''"
proof -
  have "(\<lambda>(k, v). quote_string k @ CHR '':'' # marshal v) = member_text"
    by (auto simp: member_text_def)
  then show ?thesis by simp
qed

lemma parse_members_join:
  assumes "\<And>m r n. m \<in> set ms \<Longrightarrow> number_end r \<Longrightarrow> 2 * length (marshal (snd m)) \<le> n \<Longrightarrow>
      parse_value n d (marshal (snd m) @ r) = Some (snd m, r)"
    and "\<forall>m \<in> set ms. utf8_ok (fst m) \<and> writable d (snd m)"
    and "ms \<noteq> []" and "2 * length (join_on (CHR '','') (map member_text ms)) < n"
  shows "parse_members n d (join_on (CHR '','') (map member_text ms) @ CHR ''}'' # r) = Some (ms, r)"
  using assms
proof (induction ms arbitrary: n)
  case (Cons m ms)
  then obtain n' where n: "n = Suc n'" by (cases n) auto
  obtain k v where m: "m = (k, v)" by (cases m)
  have key: "scan_string (escape_string k @ CHR 0x22 # s) = Some (k, s)" for s
    using Cons.prems(2) m by (simp add: scan_escape_string)
  have layout: "member_text m @ s = CHR 0x22 # escape_string k @ CHR 0x22 # CHR '':'' # marshal v @ s" for s
    by (simp add: m member_text_def quote_string_def)
  have len: "length (member_text m) = length (escape_string k) + 3 + length (marshal v)"
    by (simp add: m member_text_def quote_string_def)
  show ?case
  proof (cases "ms = []")
    case True
    have "parse_value n' d (marshal v @ CHR ''}'' # r) = Some (v, CHR ''}'' # r)"
      using Cons.prems(1) [of m] Cons.prems(4) m n True len
      by (simp add: number_end_def is_digit_def byte_in_def)
    with True m n key layout show ?thesis by simp
  next
    case False
    have elem: "parse_value n' d (marshal v @ CHR '','' # s) = Some (v, CHR '','' # s)" for s
      using Cons.prems(1) [of m] Cons.prems(4) n len m
      by (simp add: number_end_def is_digit_def byte_in_def join_on_length_Cons False)
    have "parse_members n' d (join_on (CHR '','') (map member_text ms) @ CHR ''}'' # r) = Some (ms, r)"
      using Cons.prems n False by (intro Cons.IH) (auto simp: join_on_length_Cons)
    with False layout key elem m n show ?thesis
      by (cases ms) simp_all
  qed
qed simp

lemma parse_marshal:
  "writable d v \<Longrightarrow> number_end r \<Longrightarrow> 2 * length (marshal v) \<le> n \<Longrightarrow>
    parse_value n d (marshal v @ r) = Some (v, r)"
proof (induction v arbitrary: d r n)
  case JNull
  then obtain m where "n = Suc m" by (cases n) auto
  then show ?case by (simp add: scan_literal_def)
next
  case (JBool b)
  then obtain m where "n = Suc m" by (cases n) (auto split: if_splits)
  then show ?case by (simp add: scan_literal_def)
next
  case (JNum lit)
  then have lit: "int_literal lit" by simp
  then obtain c t where ct: "lit = c # t" "c = CHR ''-'' \<or> is_digit c"
    by (rule int_literal_head)
  with JNum.prems obtain m where "n = Suc m" by (cases n) auto
  with ct number_head [OF ct(2)] scan_int_literal [OF lit JNum.prems(2)] show ?case by simp
next
  case (JStr s)
  then obtain m where "n = Suc m" by (cases n) (auto simp: quote_string_def)
  with JStr.prems show ?case by (simp add: quote_string_def scan_escape_string)
next
  case (JArr vs)
  then obtain m where n: "n = Suc m" by (cases n) auto
  show ?case
  proof (cases "vs = []")
    case True
    with n JArr.prems show ?thesis by simp
  next
    case False
    then obtain v ws where vs: "vs = v # ws" by (cases vs) auto
    with JArr.prems have "writable (d - 1) v" by simp
    then obtain c t where head: "marshal v = c # t" "\<not> is_space c" "c \<noteq> CHR '']''"
      by (rule marshal_head)
    have "parse_elems m (d - 1) (join_on (CHR '','') (map marshal vs) @ CHR '']'' # r) = Some (vs, r)"
      using JArr n False by (intro parse_elems_join) auto
    moreover obtain u where "join_on (CHR '','') (map marshal vs) = c # u"
      using vs head by (cases ws) auto
    ultimately show ?thesis using JArr.prems(1) n head by simp
  qed
next
  case (JObj ms)
  then obtain n' where n: "n = Suc n'" by (cases n) auto
  show ?case
  proof (cases "ms = []")
    case True
    with n JObj.prems show ?thesis by simp
  next
    case False
    have "parse_members n' (d - 1) (join_on (CHR '','') (map member_text ms) @ CHR ''}'' # r) = Some (ms, r)"
    proof (rule parse_members_join)
      fix m r n
      assume "m \<in> set ms" "number_end r" "2 * length (marshal (snd m)) \<le> n"
      then show "parse_value n (d - 1) (marshal (snd m) @ r) = Some (snd m, r)"
        using JObj.IH [of m "snd m"] JObj.prems(1) by (auto simp: snds.simps)
    qed (use JObj.prems n False in \<open>auto simp: marshal_JObj simp del: marshal.simps\<close>)
    moreover obtain u where "join_on (CHR '','') (map member_text ms) = CHR 0x22 # u"
      using False by (cases ms; cases "tl ms") (auto simp: member_text_def quote_string_def)
    ultimately show ?thesis
      using JObj.prems(1) n by (simp add: marshal_JObj del: marshal.simps)
  qed
qed

lemma unmarshal_marshal:
  assumes "writable max_nesting v"
  shows "unmarshal (marshal v) = Some v"
  using parse_marshal [OF assms, of "[]" "Suc (2 * length (marshal v))"]
  by (simp add: unmarshal_def parse_first_def number_end_def skip_ws_def)

lemma decode_first_marshal:
  assumes "writable max_nesting v"
  shows "decode_first (marshal v) = Some v"
  using parse_marshal [OF assms, of "[]" "Suc (2 * length (marshal v))"]
  by (simp add: decode_first_def parse_first_def number_end_def)

end
