(* ===== verification/Json_Struct.thy ===== *)
theory Json_Struct
  imports Json_Writer "HOL-Library.Multiset"
begin

text \<open>
  Storing a JSON value into a Go struct, as \<open>encoding/json\<close> does it: members are taken in the
  order of the text (a later duplicate overwrites an earlier one), a key selects the field of that
  exact name or else the first field equal to it up to case, \<open>null\<close> leaves a field as it is, and a
  key without a field is skipped or, under \<open>DisallowUnknownFields\<close>, an error. Go goes on after an
  error and reports the first one; no caller looks at what was stored when there was an error, so
  the model stops at the first one.
\<close>

datatype json_error = SyntaxError | UnknownField string | TypeMismatch

type_synonym 'r setter = "json \<Rightarrow> 'r \<Rightarrow> json_error + 'r"
type_synonym 'r fields = "(string \<times> 'r setter) list"

text \<open>
  Case folding of keys: ASCII letters, and the two other runes that fold to ASCII letters, U+017F
  (to S) and U+212A (to K). Field names are ASCII, so no other rune can match one.
\<close>

definition ascii_upper :: "char \<Rightarrow> char" where
  "ascii_upper c = (if byte_in 97 122 c then char_of (byte c - 32) else c)"

fun fold_name :: "string \<Rightarrow> string" where
  "fold_name [] = []"
| "fold_name (c # s) =
     (if byte c = 197 \<and> prefix (bytes [191]) s then CHR ''S'' # fold_name (tl s)
      else if byte c = 226 \<and> prefix (bytes [132, 170]) s then CHR ''K'' # fold_name (drop 2 s)
      else ascii_upper c # fold_name s)"

definition find_field :: "'r fields \<Rightarrow> string \<Rightarrow> 'r setter option" where
  "find_field fs k =
     (case map_of fs k of
        Some f \<Rightarrow> Some f
      | None \<Rightarrow> map_option snd (find (\<lambda>f. fold_name (fst f) = fold_name k) fs))"

fun decode_members :: "bool \<Rightarrow> 'r fields \<Rightarrow> (string \<times> json) list \<Rightarrow> 'r \<Rightarrow> json_error + 'r" where
  "decode_members strict fs [] r = Inr r"
| "decode_members strict fs ((k, v) # ms) r =
     (case find_field fs k of
        None \<Rightarrow> if strict then Inl (UnknownField k) else decode_members strict fs ms r
      | Some st \<Rightarrow>
          (case st v r of Inl e \<Rightarrow> Inl e | Inr r' \<Rightarrow> decode_members strict fs ms r'))"

definition decode_struct :: "bool \<Rightarrow> 'r fields \<Rightarrow> json \<Rightarrow> 'r \<Rightarrow> json_error + 'r" where
  "decode_struct strict fs v r =
     (case v of
        JObj ms \<Rightarrow> decode_members strict fs ms r
      | JNull \<Rightarrow> Inr r
      | _ \<Rightarrow> Inl TypeMismatch)"

text \<open>A field of a given type: its update function and the reader of its values, where
  \<open>Inr None\<close> leaves the field as it is.\<close>

definition field ::
    "(json \<Rightarrow> json_error + 'a option) \<Rightarrow> (('a \<Rightarrow> 'a) \<Rightarrow> 'r \<Rightarrow> 'r) \<Rightarrow> 'r setter" where
  "field dec upd v r =
     (case dec v of
        Inl e \<Rightarrow> Inl e
      | Inr None \<Rightarrow> Inr r
      | Inr (Some x) \<Rightarrow> Inr (upd (\<lambda>_. x) r))"

fun as_string :: "json \<Rightarrow> json_error + string option" where
  "as_string JNull = Inr None"
| "as_string (JStr s) = Inr (Some s)"
| "as_string _ = Inl TypeMismatch"

fun as_int64 :: "json \<Rightarrow> json_error + int64 option" where
  "as_int64 JNull = Inr None"
| "as_int64 (JNum lit) =
     (case parse_int64 lit of None \<Rightarrow> Inl TypeMismatch | Some i \<Rightarrow> Inr (Some i))"
| "as_int64 _ = Inl TypeMismatch"

text \<open>A pointer field, which \<open>null\<close> sets to \<open>nil\<close>.\<close>

fun as_int64_ptr :: "json \<Rightarrow> json_error + int64 option option" where
  "as_int64_ptr JNull = Inr (Some None)"
| "as_int64_ptr (JNum lit) =
     (case parse_int64 lit of None \<Rightarrow> Inl TypeMismatch | Some i \<Rightarrow> Inr (Some (Some i)))"
| "as_int64_ptr _ = Inl TypeMismatch"

text \<open>The elements of a \<open>[]string\<close>: a \<open>null\<close> element is the empty string.\<close>

fun string_elems :: "json list \<Rightarrow> json_error + string list" where
  "string_elems [] = Inr []"
| "string_elems (v # vs) =
     (case as_string v of
        Inl e \<Rightarrow> Inl e
      | Inr x \<Rightarrow>
          (case string_elems vs of
             Inl e \<Rightarrow> Inl e
           | Inr xs \<Rightarrow> Inr ((case x of None \<Rightarrow> [] | Some s \<Rightarrow> s) # xs)))"

fun as_strings :: "json \<Rightarrow> json_error + string list option" where
  "as_strings JNull = Inr (Some [])"
| "as_strings (JArr vs) = map_sum id Some (string_elems vs)"
| "as_strings _ = Inl TypeMismatch"

text \<open>\<open>json.RawMessage\<close> keeps the value as it is, \<open>null\<close> included.\<close>

definition as_raw :: "json \<Rightarrow> json_error + json option option" where
  "as_raw v = Inr (Some (Some v))"

section \<open>Laws\<close>

lemma decode_members_append:
  "decode_members strict fs (ms @ ns) r =
     (case decode_members strict fs ms r of Inl e \<Rightarrow> Inl e | Inr r' \<Rightarrow> decode_members strict fs ns r')"
  by (induction strict fs ms r rule: decode_members.induct) (auto split: option.split sum.split)

lemma find_field_exact: "map_of fs k = Some st \<Longrightarrow> find_field fs k = Some st"
  by (simp add: find_field_def)

text \<open>A member whose key names no field does not matter to a lenient decoder.\<close>

lemma decode_members_skip:
  "find_field fs k = None \<Longrightarrow>
    decode_members False fs (ms @ (k, v) # ns) r = decode_members False fs (ms @ ns) r"
  by (simp add: decode_members_append split: sum.split)

lemma decode_members_strict:
  assumes "decode_members True fs ms r = Inr r'" and "(k, v) \<in> set ms"
  shows "find_field fs k \<noteq> None"
  using assms
  by (induction "True" fs ms r rule: decode_members.induct) (auto split: option.splits sum.splits)

lemma as_int64_range: "as_int64 v = Inr (Some i) \<Longrightarrow> in_int64 i"
  by (cases v) (auto dest: parse_int64_range split: option.splits)

text \<open>
  Two members whose setters commute may change places; so the order in which a store keeps the
  keys of an object does not change what is decoded from it.
\<close>

definition commuting :: "'r setter \<Rightarrow> 'r setter \<Rightarrow> bool" where
  "commuting f g \<longleftrightarrow>
     (\<forall>v w r r' s. f v r = Inr r' \<longrightarrow> g w r' = Inr s \<longrightarrow>
        (\<exists>r''. g w r = Inr r'' \<and> f v r'' = Inr s))"

definition independent_fields :: "'r fields \<Rightarrow> bool" where
  "independent_fields fs \<longleftrightarrow>
     (\<forall>k k' f g. k \<noteq> k' \<longrightarrow> map_of fs k = Some f \<longrightarrow> map_of fs k' = Some g \<longrightarrow> commuting f g)"

lemma field_commuting:
  assumes "\<And>x y r. upd (\<lambda>_. x) (upd' (\<lambda>_. y) r) = upd' (\<lambda>_. y) (upd (\<lambda>_. x) r)"
  shows "commuting (field dec upd) (field dec' upd')"
  unfolding commuting_def field_def
  using assms by (auto split: sum.splits option.splits)

lemma independent_Nil: "independent_fields []"
  by (simp add: independent_fields_def)

lemma independent_Cons:
  assumes "\<forall>m \<in> set fs. commuting f (snd m) \<and> commuting (snd m) f" and "independent_fields fs"
  shows "independent_fields ((k, f) # fs)"
  unfolding independent_fields_def
proof (intro allI impI)
  fix a b g h
  assume ab: "a \<noteq> b" and g: "map_of ((k, f) # fs) a = Some g" and h: "map_of ((k, f) # fs) b = Some h"
  show "commuting g h"
  proof (cases "a = k \<or> b = k")
    case True
    then show ?thesis
    proof
      assume "a = k"
      with ab g h have "g = f" "map_of fs b = Some h" by simp_all
      with assms(1) map_of_SomeD [OF this(2)] show ?thesis by auto
    next
      assume "b = k"
      with ab g h have "h = f" "map_of fs a = Some g" by simp_all
      with assms(1) map_of_SomeD [OF this(2)] show ?thesis by auto
    qed
  next
    case False
    with g h have "map_of fs a = Some g" "map_of fs b = Some h" by simp_all
    from assms(2) [unfolded independent_fields_def, rule_format, OF ab this] show ?thesis .
  qed
qed

lemma decode_move_front:
  assumes "independent_fields fs"
    and "\<forall>m \<in> set ((k, v) # ms). map_of fs (fst m) \<noteq> None" and "k \<notin> fst ` set ms"
    and "decode_members strict fs (ms @ [(k, v)]) r = Inr s"
  shows "decode_members strict fs ((k, v) # ms) r = Inr s"
  using assms
proof (induction ms arbitrary: r)
  case (Cons m ms)
  obtain k' w where m: "m = (k', w)" by (cases m)
  from Cons.prems m obtain f g where f: "map_of fs k = Some f" and g: "map_of fs k' = Some g"
    and "k \<noteq> k'" by auto
  then have comm: "commuting g f"
    using Cons.prems(1) [unfolded independent_fields_def, rule_format, of k' k g f] by simp
  from Cons.prems(4) m g obtain r' where r': "g w r = Inr r'"
    and "decode_members strict fs (ms @ [(k, v)]) r' = Inr s"
    by (auto simp: find_field_exact split: sum.splits)
  then have "decode_members strict fs ((k, v) # ms) r' = Inr s"
    using Cons.prems by (intro Cons.IH) auto
  then obtain r'' where "f v r' = Inr r''" and tail: "decode_members strict fs ms r'' = Inr s"
    using f by (auto simp: find_field_exact split: sum.splits)
  with comm r' obtain q where "f v r = Inr q" "g w q = Inr r''"
    unfolding commuting_def by blast
  with f g tail m show ?case by (simp add: find_field_exact)
qed simp

lemma decode_members_permute:
  assumes "independent_fields fs" and "distinct (map fst ms)"
    and "\<forall>m \<in> set ms. map_of fs (fst m) \<noteq> None"
    and "mset ms' = mset ms" and "decode_members strict fs ms r = Inr s"
  shows "decode_members strict fs ms' r = Inr s"
  using assms(2-)
proof (induction ms' arbitrary: ms r)
  case (Cons m ms')
  obtain k v where m: "m = (k, v)" by (cases m)
  from Cons.prems(3) have "m \<in> set ms" by (metis list.set_intros(1) mset_eq_setD)
  then obtain as bs where ms: "ms = as @ m # bs" by (auto simp: in_set_conv_decomp)
  have "decode_members strict fs ((as @ [(k, v)]) @ bs) r = Inr s"
    using Cons.prems(4) by (simp add: ms m)
  then obtain q where "decode_members strict fs (as @ [(k, v)]) r = Inr q"
    and rest: "decode_members strict fs bs q = Inr s"
    unfolding decode_members_append [of strict fs "as @ [(k, v)]" bs] by (auto split: sum.splits)
  then have "decode_members strict fs ((k, v) # as) r = Inr q"
    using Cons.prems(1,2) ms m by (intro decode_move_front assms(1)) auto
  with rest have all: "decode_members strict fs ((k, v) # as @ bs) r = Inr s"
    using decode_members_append [of strict fs "(k, v) # as" bs r] by simp
  obtain f where f: "find_field fs k = Some f"
    using Cons.prems(2) ms m by (auto simp: find_field_exact)
  with all obtain r' where r': "f v r = Inr r'" "decode_members strict fs (as @ bs) r' = Inr s"
    by (auto split: sum.splits)
  have "decode_members strict fs ms' r' = Inr s"
    using Cons.prems(1,2,3) r'(2) ms by (intro Cons.IH [of "as @ bs"]) auto
  with f r'(1) m show ?case by simp
qed simp

end
