(* ===== verification/Gotime.thy ===== *)
theory Gotime
  imports Json_Struct "HOL-Library.Monad_Syntax"
begin

text \<open>
  How Go's \<open>time.Time\<close> travels in JSON: \<open>MarshalJSON\<close> writes RFC 3339 with nanoseconds and
  \<open>UnmarshalJSON\<close> reads it strictly. An instant counts nanoseconds since the Unix epoch; the
  events of this program carry UTC, so the writer always ends in Z, and the reader accepts any
  zone. The round trip is proved for every instant of the years 0 to 9999, the only ones
  \<open>MarshalJSON\<close> accepts.
\<close>

section \<open>The calendar\<close>

definition leap :: "nat \<Rightarrow> bool" where
  "leap y \<longleftrightarrow> 4 dvd y \<and> (\<not> 100 dvd y \<or> 400 dvd y)"

definition year_days :: "nat \<Rightarrow> nat" where
  "year_days y = (if leap y then 366 else 365)"

definition month_days :: "nat \<Rightarrow> nat list" where
  "month_days y = [31, if leap y then 29 else 28, 31, 30, 31, 30, 31, 31, 30, 31, 30, 31]"

text \<open>Days before a year, counted from 1 January of year 0.\<close>

definition days_before :: "nat \<Rightarrow> nat" where
  "days_before y = 365 * y + ((y + 3) div 4 - (y + 99) div 100) + (y + 399) div 400"

function split_year :: "nat \<Rightarrow> nat \<Rightarrow> nat \<times> nat" where
  "split_year y d = (if d < year_days y then (y, d) else split_year (Suc y) (d - year_days y))"
  by pat_completeness auto
termination by (relation "measure (\<lambda>(y, d). d)") (auto simp: year_days_def)

declare split_year.simps [simp del]

fun split_month :: "nat \<Rightarrow> nat list \<Rightarrow> nat \<Rightarrow> nat \<times> nat" where
  "split_month m [] d = (m, d)"
| "split_month m (l # ls) d = (if d < l then (m, d) else split_month (Suc m) ls (d - l))"

text \<open>Year, month (from 1) and day (from 1) of a day count, and back.\<close>

definition civil_of_days :: "nat \<Rightarrow> nat \<times> nat \<times> nat" where
  "civil_of_days n =
     (let (y, d) = split_year (400 * (n div 146097)) (n mod 146097);
          (m, k) = split_month 1 (month_days y) d
      in (y, m, Suc k))"

definition days_of_civil :: "nat \<Rightarrow> nat \<Rightarrow> nat \<Rightarrow> nat" where
  "days_of_civil y m d = days_before y + sum_list (take (m - 1) (month_days y)) + (d - 1)"

lemma div_step: "0 < k \<Longrightarrow> Suc (y + (k - 1)) div k = (y + (k - 1)) div k + (if k dvd y then 1 else 0)"
proof -
  assume k: "0 < k"
  then have "Suc (y + (k - 1)) = y + k" by simp
  moreover have "(y + k) mod k = 0 \<longleftrightarrow> k dvd y" by (simp add: mod_eq_0_iff_dvd)
  ultimately show ?thesis
    using div_Suc [of "y + (k - 1)" k] by simp
qed

lemma century_le: "(y + 99) div 100 \<le> (y + 3) div (4 :: nat)"
proof -
  have "(y + 99) div 100 * 100 \<le> y + 99" by (rule div_times_less_eq_dividend)
  then have "(y + 99) div 100 * 4 \<le> y + 3"
    by linarith
  then show ?thesis by linarith
qed

lemma days_before_Suc: "days_before (Suc y) = days_before y + year_days y"
proof -
  define a b c where "a = (y + 3) div 4" and "b = (y + 99) div 100" and "c = (y + 399) div 400"
  have le: "b \<le> a" using century_le by (simp add: a_def b_def)
  have step: "Suc (y + 3) div 4 = a + (if 4 dvd y then 1 else 0)"
    "Suc (y + 99) div 100 = b + (if 100 dvd y then 1 else 0)"
    "Suc (y + 399) div 400 = c + (if 400 dvd y then 1 else 0)"
    using div_step [of 4 y] div_step [of 100 y] div_step [of 400 y]
    by (simp_all add: a_def b_def c_def)
  have dvd: "400 dvd y \<longrightarrow> 100 dvd y" "100 dvd y \<longrightarrow> 4 dvd y"
    by (auto elim!: dvd_trans [rotated])
  have "days_before (Suc y) =
      365 * Suc y + (Suc (y + 3) div 4 - Suc (y + 99) div 100) + Suc (y + 399) div 400"
    by (simp add: days_before_def)
  also have "\<dots> = 365 * y + (a - b) + c + year_days y"
    using dvd le unfolding step year_days_def leap_def
    by (cases "4 dvd y"; cases "100 dvd y"; cases "400 dvd y"; simp)
  also have "365 * y + (a - b) + c = days_before y"
    by (simp add: days_before_def a_def b_def c_def)
  finally show ?thesis .
qed

lemma days_before_cycle: "days_before (400 * k + y) = 146097 * k + days_before y"
proof -
  define a b c where "a = (y + 3) div 4" and "b = (y + 99) div 100" and "c = (y + 399) div 400"
  have le: "b \<le> a" using century_le by (simp add: a_def b_def)
  have "(400 * k + y + 3) div 4 = 100 * k + a"
    "(400 * k + y + 99) div 100 = 4 * k + b"
    "(400 * k + y + 399) div 400 = k + c"
    by (simp_all add: a_def b_def c_def)
  then have "days_before (400 * k + y) = 365 * (400 * k + y) + ((100 * k + a) - (4 * k + b)) + (k + c)"
    by (simp only: days_before_def)
  also have "\<dots> = 146097 * k + (365 * y + (a - b) + c)" using le by simp
  also have "365 * y + (a - b) + c = days_before y"
    by (simp add: days_before_def a_def b_def c_def)
  finally show ?thesis .
qed

lemma days_before_zero: "days_before 0 = 0"
  by (simp add: days_before_def)

lemma split_year_correct:
  "split_year y d = (y', d') \<Longrightarrow> d' < year_days y' \<and> days_before y' + d' = days_before y + d"
proof (induction y d rule: split_year.induct)
  case (1 y d)
  then show ?case
    by (cases "d < year_days y") (auto simp: split_year.simps [of y d] days_before_Suc)
qed

lemma split_month_correct:
  assumes "split_month m ls d = (m', d')" and "d < sum_list ls"
  shows "m \<le> m' \<and> m' < m + length ls \<and> d' < ls ! (m' - m) \<and> sum_list (take (m' - m) ls) + d' = d"
  using assms
proof (induction m ls d rule: split_month.induct)
  case (2 m l ls d)
  show ?case
  proof (cases "d < l")
    case True
    with 2 show ?thesis by simp
  next
    case False
    with 2 have "Suc m \<le> m' \<and> m' < Suc m + length ls \<and> d' < ls ! (m' - Suc m)
        \<and> sum_list (take (m' - Suc m) ls) + d' = d - l"
      by simp
    moreover from this obtain j where "m' = Suc m + j" by (auto simp: le_iff_add)
    moreover have "l \<le> d" using False by simp
    ultimately show ?thesis by auto
  qed
qed simp

lemma sum_month_days: "sum_list (month_days y) = year_days y"
  by (simp add: month_days_def year_days_def)

lemma civil_round_trip:
  assumes "civil_of_days n = (y, m, d)"
  shows "days_of_civil y m d = n" and "1 \<le> m" and "m \<le> 12" and "1 \<le> d"
    and "d \<le> month_days y ! (m - 1)"
proof -
  obtain e where e: "split_year (400 * (n div 146097)) (n mod 146097) = (y, e)"
    and m: "split_month 1 (month_days y) e = (m, d - 1)" and d: "1 \<le> d"
    using assms by (auto simp: civil_of_days_def Let_def split: prod.splits)
  from split_year_correct [OF e] have "e < year_days y"
    and "days_before y + e = days_before (400 * (n div 146097)) + n mod 146097" by auto
  then have days: "days_before y + e = n" and "e < sum_list (month_days y)"
    using days_before_cycle [of "n div 146097" 0] days_before_zero by (simp_all add: sum_month_days)
  have "length (month_days y) = 12" by (simp add: month_days_def)
  with split_month_correct [OF m \<open>e < sum_list (month_days y)\<close>] d
  show "1 \<le> m" "m \<le> 12" "1 \<le> d" "d \<le> month_days y ! (m - 1)" by auto
  have "sum_list (take (m - 1) (month_days y)) + (d - 1) = e"
    using split_month_correct [OF m \<open>e < sum_list (month_days y)\<close>] by simp
  with days show "days_of_civil y m d = n" by (simp add: days_of_civil_def)
qed

section \<open>RFC 3339\<close>

fun pad :: "nat \<Rightarrow> nat \<Rightarrow> string" where
  "pad 0 n = []"
| "pad (Suc k) n = pad k (n div 10) @ [digit_char (n mod 10)]"

definition strip_zeros :: "string \<Rightarrow> string" where
  "strip_zeros ds = rev (dropWhile (\<lambda>c. c = CHR ''0'') (rev ds))"

definition frac_text :: "nat \<Rightarrow> string" where
  "frac_text ns = (if ns = 0 then [] else CHR ''.'' # strip_zeros (pad 9 ns))"

text \<open>Day 0 of the Unix epoch, counted from 1 January of year 0.\<close>

definition epoch_day :: int where "epoch_day = 719528"

definition format_time :: "instant \<Rightarrow> string option" where
  "format_time t =
     (let secs = t div second;
          day = secs div 86400 + epoch_day;
          sod = nat (secs mod 86400);
          (y, m, d) = civil_of_days (nat day)
      in if day < 0 \<or> 9999 < y then None
         else Some (pad 4 y @ CHR ''-'' # pad 2 m @ CHR ''-'' # pad 2 d
                @ CHR ''T'' # pad 2 (sod div 3600) @ CHR '':'' # pad 2 (sod div 60 mod 60)
                @ CHR '':'' # pad 2 (sod mod 60) @ frac_text (nat (t mod second)) @ ''Z''))"

definition read_number :: "nat \<Rightarrow> string \<Rightarrow> (nat \<times> string) option" where
  "read_number k s =
     (if length s < k then None
      else map_option (\<lambda>n. (n, drop k s)) (digits_val 0 (take k s)))"

definition in_range :: "nat \<Rightarrow> nat \<Rightarrow> nat \<Rightarrow> unit option" where
  "in_range lo hi n = (if lo \<le> n \<and> n \<le> hi then Some () else None)"

fun expect :: "char \<Rightarrow> string \<Rightarrow> string option" where
  "expect c [] = None"
| "expect c (x # s) = (if x = c then Some s else None)"

definition read_frac :: "string \<Rightarrow> (nat \<times> string) option" where
  "read_frac s =
     (if prefix ''.'' s \<and> takeWhile is_digit (tl s) \<noteq> []
      then map_option (\<lambda>n. (n, dropWhile is_digit (tl s)))
             (digits_val 0 (take 9 (takeWhile is_digit (tl s) @ replicate 9 (CHR ''0''))))
      else Some (0, s))"

definition read_zone :: "string \<Rightarrow> int option" where
  "read_zone s =
     (if s = ''Z'' then Some 0
      else if length s \<noteq> 6 \<or> \<not> (prefix ''+'' s \<or> prefix ''-'' s) then None
      else do {
        (h, s1) \<leftarrow> read_number 2 (tl s);
        in_range 0 23 h;
        s2 \<leftarrow> expect (CHR '':'') s1;
        (m, _) \<leftarrow> read_number 2 s2;
        in_range 0 59 m;
        Some ((if prefix ''-'' s then -1 else 1) * (int h * 60 + int m) * 60)
      })"

definition parse_time :: "string \<Rightarrow> instant option" where
  "parse_time s = do {
     (y, s) \<leftarrow> read_number 4 s;
     s \<leftarrow> expect (CHR ''-'') s;
     (m, s) \<leftarrow> read_number 2 s;
     in_range 1 12 m;
     s \<leftarrow> expect (CHR ''-'') s;
     (d, s) \<leftarrow> read_number 2 s;
     in_range 1 (month_days y ! (m - 1)) d;
     s \<leftarrow> expect (CHR ''T'') s;
     (hh, s) \<leftarrow> read_number 2 s;
     in_range 0 23 hh;
     s \<leftarrow> expect (CHR '':'') s;
     (mm, s) \<leftarrow> read_number 2 s;
     in_range 0 59 mm;
     s \<leftarrow> expect (CHR '':'') s;
     (ss, s) \<leftarrow> read_number 2 s;
     in_range 0 59 ss;
     (ns, s) \<leftarrow> read_frac s;
     zone \<leftarrow> read_zone s;
     Some (((int (days_of_civil y m d) - epoch_day) * 86400
            + int (3600 * hh + 60 * mm + ss) - zone) * second + int ns)
   }"

lemma length_pad [simp]: "length (pad k n) = k"
  by (induction k arbitrary: n) auto

lemma digits_val_pad: "n < 10 ^ k \<Longrightarrow> digits_val 0 (pad k n) = Some n"
proof (induction k arbitrary: n)
  case (Suc k)
  then have "n div 10 < 10 ^ k" by (simp add: less_mult_imp_div_less mult.commute)
  then show ?case
    using Suc.IH by (simp add: digits_val_append digit_of_digit_char)
qed simp

lemma pad_digits: "\<forall>c \<in> set (pad k n). is_digit c"
  by (induction k arbitrary: n) (auto simp: is_digit_digit_char)

lemma read_number_pad: "n < 10 ^ k \<Longrightarrow> read_number k (pad k n @ s) = Some (n, s)"
  by (simp add: read_number_def digits_val_pad)

lemma strip_zeros_pad:
  "xs = strip_zeros xs @ replicate (length xs - length (strip_zeros xs)) (CHR ''0'')"
proof -
  let ?z = "takeWhile (\<lambda>c. c = CHR ''0'') (rev xs)"
  have "xs = strip_zeros xs @ rev ?z"
    by (metis rev_append rev_rev_ident strip_zeros_def takeWhile_dropWhile_id)
  moreover have "\<forall>c \<in> set (rev ?z). c = CHR ''0''"
    by (auto dest: set_takeWhileD)
  then have "rev ?z = replicate (length (rev ?z)) (CHR ''0'')"
    by (metis replicate_length_same)
  moreover have "length (rev ?z) = length xs - length (strip_zeros xs)"
    by (metis calculation(1) add_diff_cancel_left' length_append)
  ultimately show ?thesis by metis
qed

lemma take_strip_zeros:
  assumes "length xs = n"
  shows "take n (strip_zeros xs @ replicate n (CHR ''0'')) = xs"
proof -
  have "length (strip_zeros xs) \<le> n"
    using assms length_dropWhile_le [of "\<lambda>c. c = CHR ''0''" "rev xs"] by (simp add: strip_zeros_def)
  then have "take n (strip_zeros xs @ replicate n (CHR ''0'')) =
      strip_zeros xs @ replicate (n - length (strip_zeros xs)) (CHR ''0'')"
    by simp
  with strip_zeros_pad [of xs] assms show ?thesis by simp
qed

lemma strip_zeros_nonempty:
  assumes "n \<noteq> 0" and "n < 10 ^ k"
  shows "strip_zeros (pad k n) \<noteq> []"
proof
  assume "strip_zeros (pad k n) = []"
  then have zeros: "pad k n = replicate k (CHR ''0'')"
    using strip_zeros_pad [of "pad k n"] by simp
  have "digits_val 0 (replicate k (CHR ''0'')) = Some 0"
    by (induction k) (simp_all add: digit_of_def)
  with zeros digits_val_pad [OF assms(2)] assms(1) show False by simp
qed

lemma read_frac_text:
  assumes "ns < 1000000000"
  shows "read_frac (frac_text ns @ ''Z'') = Some (ns, ''Z'')"
proof (cases "ns = 0")
  case True
  then show ?thesis by (simp add: frac_text_def read_frac_def)
next
  case False
  let ?ds = "strip_zeros (pad 9 ns)"
  have "\<forall>c \<in> set ?ds. is_digit c"
    using pad_digits [of 9 ns] by (auto simp: strip_zeros_def dest: set_dropWhileD)
  moreover have "\<not> is_digit (CHR ''Z'')" by (simp add: is_digit_def byte_in_def)
  ultimately have "takeWhile is_digit (?ds @ ''Z'') = ?ds" "dropWhile is_digit (?ds @ ''Z'') = ''Z''"
    by (simp_all add: takeWhile_append dropWhile_append)
  moreover have "?ds \<noteq> []"
    using False assms by (intro strip_zeros_nonempty) auto
  moreover have "digits_val 0 (take 9 (?ds @ replicate 9 (CHR ''0''))) = Some ns"
    using assms take_strip_zeros [of "pad 9 ns" 9] by (simp add: digits_val_pad)
  ultimately show ?thesis
    using False by (simp add: frac_text_def read_frac_def)
qed

lemma time_of_day:
  assumes "sod < (86400 :: nat)"
  shows "sod div 3600 \<le> 23" and "sod div 60 mod 60 \<le> 59" and "sod mod 60 \<le> 59"
    and "3600 * (sod div 3600) + 60 * (sod div 60 mod 60) + sod mod 60 = sod"
proof -
  show "sod div 3600 \<le> 23" "sod div 60 mod 60 \<le> 59" "sod mod 60 \<le> 59"
    using assms by simp_all
  have "sod div 60 = 60 * (sod div 3600) + sod div 60 mod 60"
    using div_mult2_eq [of sod 60 60] by simp
  then show "3600 * (sod div 3600) + 60 * (sod div 60 mod 60) + sod mod 60 = sod"
    using mult_div_mod_eq [of 60 sod] by linarith
qed

lemma month_days_le: "1 \<le> m \<Longrightarrow> m \<le> 12 \<Longrightarrow> month_days y ! (m - 1) \<le> 31"
  by (auto simp: month_days_def nth_Cons split: nat.splits)

theorem parse_format_time:
  assumes "format_time t = Some s"
  shows "parse_time s = Some t"
proof -
  define secs day sod ns where "secs = t div second" and "day = secs div 86400 + epoch_day"
    and "sod = nat (secs mod 86400)" and "ns = nat (t mod second)"
  obtain y m d where civil: "civil_of_days (nat day) = (y, m, d)" by (metis prod_cases3)
  from assms civil have bounds: "0 \<le> day" "y \<le> 9999"
    and s: "s = pad 4 y @ CHR ''-'' # pad 2 m @ CHR ''-'' # pad 2 d
              @ CHR ''T'' # pad 2 (sod div 3600) @ CHR '':'' # pad 2 (sod div 60 mod 60)
              @ CHR '':'' # pad 2 (sod mod 60) @ frac_text ns @ ''Z''"
    by (auto simp: format_time_def secs_def day_def sod_def ns_def Let_def split: if_splits)
  note date = civil_round_trip [OF civil]
  have sod: "sod < 86400" by (simp add: sod_def)
  have ns: "ns < 1000000000" by (simp add: ns_def duration_defs)
  note tod = time_of_day [OF sod]
  have "d \<le> 31" using date month_days_le [of m y] by linarith
  then have read: "read_number 4 (pad 4 y @ u) = Some (y, u)"
    "read_number 2 (pad 2 m @ u) = Some (m, u)" "read_number 2 (pad 2 d @ u) = Some (d, u)"
    "read_number 2 (pad 2 (sod div 3600) @ u) = Some (sod div 3600, u)"
    "read_number 2 (pad 2 (sod div 60 mod 60) @ u) = Some (sod div 60 mod 60, u)"
    "read_number 2 (pad 2 (sod mod 60) @ u) = Some (sod mod 60, u)" for u
    using bounds date tod by (intro read_number_pad; simp)+
  have "parse_time s =
      Some (((int (nat day) - epoch_day) * 86400 + int sod - 0) * second + int ns)"
    unfolding parse_time_def s
    using date tod
    by (simp add: read read_frac_text [OF ns] in_range_def read_zone_def del: pad.simps)
  also have "((int (nat day) - epoch_day) * 86400 + int sod - 0) = secs"
    using bounds by (simp add: day_def sod_def)
  also have "secs * second + int ns = t"
    by (simp add: secs_def ns_def duration_defs)
  finally show ?thesis .
qed

text \<open>A time as a JSON string, and a field of that type.\<close>

fun as_time :: "json \<Rightarrow> json_error + instant option" where
  "as_time JNull = Inr None"
| "as_time (JStr s) = (case parse_time s of None \<Rightarrow> Inl TypeMismatch | Some t \<Rightarrow> Inr (Some t))"
| "as_time _ = Inl TypeMismatch"

end
