(* ===== verification/Events.thy ===== *)
theory Events
  imports Gotime "HOL-Library.List_Lexorder" "HOL-Library.Product_Lexorder"
begin

text \<open>
  \<open>internal/events/events.go\<close>: the task and the versioned event envelope that goes through the
  outbox table, Kafka and the browsers, its construction, its JSON encoding and its decoding. The
  event ID and the trace headers come from third-party code and are arguments, as is the clock.
  The last section proves the round trip, also through a PostgreSQL JSONB column, which keeps the
  members of an object in its own order.
\<close>

section \<open>Tasks and envelopes\<close>

definition topic :: string where "topic = ''noapp.board-events.v1''"
definition task_created :: string where "task_created = ''task.created''"
definition task_status_changed :: string where "task_status_changed = ''task.status_changed''"
definition current_schema_version :: int64 where "current_schema_version = 1"

record task =
  task_id :: int64
  project_id :: int64
  assignee_id :: "int64 option"
  assignee_name :: string
  title :: string
  description :: string
  status :: string
  version :: int64
  created_at :: instant
  updated_at :: instant

record envelope =
  event_id :: string
  event_type :: string
  schema_version :: int64
  event_project :: int64
  event_task_id :: int64
  task_version :: int64
  occurred_at :: instant
  actor_subject :: string
  trace_parent :: string
  trace_state :: string
  event_task :: task

text \<open>The carrier is the map the trace propagator has filled; \<open>Get\<close> of a missing key is empty.\<close>

definition carrier_get :: "(string \<rightharpoonup> string) \<Rightarrow> string \<Rightarrow> string" where
  "carrier_get carrier k = (case carrier k of None \<Rightarrow> [] | Some s \<Rightarrow> s)"

definition new_task_event ::
    "(string \<rightharpoonup> string) \<Rightarrow> string \<Rightarrow> instant \<Rightarrow> string \<Rightarrow> string \<Rightarrow> task \<Rightarrow> envelope" where
  "new_task_event carrier uuid now etype actor t =
     \<lparr>event_id = uuid, event_type = etype, schema_version = current_schema_version,
      event_project = project_id t, event_task_id = task_id t, task_version = version t,
      occurred_at = now, actor_subject = actor,
      trace_parent = carrier_get carrier ''traceparent'',
      trace_state = carrier_get carrier ''tracestate'', event_task = t\<rparr>"

section \<open>Encoding\<close>

text \<open>\<open>omitempty\<close> leaves out a nil pointer and an empty string.\<close>

definition json_int :: "int64 \<Rightarrow> json" where
  "json_int i = JNum (format_int 10 i)"

definition omit_empty :: "string \<Rightarrow> string \<Rightarrow> (string \<times> json) list" where
  "omit_empty k s = (if s = [] then [] else [(k, JStr s)])"

definition omit_nil :: "string \<Rightarrow> int64 option \<Rightarrow> (string \<times> json) list" where
  "omit_nil k i = (case i of None \<Rightarrow> [] | Some n \<Rightarrow> [(k, json_int n)])"

text \<open>Encoding fails only on a time outside the years 0 to 9999.\<close>

definition task_members :: "task \<Rightarrow> (string \<times> json) list option" where
  "task_members t =
     (case (format_time (created_at t), format_time (updated_at t)) of
        (Some c, Some u) \<Rightarrow>
          Some ([(''id'', json_int (task_id t)), (''project_id'', json_int (project_id t))]
            @ omit_nil ''assignee_id'' (assignee_id t) @ omit_empty ''assignee_name'' (assignee_name t)
            @ [(''title'', JStr (title t)), (''description'', JStr (description t)),
               (''status'', JStr (status t)), (''version'', json_int (version t)),
               (''created_at'', JStr c), (''updated_at'', JStr u)])
      | _ \<Rightarrow> None)"

definition envelope_members :: "envelope \<Rightarrow> (string \<times> json) list option" where
  "envelope_members e =
     (case (format_time (occurred_at e), task_members (event_task e)) of
        (Some o', Some ms) \<Rightarrow>
          Some ([(''event_id'', JStr (event_id e)), (''event_type'', JStr (event_type e)),
             (''schema_version'', json_int (schema_version e)),
             (''project_id'', json_int (event_project e)), (''task_id'', json_int (event_task_id e)),
             (''task_version'', json_int (task_version e)), (''occurred_at'', JStr o')]
            @ omit_empty ''actor_subject'' (actor_subject e)
            @ omit_empty ''traceparent'' (trace_parent e) @ omit_empty ''tracestate'' (trace_state e)
            @ [(''task'', JObj ms)])
      | _ \<Rightarrow> None)"

definition encode_event :: "envelope \<Rightarrow> string option" where
  "encode_event e = map_option (\<lambda>ms. marshal (JObj ms)) (envelope_members e)"

section \<open>Decoding\<close>

definition task_fields :: "task fields" where
  "task_fields =
     [(''id'', field as_int64 task_id_update), (''project_id'', field as_int64 project_id_update),
      (''assignee_id'', field as_int64_ptr assignee_id_update),
      (''assignee_name'', field as_string assignee_name_update),
      (''title'', field as_string title_update), (''description'', field as_string description_update),
      (''status'', field as_string status_update), (''version'', field as_int64 version_update),
      (''created_at'', field as_time created_at_update),
      (''updated_at'', field as_time updated_at_update)]"

definition zero_task :: task where
  "zero_task =
     \<lparr>task_id = 0, project_id = 0, assignee_id = None, assignee_name = [], title = [],
      description = [], status = [], version = 0, created_at = zero_time, updated_at = zero_time\<rparr>"

definition zero_envelope :: envelope where
  "zero_envelope =
     \<lparr>event_id = [], event_type = [], schema_version = 0, event_project = 0, event_task_id = 0,
      task_version = 0, occurred_at = zero_time, actor_subject = [], trace_parent = [],
      trace_state = [], event_task = zero_task\<rparr>"

text \<open>A struct inside a struct is decoded into the value it already has.\<close>

definition sub_struct :: "'a fields \<Rightarrow> ('r \<Rightarrow> 'a) \<Rightarrow> (('a \<Rightarrow> 'a) \<Rightarrow> 'r \<Rightarrow> 'r) \<Rightarrow> 'r setter" where
  "sub_struct fs get upd v r =
     (case decode_struct False fs v (get r) of Inl e \<Rightarrow> Inl e | Inr x \<Rightarrow> Inr (upd (\<lambda>_. x) r))"

definition envelope_fields :: "envelope fields" where
  "envelope_fields =
     [(''event_id'', field as_string event_id_update), (''event_type'', field as_string event_type_update),
      (''schema_version'', field as_int64 schema_version_update),
      (''project_id'', field as_int64 event_project_update),
      (''task_id'', field as_int64 event_task_id_update),
      (''task_version'', field as_int64 task_version_update),
      (''occurred_at'', field as_time occurred_at_update),
      (''actor_subject'', field as_string actor_subject_update),
      (''traceparent'', field as_string trace_parent_update),
      (''tracestate'', field as_string trace_state_update),
      (''task'', sub_struct task_fields event_task event_task_update)]"

datatype decode_error = DecodeError json_error | InvalidEnvelope

definition decode_value :: "json \<Rightarrow> json_error + envelope" where
  "decode_value v = decode_struct False envelope_fields v zero_envelope"

definition decode_event :: "string \<Rightarrow> decode_error + envelope" where
  "decode_event payload =
     (case (case unmarshal payload of None \<Rightarrow> Inl SyntaxError | Some v \<Rightarrow> decode_value v) of
        Inl err \<Rightarrow> Inl (DecodeError err)
      | Inr e \<Rightarrow>
          if schema_version e \<noteq> current_schema_version \<or> event_id e = [] \<or> event_project e < 1
             \<or> event_task_id e < 1
          then Inl InvalidEnvelope else Inr e)"

section \<open>JSONB\<close>

text \<open>
  What PostgreSQL keeps of a JSON value in a JSONB column: of duplicate keys the last one, and the
  members of an object ordered by the length of the key and then by its bytes.
\<close>

fun keep_last :: "(string \<times> 'a) list \<Rightarrow> (string \<times> 'a) list" where
  "keep_last [] = []"
| "keep_last ((k, v) # ms) = (if k \<in> fst ` set ms then keep_last ms else (k, v) # keep_last ms)"

definition key_rank :: "string \<times> 'a \<Rightarrow> nat \<times> nat list" where
  "key_rank m = (length (fst m), map of_char (fst m))"

fun jsonb :: "json \<Rightarrow> json" where
  "jsonb (JArr vs) = JArr (map jsonb vs)"
| "jsonb (JObj ms) = JObj (sort_key key_rank (keep_last (map (\<lambda>(k, v). (k, jsonb v)) ms)))"
| "jsonb v = v"

lemma keep_last_distinct: "distinct (map fst ms) \<Longrightarrow> keep_last ms = ms"
  by (induction ms rule: keep_last.induct) auto

section \<open>Laws\<close>

definition envelope_ok :: "envelope \<Rightarrow> bool" where
  "envelope_ok e \<longleftrightarrow>
     schema_version e = current_schema_version \<and> event_id e \<noteq> [] \<and> 1 \<le> event_project e
     \<and> 1 \<le> event_task_id e"

text \<open>The types of the fields, as Go has them: 64-bit integers, and strings of valid UTF-8.\<close>

definition task_typed :: "task \<Rightarrow> bool" where
  "task_typed t \<longleftrightarrow>
     in_int64 (task_id t) \<and> in_int64 (project_id t) \<and> in_int64 (version t)
     \<and> (case assignee_id t of None \<Rightarrow> True | Some i \<Rightarrow> in_int64 i)
     \<and> utf8_ok (assignee_name t) \<and> utf8_ok (title t) \<and> utf8_ok (description t) \<and> utf8_ok (status t)"

definition envelope_typed :: "envelope \<Rightarrow> bool" where
  "envelope_typed e \<longleftrightarrow>
     in_int64 (schema_version e) \<and> in_int64 (event_project e) \<and> in_int64 (event_task_id e)
     \<and> in_int64 (task_version e) \<and> utf8_ok (event_id e) \<and> utf8_ok (event_type e)
     \<and> utf8_ok (actor_subject e) \<and> utf8_ok (trace_parent e) \<and> utf8_ok (trace_state e)
     \<and> task_typed (event_task e)"

lemma decode_event_ok: "decode_event p = Inr e \<Longrightarrow> envelope_ok e"
  by (auto simp: decode_event_def envelope_ok_def split: option.splits sum.splits if_splits)

lemma decode_event_value:
  assumes "unmarshal p = Some v" and "decode_value v = Inr e"
  shows "decode_event p = (if envelope_ok e then Inr e else Inl InvalidEnvelope)"
  using assms by (auto simp: decode_event_def envelope_ok_def)

lemma as_int64_json_int: "in_int64 i \<Longrightarrow> as_int64 (json_int i) = Inr (Some i)"
  "in_int64 i \<Longrightarrow> as_int64_ptr (json_int i) = Inr (Some (Some i))"
  by (simp_all add: json_int_def parse_format_int)

lemma task_decoded:
  assumes "task_typed t" and "task_members t = Some ms"
  shows "decode_members False task_fields ms zero_task = Inr t"
  using assms
  by (auto simp: task_members_def task_fields_def task_typed_def zero_task_def find_field_def field_def
      omit_empty_def omit_nil_def as_int64_json_int parse_format_time split: option.splits)

text \<open>The members of an envelope around any JSON value that decodes to its task.\<close>

definition envelope_around :: "envelope \<Rightarrow> string \<Rightarrow> json \<Rightarrow> (string \<times> json) list" where
  "envelope_around e o' tj =
     [(''event_id'', JStr (event_id e)), (''event_type'', JStr (event_type e)),
      (''schema_version'', json_int (schema_version e)),
      (''project_id'', json_int (event_project e)), (''task_id'', json_int (event_task_id e)),
      (''task_version'', json_int (task_version e)), (''occurred_at'', JStr o')]
     @ omit_empty ''actor_subject'' (actor_subject e)
     @ omit_empty ''traceparent'' (trace_parent e) @ omit_empty ''tracestate'' (trace_state e)
     @ [(''task'', tj)]"

lemma envelope_members_around:
  assumes "envelope_members e = Some ms"
  obtains o' ts where "format_time (occurred_at e) = Some o'" and "task_members (event_task e) = Some ts"
    and "ms = envelope_around e o' (JObj ts)"
  using assms by (auto simp: envelope_members_def envelope_around_def split: option.splits)

lemma envelope_around_decoded:
  assumes "envelope_typed e" and "format_time (occurred_at e) = Some o'"
    and "decode_struct False task_fields tj zero_task = Inr (event_task e)"
  shows "decode_members False envelope_fields (envelope_around e o' tj) zero_envelope = Inr e"
  using assms
  by (auto simp: envelope_around_def envelope_fields_def envelope_typed_def zero_envelope_def
      find_field_def field_def sub_struct_def omit_empty_def as_int64_json_int parse_format_time)

section \<open>What is written can be read\<close>

lemma is_digit_ascii: "is_digit c \<Longrightarrow> byte c < 128"
  by (simp add: is_digit_def byte_in_def)

lemma pad_ascii: "\<forall>c \<in> set (pad k n). byte c < 128"
  using pad_digits is_digit_ascii by blast

lemma strip_zeros_subset: "set (strip_zeros xs) \<subseteq> set xs"
  by (auto simp: strip_zeros_def dest: set_dropWhileD)

lemma frac_text_ascii: "\<forall>c \<in> set (frac_text ns). byte c < 128"
  using strip_zeros_subset [of "pad 9 ns"] pad_ascii [of 9 ns]
  by (auto simp: frac_text_def simp del: pad.simps)

lemma format_time_ascii:
  assumes "format_time t = Some s"
  shows "list_all (\<lambda>c. byte c < 128) s"
proof -
  from assms obtain y m d h mi se ns where
    "s = pad 4 y @ CHR ''-'' # pad 2 m @ CHR ''-'' # pad 2 d @ CHR ''T'' # pad 2 h
       @ CHR '':'' # pad 2 mi @ CHR '':'' # pad 2 se @ frac_text ns @ ''Z''"
    unfolding format_time_def Let_def by (auto split: prod.splits if_splits simp del: pad.simps)
  then show ?thesis
    unfolding list_all_iff using pad_ascii frac_text_ascii
    by (simp add: ball_Un del: pad.simps)
qed

lemma json_int_writable: "writable d (json_int i)"
  by (auto simp: json_int_def int_literal_def)

lemma task_members_writable:
  assumes "task_typed t" and "task_members t = Some ms"
  shows "\<forall>m \<in> set ms. utf8_ok (fst m) \<and> writable d (snd m)"
  using assms
  by (auto simp: task_members_def task_typed_def omit_empty_def omit_nil_def json_int_writable
      utf8_ok_ascii format_time_ascii split: option.splits if_splits)

lemma envelope_around_writable:
  assumes "envelope_typed e" and "format_time (occurred_at e) = Some o'" and "writable d tj"
  shows "\<forall>m \<in> set (envelope_around e o' tj). utf8_ok (fst m) \<and> writable d (snd m)"
  using assms
  by (auto simp: envelope_around_def envelope_typed_def omit_empty_def json_int_writable
      utf8_ok_ascii format_time_ascii split: if_splits)

lemma encoded_event:
  assumes "envelope_typed e" and "encode_event e = Some p"
  obtains o' ts where "format_time (occurred_at e) = Some o'" and "task_members (event_task e) = Some ts"
    and "p = marshal (JObj (envelope_around e o' (JObj ts)))"
    and "unmarshal p = Some (JObj (envelope_around e o' (JObj ts)))"
proof -
  from assms(2) obtain ms where ms: "envelope_members e = Some ms" and p: "p = marshal (JObj ms)"
    by (auto simp: encode_event_def)
  from ms obtain o' ts where facts: "format_time (occurred_at e) = Some o'"
    "task_members (event_task e) = Some ts" "ms = envelope_around e o' (JObj ts)"
    by (rule envelope_members_around)
  have "writable 9999 (JObj ts)"
    using assms(1) facts task_members_writable by (auto simp: envelope_typed_def)
  from envelope_around_writable [OF assms(1) facts(1) this] have "writable max_nesting (JObj ms)"
    by (simp add: facts(3) max_nesting_def del: writable.simps(3))
  from unmarshal_marshal [OF this] p facts that show ?thesis by simp
qed

section \<open>Order of members\<close>

lemma sub_struct_commuting:
  assumes comm: "\<And>x y r. upd (\<lambda>_. x) (upd' (\<lambda>_. y) r) = upd' (\<lambda>_. y) (upd (\<lambda>_. x) r)"
    and get: "\<And>y r. get (upd' (\<lambda>_. y) r) = get r"
  shows "commuting (field dec upd') (sub_struct fs get upd)"
    and "commuting (sub_struct fs get upd) (field dec upd')"
proof -
  have get': "get r' = get r" if "field dec upd' v r = Inr r'" for v r r'
    using that get by (auto simp: field_def split: sum.splits option.splits)
  have swap: "field dec upd' v (upd (\<lambda>_. x) r) = Inr (upd (\<lambda>_. x) r')"
    if "field dec upd' v r = Inr r'" for v r r' x
    using that comm by (auto simp: field_def split: sum.splits option.splits)
  have unswap: "\<exists>r'. field dec upd' v r = Inr r' \<and> s = upd (\<lambda>_. x) r'"
    if "field dec upd' v (upd (\<lambda>_. x) r) = Inr s" for v r s x
    using that comm by (auto simp: field_def split: sum.splits option.splits)
  show "commuting (field dec upd') (sub_struct fs get upd)"
    unfolding commuting_def sub_struct_def
    by (auto split: sum.splits simp: get' dest: swap)
  show "commuting (sub_struct fs get upd) (field dec upd')"
    unfolding commuting_def
  proof (intro allI impI)
    fix v w r r' s
    assume "sub_struct fs get upd v r = Inr r'" and set: "field dec upd' w r' = Inr s"
    then obtain x where x: "decode_struct False fs v (get r) = Inr x" "r' = upd (\<lambda>_. x) r"
      by (auto simp: sub_struct_def split: sum.splits)
    from unswap [OF set [unfolded x(2)]] obtain q where
      q: "field dec upd' w r = Inr q" "s = upd (\<lambda>_. x) q" by blast
    with x show "\<exists>r''. field dec upd' w r = Inr r'' \<and> sub_struct fs get upd v r'' = Inr s"
      by (simp add: sub_struct_def get' [OF q(1)])
  qed
qed

lemma task_fields_independent: "independent_fields task_fields"
  unfolding task_fields_def
  by (intro independent_Cons independent_Nil) (auto intro!: field_commuting)

lemma envelope_fields_independent: "independent_fields envelope_fields"
  unfolding envelope_fields_def
  by (intro independent_Cons independent_Nil) (auto intro!: field_commuting sub_struct_commuting)

lemma task_members_keys:
  assumes "task_members t = Some ms"
  shows "distinct (map fst ms)" and "\<forall>m \<in> set ms. map_of task_fields (fst m) \<noteq> None"
    and "map (\<lambda>(k, v). (k, jsonb v)) ms = ms"
  using assms
  by (auto simp: task_members_def task_fields_def omit_empty_def omit_nil_def json_int_def
      split: option.splits if_splits)

lemma envelope_around_keys:
  shows "distinct (map fst (envelope_around e o' tj))"
    and "\<forall>m \<in> set (envelope_around e o' tj). map_of envelope_fields (fst m) \<noteq> None"
    and "map (\<lambda>(k, v). (k, jsonb v)) (envelope_around e o' tj) = envelope_around e o' (jsonb tj)"
  by (auto simp: envelope_around_def envelope_fields_def omit_empty_def json_int_def)

lemma jsonb_task_decoded:
  assumes "task_typed t" and "task_members t = Some ms"
  shows "decode_struct False task_fields (jsonb (JObj ms)) zero_task = Inr t"
proof -
  note mem = task_members_keys [OF assms(2)]
  have "jsonb (JObj ms) = JObj (sort_key key_rank ms)"
    by (simp only: jsonb.simps mem(3) keep_last_distinct [OF mem(1)])
  moreover have "decode_members False task_fields (sort_key key_rank ms) zero_task = Inr t"
    by (rule decode_members_permute [OF task_fields_independent mem(1,2) _ task_decoded [OF assms]])
      (rule mset_sort)
  ultimately show ?thesis by (simp only: decode_struct_def json.case)
qed

lemma jsonb_envelope_decoded:
  assumes "envelope_typed e" and "format_time (occurred_at e) = Some o'"
    and "task_members (event_task e) = Some ts"
  shows "decode_value (jsonb (JObj (envelope_around e o' (JObj ts)))) = Inr e"
proof -
  let ?ms = "envelope_around e o' (jsonb (JObj ts))"
  have "decode_struct False task_fields (jsonb (JObj ts)) zero_task = Inr (event_task e)"
    using assms by (intro jsonb_task_decoded) (auto simp: envelope_typed_def)
  then have "decode_members False envelope_fields ?ms zero_envelope = Inr e"
    using assms by (intro envelope_around_decoded)
  then have "decode_members False envelope_fields (sort_key key_rank ?ms) zero_envelope = Inr e"
    by (rule decode_members_permute [OF envelope_fields_independent envelope_around_keys(1,2) mset_sort])
  moreover have "jsonb (JObj (envelope_around e o' (JObj ts))) = JObj (sort_key key_rank ?ms)"
    by (simp only: jsonb.simps(2) [of "envelope_around e o' (JObj ts)"] envelope_around_keys(3)
        keep_last_distinct [OF envelope_around_keys(1)])
  ultimately show ?thesis by (simp only: decode_value_def decode_struct_def json.case)
qed

section \<open>Properties\<close>

text \<open>A small event, for the witnesses.\<close>

definition sample_task :: task where
  "sample_task =
     \<lparr>task_id = 9, project_id = 4, assignee_id = Some 3, assignee_name = ''Ada'', title = ''Ship'',
      description = [], status = ''todo'', version = 2, created_at = 1000000000 * second,
      updated_at = 1000000000 * second + 5\<rparr>"

definition sample_event :: envelope where
  "sample_event =
     new_task_event [''traceparent'' \<mapsto> ''00-1-2-01''] ''event-1'' (1700000000 * second) task_created
       ''subject-1'' sample_task"

lemma sample_event_typed: "envelope_typed sample_event"
  by (simp add: sample_event_def sample_task_def new_task_event_def envelope_typed_def task_typed_def
      carrier_get_def current_schema_version_def task_created_def in_int64_def utf8_ok_ascii)

lemma sample_event_ok: "envelope_ok sample_event"
  by (simp add: sample_event_def sample_task_def new_task_event_def envelope_ok_def)

lemma split_year_at:
  "d < year_days y \<Longrightarrow> split_year y d = (y, d)"
  "\<not> d < year_days y \<Longrightarrow> split_year y d = split_year (Suc y) (d - year_days y)"
  by (simp_all add: split_year.simps [of y d])

lemma days_before_grows: "days_before y + 365 * k \<le> days_before (y + k)"
  by (induction k) (simp_all add: days_before_Suc year_days_def)

lemma civil_year_bound:
  assumes "civil_of_days n = (y, m, d)" and "n < 3652425"
  shows "y \<le> 9999"
proof (rule ccontr)
  assume "\<not> y \<le> 9999"
  then have "10000 \<le> y" by simp
  then obtain k where k: "y = 10000 + k" by (rule less_eqE)
  have "days_before 10000 = 3652425" by (simp add: days_before_def)
  moreover have "days_before 10000 + 365 * k \<le> days_before y"
    using days_before_grows [of 10000 k] by (simp only: k)
  ultimately have "3652425 \<le> days_before y" by linarith
  moreover have "days_before y \<le> n"
    using civil_round_trip(1) [OF assms(1)] by (auto simp: days_of_civil_def)
  ultimately show False using assms(2) by linarith
qed

lemma format_time_defined:
  assumes "0 \<le> t" and "t < 253402300800 * second"
  shows "\<exists>s. format_time t = Some s"
proof -
  define day where "day = t div second div 86400 + epoch_day"
  have "t div second < 253402300800" using assms by (simp add: duration_defs)
  moreover have "0 \<le> t div second" using assms by (simp add: duration_defs)
  ultimately have day: "0 \<le> day" "nat day < 3652425" by (auto simp: day_def epoch_day_def)
  obtain y m d where civil: "civil_of_days (nat day) = (y, m, d)" by (metis prod_cases3)
  then have "y \<le> 9999" using civil_year_bound day(2) by blast
  with civil day(1) show ?thesis
    by (simp add: format_time_def day_def [symmetric] Let_def del: pad.simps)
qed

lemma sample_event_encoded: "\<exists>p. encode_event sample_event = Some p"
proof -
  have "\<exists>a. format_time (1700000000 * second) = Some a" "\<exists>b. format_time (1000000000 * second) = Some b"
    "\<exists>c. format_time (1000000000 * second + 5) = Some c"
    by (intro format_time_defined; simp add: duration_defs)+
  then show ?thesis
    by (auto simp: encode_event_def envelope_members_def task_members_def sample_event_def
        sample_task_def new_task_event_def)
qed

lemma encoded_decodes:
  assumes "envelope_typed e" and "envelope_ok e" and "encode_event e = Some p"
  shows "decode_event p = Inr e"
proof -
  obtain o' ts where o': "format_time (occurred_at e) = Some o'"
    and ts: "task_members (event_task e) = Some ts"
    and p: "unmarshal p = Some (JObj (envelope_around e o' (JObj ts)))"
    using encoded_event [OF assms(1,3)] by blast
  have "decode_struct False task_fields (JObj ts) zero_task = Inr (event_task e)"
    using assms(1) ts by (simp add: decode_struct_def task_decoded envelope_typed_def)
  then have "decode_value (JObj (envelope_around e o' (JObj ts))) = Inr e"
    using assms(1) o' by (simp add: decode_value_def decode_struct_def [of _ envelope_fields] envelope_around_decoded)
  with p assms(2) show ?thesis by (simp add: decode_event_value)
qed

text \<open>Decoding accepts exactly the JSON texts whose object yields an envelope of the current
  schema version with an event ID and positive project and task IDs; every other text, be it not
  JSON, of a wrong shape, or of another version, is an error.\<close>

theorem decode_event_iff:
  "decode_event p = Inr e \<longleftrightarrow>
     (\<exists>v. unmarshal p = Some v \<and> decode_value v = Inr e \<and> schema_version e = 1 \<and> event_id e \<noteq> []
        \<and> 1 \<le> event_project e \<and> 1 \<le> event_task_id e)"
  by (auto simp: decode_event_def current_schema_version_def split: option.split sum.split)

text \<open>Round trip: every event whose fields have their Go types and which carries the current
  version, an event ID and positive IDs is read back unchanged from its encoding, optional fields
  and nanoseconds included.\<close>

theorem event_round_trip:
  assumes "envelope_typed e" and "envelope_ok e" and "encode_event e = Some p"
  shows "decode_event p = Inr e"
  by (rule encoded_decodes [OF assms])

text \<open>C20. The same through the outbox table: whatever text PostgreSQL gives back for a JSONB column,
  as long as it denotes the stored value with duplicate keys dropped and the members of every
  object in JSONB order, the relay and the gateway decode the event that the API encoded.\<close>

theorem event_round_trip_jsonb:
  assumes "envelope_typed e" and "envelope_ok e" and "encode_event e = Some p"
    and "unmarshal q = map_option jsonb (unmarshal p)"
  shows "decode_event q = Inr e"
proof -
  obtain o' ts where o': "format_time (occurred_at e) = Some o'"
    and ts: "task_members (event_task e) = Some ts"
    and p: "unmarshal p = Some (JObj (envelope_around e o' (JObj ts)))"
    using encoded_event [OF assms(1,3)] by blast
  have "unmarshal q = Some (jsonb (JObj (envelope_around e o' (JObj ts))))"
    using p assms(4) by (simp del: jsonb.simps)
  from decode_event_value [OF this jsonb_envelope_decoded [OF assms(1) o' ts]] assms(2)
  show ?thesis by simp
qed

lemma jsonb_writable: "writable d v \<Longrightarrow> writable d (jsonb v)"
proof (induction v arbitrary: d)
  case (JObj ms)
  have keep: "set (keep_last xs) \<subseteq> set xs" for xs :: "(string \<times> json) list"
    by (induction xs rule: keep_last.induct) auto
  have sub: "set (sort_key key_rank (keep_last (map (\<lambda>(k, v). (k, jsonb v)) ms)))
      \<subseteq> (\<lambda>(k, v). (k, jsonb v)) ` set ms"
    using keep [of "map (\<lambda>(k, v). (k, jsonb v)) ms"] by (simp only: set_sort set_map)
  have "utf8_ok (fst m) \<and> writable (d - 1) (jsonb (snd m))" if "m \<in> set ms" for m
    using JObj.IH [of m "snd m" "d - 1"] JObj.prems that by (auto simp: snds.simps)
  then have "\<forall>m \<in> (\<lambda>(k, v). (k, jsonb v)) ` set ms. utf8_ok (fst m) \<and> writable (d - 1) (snd m)"
    by auto
  with sub JObj.prems show ?case unfolding jsonb.simps writable.simps by blast
qed auto

theorem event_round_trip_jsonb_witness:
  "\<exists>p q. encode_event sample_event = Some p \<and> unmarshal q = map_option jsonb (unmarshal p)
    \<and> decode_event q = Inr sample_event"
proof -
  obtain p where p: "encode_event sample_event = Some p" using sample_event_encoded by blast
  obtain o' ts where o': "format_time (occurred_at sample_event) = Some o'"
    and ts: "task_members (event_task sample_event) = Some ts"
    and v: "unmarshal p = Some (JObj (envelope_around sample_event o' (JObj ts)))"
    using encoded_event [OF sample_event_typed p] by blast
  have "writable 9999 (JObj ts)"
    using task_members_writable [OF _ ts] sample_event_typed by (simp add: envelope_typed_def)
  from envelope_around_writable [OF sample_event_typed o' this]
  have "writable max_nesting (JObj (envelope_around sample_event o' (JObj ts)))"
    by (simp add: max_nesting_def del: writable.simps(3))
  from unmarshal_marshal [OF jsonb_writable [OF this]] v
  have "unmarshal (marshal (jsonb (JObj (envelope_around sample_event o' (JObj ts)))))
      = map_option jsonb (unmarshal p)"
    by (simp del: jsonb.simps marshal.simps)
  with p event_round_trip_jsonb [OF sample_event_typed sample_event_ok p] show ?thesis by blast
qed

end
