(* ===== verification/Database.thy ===== *)
theory Database
  imports Events
begin

text \<open>
  The PostgreSQL schema of \<open>db/init.sql\<close> and the statements that \<open>internal/app/server.go\<close> and
  \<open>internal/events/events.go\<close> run on it. A table is the list of its rows in insertion order with
  the last value of its sequence; a statement takes the database to the database after it and its
  rows or the text of the error the driver reports. Sequences are not transactional, so a failed
  insert keeps the number it drew. \<open>now()\<close> is an argument, whole microseconds like every
  \<open>TIMESTAMPTZ\<close>.
\<close>

section \<open>Tables\<close>

record user_row =
  usr_id :: int64
  usr_name :: string
  usr_email :: string
  usr_created :: instant

record project_row =
  prj_id :: int64
  prj_name :: string
  prj_description :: string
  prj_created :: instant

record task_row =
  tsk_id :: int64
  tsk_project :: int64
  tsk_assignee :: "int64 option"
  tsk_title :: string
  tsk_description :: string
  tsk_status :: string
  tsk_version :: int64
  tsk_created :: instant
  tsk_updated :: instant

record outbox_row =
  sequence_no :: int64
  ob_event_id :: string
  ob_project :: int64
  aggregate_id :: int64
  aggregate_version :: int64
  ob_event_type :: string
  payload :: json
  ob_occurred_at :: instant
  published_at :: "instant option"
  attempt_count :: int
  next_attempt_at :: instant
  claimed_by :: "string option"
  claim_until :: "instant option"
  last_error :: "string option"
  dead_at :: "instant option"

record db =
  users :: "user_row list"
  projects :: "project_row list"
  tasks :: "task_row list"
  outbox :: "outbox_row list"
  users_seq :: int64
  projects_seq :: int64
  tasks_seq :: int64
  outbox_seq :: int64

section \<open>Errors and faults\<close>

type_synonym 'a result = "string + 'a"

text \<open>The text of a server error, as the driver's \<open>PgError.Error\<close> prints it.\<close>

definition pg_error :: "string \<Rightarrow> string \<Rightarrow> string" where
  "pg_error msg code = ''ERROR: '' @ msg @ '' (SQLSTATE '' @ code @ '')''"

definition check_error :: "string \<Rightarrow> string \<Rightarrow> string" where
  "check_error table name =
     pg_error (''new row for relation '' @ [CHR 0x22] @ table @ [CHR 0x22] @ '' violates check constraint ''
       @ [CHR 0x22] @ name @ [CHR 0x22]) ''23514''"

definition unique_error :: "string \<Rightarrow> string" where
  "unique_error name =
     pg_error (''duplicate key value violates unique constraint '' @ [CHR 0x22] @ name @ [CHR 0x22]) ''23505''"

definition reference_error :: "string \<Rightarrow> string \<Rightarrow> string" where
  "reference_error table name =
     pg_error (''insert or update on table '' @ [CHR 0x22] @ table @ [CHR 0x22]
       @ '' violates foreign key constraint '' @ [CHR 0x22] @ name @ [CHR 0x22]) ''23503''"

definition sequence_error :: "string \<Rightarrow> string" where
  "sequence_error name =
     pg_error (''nextval: reached maximum value of sequence '' @ [CHR 0x22] @ name @ [CHR 0x22]
       @ '' (9223372036854775807)'') ''2200H''"

definition encoding_error :: string where
  "encoding_error = pg_error ''invalid byte sequence for encoding UTF8'' ''22021''"

definition json_error_pg :: string where
  "json_error_pg = pg_error ''unsupported Unicode escape sequence'' ''22P05''"

definition range_error :: string where
  "range_error = pg_error ''bigint out of range'' ''22003''"

text \<open>
  What the network and the server may do to one statement: nothing, lose it before it takes effect,
  or lose the answer after it took effect. The string is the error the driver reports.
\<close>

datatype fault = NoFault | Lost string | LostAfter string

text \<open>
  A statement outside a transaction commits on its own. Inside one it works on the transaction's
  copy of the database, and the caller rolls back whenever it gets an error.
\<close>

definition run_stmt :: "fault \<Rightarrow> (db \<Rightarrow> db \<times> 'a result) \<Rightarrow> db \<Rightarrow> db \<times> 'a result" where
  "run_stmt f stmt d =
     (case f of NoFault \<Rightarrow> stmt d | Lost e \<Rightarrow> (d, Inl e) | LostAfter e \<Rightarrow> (fst (stmt d), Inl e))"

text \<open>Rolling back restores the tables and keeps the sequences.\<close>

definition rolled_back :: "db \<Rightarrow> db \<Rightarrow> db" where
  "rolled_back start work =
     work\<lparr>users := users start, projects := projects start, tasks := tasks start, outbox := outbox start\<rparr>"

definition commit :: "fault \<Rightarrow> db \<Rightarrow> db \<Rightarrow> db \<times> unit result" where
  "commit f start work =
     (case f of NoFault \<Rightarrow> (work, Inr ()) | Lost e \<Rightarrow> (rolled_back start work, Inl e)
      | LostAfter e \<Rightarrow> (work, Inl e))"

section \<open>Values and constraints\<close>

text \<open>\<open>TEXT\<close> holds valid UTF-8 without the zero byte, \<open>JSONB\<close> no string with U+0000.\<close>

definition no_nul :: "string \<Rightarrow> bool" where
  "no_nul s \<longleftrightarrow> CHR 0x00 \<notin> set s"

definition pg_text :: "string \<Rightarrow> bool" where
  "pg_text s \<longleftrightarrow> utf8_ok s \<and> no_nul s"

fun json_no_nul :: "json \<Rightarrow> bool" where
  "json_no_nul (JStr s) = no_nul s"
| "json_no_nul (JArr vs) = (\<forall>v \<in> set vs. json_no_nul v)"
| "json_no_nul (JObj ms) = (\<forall>m \<in> set ms. no_nul (fst m) \<and> json_no_nul (snd m))"
| "json_no_nul v = True"

definition jsonb_in :: "string \<Rightarrow> json result" where
  "jsonb_in s =
     (case unmarshal s of
        Some v \<Rightarrow> if json_no_nul v then Inr (jsonb v) else Inl json_error_pg
      | None \<Rightarrow> Inl (pg_error ''invalid input syntax for type json'' ''22P02''))"

text \<open>\<open>length(trim(s)) > 0\<close>, where \<open>trim\<close> removes spaces only.\<close>

definition not_blank :: "string \<Rightarrow> bool" where
  "not_blank s \<longleftrightarrow> (\<exists>c \<in> set s. c \<noteq> CHR '' '')"

definition known_status :: "string \<Rightarrow> bool" where
  "known_status s \<longleftrightarrow> s \<in> set [''todo'', ''in_progress'', ''done'']"

definition micros :: "instant \<Rightarrow> instant" where
  "micros t = t div 1000 * 1000"

definition next_value :: "string \<Rightarrow> int64 \<Rightarrow> int64 result" where
  "next_value name n = (if n < 2 ^ 63 - 1 then Inr (n + 1) else Inl (sequence_error name))"

definition project_exists :: "db \<Rightarrow> int64 \<Rightarrow> bool" where
  "project_exists d i \<longleftrightarrow> i \<in> prj_id ` set (projects d)"

definition user_exists :: "db \<Rightarrow> int64 \<Rightarrow> bool" where
  "user_exists d i \<longleftrightarrow> i \<in> usr_id ` set (users d)"

section \<open>Inserts of the API\<close>

definition insert_user :: "instant \<Rightarrow> string \<Rightarrow> string \<Rightarrow> db \<Rightarrow> db \<times> user_row result" where
  "insert_user now name email d =
     (if \<not> pg_text name \<or> \<not> pg_text email then (d, Inl encoding_error)
      else case next_value ''users_id_seq'' (users_seq d) of
        Inl e \<Rightarrow> (d, Inl e)
      | Inr i \<Rightarrow>
          (let d = d\<lparr>users_seq := i\<rparr>;
               row = \<lparr>usr_id = i, usr_name = name, usr_email = email, usr_created = now\<rparr>
           in if \<not> not_blank email then (d, Inl (check_error ''users'' ''users_email_check''))
              else if \<not> not_blank name then (d, Inl (check_error ''users'' ''users_name_check''))
              else if i \<in> usr_id ` set (users d) then (d, Inl (unique_error ''users_pkey''))
              else if email \<in> usr_email ` set (users d) then (d, Inl (unique_error ''users_email_key''))
              else (d\<lparr>users := users d @ [row]\<rparr>, Inr row)))"

definition insert_project :: "instant \<Rightarrow> string \<Rightarrow> string \<Rightarrow> db \<Rightarrow> db \<times> project_row result" where
  "insert_project now name desc d =
     (if \<not> pg_text name \<or> \<not> pg_text desc then (d, Inl encoding_error)
      else case next_value ''projects_id_seq'' (projects_seq d) of
        Inl e \<Rightarrow> (d, Inl e)
      | Inr i \<Rightarrow>
          (let d = d\<lparr>projects_seq := i\<rparr>;
               row = \<lparr>prj_id = i, prj_name = name, prj_description = desc, prj_created = now\<rparr>
           in if \<not> not_blank name then (d, Inl (check_error ''projects'' ''projects_name_check''))
              else if i \<in> prj_id ` set (projects d) then (d, Inl (unique_error ''projects_pkey''))
              else (d\<lparr>projects := projects d @ [row]\<rparr>, Inr row)))"

text \<open>A task row joined with the name of its assignee, \<open>''''\<close> without one.\<close>

definition user_name :: "db \<Rightarrow> int64 option \<Rightarrow> string" where
  "user_name d a =
     (case a of None \<Rightarrow> []
      | Some i \<Rightarrow> (case List.find (\<lambda>u. usr_id u = i) (users d) of None \<Rightarrow> [] | Some u \<Rightarrow> usr_name u))"

definition joined :: "db \<Rightarrow> task_row \<Rightarrow> task" where
  "joined d r =
     \<lparr>task_id = tsk_id r, project_id = tsk_project r, assignee_id = tsk_assignee r,
      assignee_name = user_name d (tsk_assignee r), title = tsk_title r,
      description = tsk_description r, status = tsk_status r, version = tsk_version r,
      created_at = tsk_created r, updated_at = tsk_updated r\<rparr>"

definition insert_task ::
    "instant \<Rightarrow> int64 \<Rightarrow> int64 option \<Rightarrow> string \<Rightarrow> string \<Rightarrow> string \<Rightarrow> db \<Rightarrow> db \<times> task result" where
  "insert_task now pid assignee titl desc st d =
     (if \<not> (pg_text titl \<and> pg_text desc \<and> pg_text st) then (d, Inl encoding_error)
      else case next_value ''tasks_id_seq'' (tasks_seq d) of
        Inl e \<Rightarrow> (d, Inl e)
      | Inr i \<Rightarrow>
          (let d = d\<lparr>tasks_seq := i\<rparr>;
               row = \<lparr>tsk_id = i, tsk_project = pid, tsk_assignee = assignee, tsk_title = titl,
                      tsk_description = desc, tsk_status = st, tsk_version = 1,
                      tsk_created = now, tsk_updated = now\<rparr>
           in if \<not> known_status st then (d, Inl (check_error ''tasks'' ''tasks_status_check''))
              else if \<not> not_blank titl then (d, Inl (check_error ''tasks'' ''tasks_title_check''))
              else if i \<in> tsk_id ` set (tasks d) then (d, Inl (unique_error ''tasks_pkey''))
              else if \<not> project_exists d pid then (d, Inl (reference_error ''tasks'' ''tasks_project_id_fkey''))
              else if (case assignee of None \<Rightarrow> False | Some a \<Rightarrow> \<not> user_exists d a)
                then (d, Inl (reference_error ''tasks'' ''tasks_assignee_id_fkey''))
              else (d\<lparr>tasks := tasks d @ [row]\<rparr>, Inr (joined d row))))"

section \<open>Changing the status of a task\<close>

definition bump :: "instant \<Rightarrow> string \<Rightarrow> task_row \<Rightarrow> task_row" where
  "bump now st r = r\<lparr>tsk_status := st, tsk_version := tsk_version r + 1, tsk_updated := now\<rparr>"

text \<open>The IDs are a primary key, so at most one row is updated; \<open>None\<close> is the driver's \<open>ErrNoRows\<close>.\<close>

definition update_status :: "instant \<Rightarrow> string \<Rightarrow> int64 \<Rightarrow> db \<Rightarrow> db \<times> task option result" where
  "update_status now st i d =
     (if \<not> pg_text st then (d, Inl encoding_error)
      else case List.find (\<lambda>r. tsk_id r = i) (tasks d) of
        None \<Rightarrow> (d, Inr None)
      | Some r \<Rightarrow>
          if 2 ^ 63 - 1 \<le> tsk_version r then (d, Inl range_error)
          else if \<not> known_status st then (d, Inl (check_error ''tasks'' ''tasks_status_check''))
          else (d\<lparr>tasks := map (\<lambda>r. if tsk_id r = i then bump now st r else r) (tasks d)\<rparr>,
                Inr (Some (joined d (bump now st r)))))"

section \<open>The outbox insert\<close>

definition new_outbox_row :: "instant \<Rightarrow> int64 \<Rightarrow> json \<Rightarrow> envelope \<Rightarrow> outbox_row" where
  "new_outbox_row now i v e =
     \<lparr>sequence_no = i, ob_event_id = event_id e, ob_project = event_project e,
      aggregate_id = event_task_id e, aggregate_version = task_version e,
      ob_event_type = event_type e, payload = v, ob_occurred_at = micros (occurred_at e),
      published_at = None, attempt_count = 0, next_attempt_at = now, claimed_by = None,
      claim_until = None, last_error = None, dead_at = None\<rparr>"

definition insert_outbox :: "instant \<Rightarrow> envelope \<Rightarrow> db \<Rightarrow> db \<times> unit result" where
  "insert_outbox now e d =
     (case encode_event e of
        None \<Rightarrow> (d, Inl ''encode outbox event: json: error calling MarshalJSON'')
      | Some p \<Rightarrow>
          let wrap = (\<lambda>msg. Inl (''insert outbox event: '' @ msg)) in
          if \<not> pg_text (event_id e) \<or> \<not> pg_text (event_type e) then (d, wrap encoding_error)
          else case jsonb_in p of
            Inl msg \<Rightarrow> (d, wrap msg)
          | Inr v \<Rightarrow>
          (case next_value ''outbox_events_sequence_seq'' (outbox_seq d) of
            Inl msg \<Rightarrow> (d, wrap msg)
          | Inr i \<Rightarrow>
             (let d = d\<lparr>outbox_seq := i\<rparr>; row = new_outbox_row now i v e
              in if task_version e \<le> 0
                   then (d, wrap (check_error ''outbox_events'' ''outbox_events_aggregate_version_check''))
                 else if i \<in> sequence_no ` set (outbox d) then (d, wrap (unique_error ''outbox_events_pkey''))
                 else if event_id e \<in> ob_event_id ` set (outbox d)
                   then (d, wrap (unique_error ''outbox_events_event_id_key''))
                 else if \<not> project_exists d (event_project e)
                   then (d, wrap (reference_error ''outbox_events'' ''outbox_events_project_id_fkey''))
                 else (d\<lparr>outbox := outbox d @ [row]\<rparr>, Inr ()))))"

section \<open>Queries\<close>

text \<open>\<open>collate\<close> is the sort key the database's collation gives a text; rows with equal keys come in
  table order.\<close>

definition select_users :: "(string \<Rightarrow> nat list) \<Rightarrow> db \<Rightarrow> user_row list" where
  "select_users collate d = sort_key (\<lambda>u. collate (usr_name u)) (users d)"

definition select_projects :: "db \<Rightarrow> (project_row \<times> int64) list" where
  "select_projects d =
     map (\<lambda>p. (p, int (length (filter (\<lambda>t. tsk_project t = prj_id p) (tasks d)))))
       (sort_key (\<lambda>p. - prj_created p) (projects d))"

definition select_tasks :: "int64 \<Rightarrow> db \<Rightarrow> task list" where
  "select_tasks pid d =
     map (joined d) (sort_key tsk_created (filter (\<lambda>t. tsk_project t = pid) (tasks d)))"

section \<open>What the schema guarantees\<close>

definition ids_ok :: "int64 list \<Rightarrow> int64 \<Rightarrow> bool" where
  "ids_ok is n \<longleftrightarrow> distinct is \<and> (\<forall>i \<in> set is. 1 \<le> i \<and> i \<le> n) \<and> 0 \<le> n \<and> n < 2 ^ 63"

lemma ids_ok_grow: "ids_ok is n \<Longrightarrow> n \<le> m \<Longrightarrow> m < 2 ^ 63 \<Longrightarrow> ids_ok is m"
  by (force simp: ids_ok_def)

lemma ids_ok_snoc: "ids_ok is n \<Longrightarrow> n + 1 < 2 ^ 63 \<Longrightarrow> ids_ok (is @ [n + 1]) (n + 1)"
  by (force simp: ids_ok_def)

lemma ids_ok_fresh: "ids_ok (map f rs) n \<Longrightarrow> n + 1 \<notin> f ` set rs"
  by (force simp: ids_ok_def)

definition users_ok :: "db \<Rightarrow> bool" where
  "users_ok d \<longleftrightarrow>
     ids_ok (map usr_id (users d)) (users_seq d) \<and> distinct (map usr_email (users d))
     \<and> (\<forall>u \<in> set (users d). not_blank (usr_name u) \<and> not_blank (usr_email u) \<and> pg_text (usr_name u) \<and> pg_text (usr_email u))"

definition projects_ok :: "db \<Rightarrow> bool" where
  "projects_ok d \<longleftrightarrow>
     ids_ok (map prj_id (projects d)) (projects_seq d) \<and> (\<forall>p \<in> set (projects d). not_blank (prj_name p) \<and> pg_text (prj_name p) \<and> pg_text (prj_description p))"

definition task_row_ok :: "db \<Rightarrow> task_row \<Rightarrow> bool" where
  "task_row_ok d t \<longleftrightarrow>
     not_blank (tsk_title t) \<and> pg_text (tsk_title t) \<and> pg_text (tsk_description t)
     \<and> known_status (tsk_status t) \<and> 1 \<le> tsk_version t \<and> tsk_version t < 2 ^ 63
     \<and> project_exists d (tsk_project t)
     \<and> (case tsk_assignee t of None \<Rightarrow> True | Some a \<Rightarrow> user_exists d a)"

definition tasks_ok :: "db \<Rightarrow> bool" where
  "tasks_ok d \<longleftrightarrow>
     ids_ok (map tsk_id (tasks d)) (tasks_seq d) \<and> (\<forall>t \<in> set (tasks d). task_row_ok d t)"

definition outbox_ok :: "db \<Rightarrow> bool" where
  "outbox_ok d \<longleftrightarrow>
     ids_ok (map sequence_no (outbox d)) (outbox_seq d) \<and> distinct (map ob_event_id (outbox d))
     \<and> (\<forall>r \<in> set (outbox d). 1 \<le> aggregate_version r \<and> project_exists d (ob_project r))"

definition db_ok :: "db \<Rightarrow> bool" where
  "db_ok d \<longleftrightarrow> users_ok d \<and> projects_ok d \<and> tasks_ok d \<and> outbox_ok d"

lemmas db_ok_defs = db_ok_def users_ok_def projects_ok_def tasks_ok_def outbox_ok_def

lemma task_row_ok_mono:
  assumes "task_row_ok d t" and "set (map prj_id (projects d)) \<subseteq> set (map prj_id (projects e))"
    and "set (map usr_id (users d)) \<subseteq> set (map usr_id (users e))"
  shows "task_row_ok e t"
  using assms by (auto simp: task_row_ok_def project_exists_def user_exists_def split: option.splits)

lemma next_value_Inr: "next_value name n = Inr i \<longleftrightarrow> i = n + 1 \<and> n + 1 < 2 ^ 63"
  by (auto simp: next_value_def)

text \<open>Every statement leaves the database within the constraints and never lowers a sequence.\<close>

definition seqs_le :: "db \<Rightarrow> db \<Rightarrow> bool" where
  "seqs_le d e \<longleftrightarrow> users_seq d \<le> users_seq e \<and> projects_seq d \<le> projects_seq e
     \<and> tasks_seq d \<le> tasks_seq e \<and> outbox_seq d \<le> outbox_seq e"

lemma seqs_le_refl [simp]: "seqs_le d d"
  by (simp add: seqs_le_def)

lemma seqs_le_trans: "seqs_le d e \<Longrightarrow> seqs_le e f \<Longrightarrow> seqs_le d f"
  by (auto simp: seqs_le_def)

lemma db_ok_seqs:
  assumes "db_ok d" and "db_ok e" and "seqs_le d e"
  shows "db_ok (rolled_back d e)"
  using assms
  by (auto simp: db_ok_defs rolled_back_def seqs_le_def task_row_ok_def project_exists_def user_exists_def
      ids_ok_def intro: order_trans split: option.splits)

lemma db_ok_draw:
  assumes "db_ok d"
  shows "users_seq d + 1 < 2 ^ 63 \<Longrightarrow> db_ok (d\<lparr>users_seq := users_seq d + 1\<rparr>)"
    and "projects_seq d + 1 < 2 ^ 63 \<Longrightarrow> db_ok (d\<lparr>projects_seq := projects_seq d + 1\<rparr>)"
    and "tasks_seq d + 1 < 2 ^ 63 \<Longrightarrow> db_ok (d\<lparr>tasks_seq := tasks_seq d + 1\<rparr>)"
    and "outbox_seq d + 1 < 2 ^ 63 \<Longrightarrow> db_ok (d\<lparr>outbox_seq := outbox_seq d + 1\<rparr>)"
  using assms
  by (auto simp: db_ok_defs ids_ok_def project_exists_def user_exists_def task_row_ok_def split: option.splits)

lemma insert_user_ok [inv_intros]:
  assumes "db_ok d" and "insert_user now name email d = (d', r)"
  shows "db_ok d' \<and> seqs_le d d'"
proof (cases "\<exists>row. r = Inr row")
  case True
  then have d': "d' = d\<lparr>users_seq := users_seq d + 1, users := users d @ [\<lparr>usr_id = users_seq d + 1,
      usr_name = name, usr_email = email, usr_created = now\<rparr>]\<rparr>"
    and new: "not_blank name" "not_blank email" "pg_text name" "pg_text email" "email \<notin> usr_email ` set (users d)"
      "users_seq d + 1 < 2 ^ 63"
    using assms(2) by (auto simp: insert_user_def Let_def next_value_Inr split: if_splits sum.splits)
  have "ids_ok (map usr_id (users d')) (users_seq d')"
    using assms(1) ids_ok_snoc new by (simp add: d' db_ok_defs)
  then have "users_ok d'" using assms(1) new by (auto simp: d' db_ok_defs)
  moreover have "tasks_ok d'"
    using assms(1) task_row_ok_mono [of d _ d'] by (auto simp: db_ok_defs d')
  moreover have "projects_ok d'" "outbox_ok d'"
    using assms(1) by (auto simp: db_ok_defs d' project_exists_def)
  ultimately show ?thesis by (simp add: db_ok_def seqs_le_def d')
next
  case False
  then have "d' = d \<or> d' = d\<lparr>users_seq := users_seq d + 1\<rparr> \<and> users_seq d + 1 < 2 ^ 63"
    using assms(2) by (auto simp: insert_user_def Let_def next_value_Inr split: if_splits sum.splits)
  then show ?thesis using db_ok_draw [OF assms(1)] assms(1) by (auto simp: seqs_le_def)
qed

lemma insert_project_ok [inv_intros]:
  assumes "db_ok d" and "insert_project now name desc d = (d', r)"
  shows "db_ok d' \<and> seqs_le d d'"
proof (cases "\<exists>row. r = Inr row")
  case True
  then have d': "d' = d\<lparr>projects_seq := projects_seq d + 1, projects := projects d @ [\<lparr>prj_id = projects_seq d + 1,
      prj_name = name, prj_description = desc, prj_created = now\<rparr>]\<rparr>"
    and new: "not_blank name" "pg_text name" "pg_text desc" "projects_seq d + 1 < 2 ^ 63"
    using assms(2) by (auto simp: insert_project_def Let_def next_value_Inr split: if_splits sum.splits)
  have "ids_ok (map prj_id (projects d')) (projects_seq d')"
    using assms(1) ids_ok_snoc new by (simp add: d' db_ok_defs)
  then have "projects_ok d'" using assms(1) new by (auto simp: d' db_ok_defs)
  moreover have "tasks_ok d'"
    using assms(1) task_row_ok_mono [of d _ d'] by (auto simp: db_ok_defs d')
  moreover have "users_ok d'" "outbox_ok d'"
    using assms(1) by (auto simp: db_ok_defs d' project_exists_def)
  ultimately show ?thesis by (simp add: db_ok_def seqs_le_def d')
next
  case False
  then have "d' = d \<or> d' = d\<lparr>projects_seq := projects_seq d + 1\<rparr> \<and> projects_seq d + 1 < 2 ^ 63"
    using assms(2) by (auto simp: insert_project_def Let_def next_value_Inr split: if_splits sum.splits)
  then show ?thesis using db_ok_draw [OF assms(1)] assms(1) by (auto simp: seqs_le_def)
qed

text \<open>The task inserted by a successful insert, and the database after it.\<close>

definition fresh_task :: "instant \<Rightarrow> int64 \<Rightarrow> int64 option \<Rightarrow> string \<Rightarrow> string \<Rightarrow> string \<Rightarrow> db \<Rightarrow> task_row" where
  "fresh_task now pid assignee titl desc st d =
     \<lparr>tsk_id = tasks_seq d + 1, tsk_project = pid, tsk_assignee = assignee, tsk_title = titl,
      tsk_description = desc, tsk_status = st, tsk_version = 1, tsk_created = now, tsk_updated = now\<rparr>"

lemma joined_cong: "users d = users e \<Longrightarrow> joined d r = joined e r"
  by (auto simp: joined_def user_name_def split: option.split)

lemma insert_task_cases:
  assumes "insert_task now pid assignee titl desc st d = (d', r)"
  obtains (failed) e where "r = Inl e"
      "d' = d \<or> d' = d\<lparr>tasks_seq := tasks_seq d + 1\<rparr> \<and> tasks_seq d + 1 < 2 ^ 63"
  | (inserted) "r = Inr (joined d (fresh_task now pid assignee titl desc st d))"
      "d' = d\<lparr>tasks_seq := tasks_seq d + 1, tasks := tasks d @ [fresh_task now pid assignee titl desc st d]\<rparr>"
      "tasks_seq d + 1 < 2 ^ 63" "known_status st" "not_blank titl" "project_exists d pid"
      "case assignee of None \<Rightarrow> True | Some a \<Rightarrow> user_exists d a"
      "pg_text titl" "pg_text desc" "pg_text st"
proof (cases r)
  case (Inl e)
  then have "d' = d \<or> d' = d\<lparr>tasks_seq := tasks_seq d + 1\<rparr> \<and> tasks_seq d + 1 < 2 ^ 63"
    using assms by (auto simp: insert_task_def Let_def next_value_Inr split: if_splits sum.splits)
  with Inl failed show thesis by blast
next
  case (Inr t)
  with assms have
    "t = joined d (fresh_task now pid assignee titl desc st d)
     \<and> d' = d\<lparr>tasks_seq := tasks_seq d + 1, tasks := tasks d @ [fresh_task now pid assignee titl desc st d]\<rparr>
     \<and> tasks_seq d + 1 < 2 ^ 63 \<and> known_status st \<and> not_blank titl \<and> project_exists d pid
     \<and> (case assignee of None \<Rightarrow> True | Some a \<Rightarrow> user_exists d a) \<and> pg_text titl \<and> pg_text desc \<and> pg_text st"
    by (auto simp: insert_task_def Let_def next_value_Inr fresh_task_def project_exists_def user_exists_def
        intro: joined_cong split: if_splits sum.splits option.splits)
  with Inr inserted show thesis by blast
qed

lemma insert_task_ok [inv_intros]:
  assumes "db_ok d" and "insert_task now pid assignee titl desc st d = (d', r)"
  shows "db_ok d' \<and> seqs_le d d'"
  using assms(2)
proof (cases rule: insert_task_cases)
  case failed
  then show ?thesis using db_ok_draw [OF assms(1)] assms(1) by (auto simp: seqs_le_def)
next
  case inserted
  have "ids_ok (map tsk_id (tasks d')) (tasks_seq d')"
    using assms(1) ids_ok_snoc inserted(3) by (simp add: inserted(2) db_ok_defs fresh_task_def)
  moreover have "task_row_ok d' t" if "t \<in> set (tasks d)" for t
    by (rule task_row_ok_mono [of d]) (use assms(1) that in \<open>auto simp: db_ok_defs inserted(2)\<close>)
  moreover have "task_row_ok d' (fresh_task now pid assignee titl desc st d)"
    using inserted(4-9)
    by (auto simp: task_row_ok_def fresh_task_def inserted(2) project_exists_def user_exists_def split: option.splits)
  ultimately have "tasks_ok d'" by (auto simp: tasks_ok_def inserted(2))
  moreover have "users_ok d'" "projects_ok d'" "outbox_ok d'"
    using assms(1) by (auto simp: db_ok_defs inserted(2) project_exists_def)
  ultimately show ?thesis by (simp add: db_ok_def seqs_le_def inserted(2))
qed

lemma find_row: "List.find P xs = Some x \<Longrightarrow> x \<in> set xs \<and> P x"
  by (auto simp: find_Some_iff)

lemma update_status_cases:
  assumes "update_status now st i d = (d', r)"
  obtains (failed) e where "r = Inl e" "d' = d"
  | (missing) "r = Inr None" "d' = d" "\<forall>t \<in> set (tasks d). tsk_id t \<noteq> i"
  | (updated) t where "t \<in> set (tasks d)" "tsk_id t = i" "r = Inr (Some (joined d (bump now st t)))"
      "d' = d\<lparr>tasks := map (\<lambda>t. if tsk_id t = i then bump now st t else t) (tasks d)\<rparr>"
      "tsk_version t < 2 ^ 63 - 1" "known_status st" "pg_text st"
proof (cases "pg_text st")
  case False
  with assms failed show thesis by (auto simp: update_status_def)
next
  case valid: True
  show thesis
  proof (cases "List.find (\<lambda>t. tsk_id t = i) (tasks d)")
    case None
    with assms valid missing show thesis by (auto simp: update_status_def find_None_iff)
  next
    case (Some t)
    with find_row [OF this] assms valid failed updated [of t] show thesis
      by (auto simp: update_status_def split: if_splits)
  qed
qed

lemma update_status_ok [inv_intros]:
  assumes "db_ok d" and "update_status now st i d = (d', r)"
  shows "db_ok d' \<and> seqs_le d d'"
  using assms(2)
proof (cases rule: update_status_cases)
  case (updated t)
  have only: "tsk_version s < 2 ^ 63 - 1" if "s \<in> set (tasks d)" "tsk_id s = i" for s
    using assms(1) updated(1,2,5) that by (auto simp: db_ok_defs ids_ok_def distinct_map dest: inj_onD)
  have "map tsk_id (tasks d') = map tsk_id (tasks d)"
    by (simp add: updated(4) bump_def)
  moreover have "task_row_ok d' s" if "s \<in> set (tasks d')" for s
  proof -
    have "s \<in> (\<lambda>t. if tsk_id t = i then bump now st t else t) ` set (tasks d)"
      using that by (simp add: updated(4))
    then obtain s0 where s0: "s0 \<in> set (tasks d)" "s = (if tsk_id s0 = i then bump now st s0 else s0)"
      by blast
    then have "task_row_ok d s0" using assms(1) by (auto simp: db_ok_defs)
    then show ?thesis
      using s0 only [OF s0(1)] updated(6)
      by (auto simp: task_row_ok_def bump_def updated(4) project_exists_def user_exists_def split: option.splits)
  qed
  moreover have "tasks_seq d' = tasks_seq d" by (simp add: updated(4))
  ultimately have "tasks_ok d'" using assms(1) unfolding db_ok_def tasks_ok_def by simp
  moreover have "users_ok d'" "projects_ok d'" "outbox_ok d'"
    using assms(1) by (auto simp: db_ok_defs updated(4) project_exists_def)
  ultimately show ?thesis by (simp add: db_ok_def seqs_le_def updated(4))
qed (use assms(1) in auto)

lemma insert_outbox_cases:
  assumes "insert_outbox now e d = (d', r)"
  obtains (failed) msg where "r = Inl msg"
      "d' = d \<or> d' = d\<lparr>outbox_seq := outbox_seq d + 1\<rparr> \<and> outbox_seq d + 1 < 2 ^ 63"
  | (inserted) p v where "r = Inr ()" "encode_event e = Some p" "unmarshal p = Some v" "json_no_nul v"
      "d' = d\<lparr>outbox_seq := outbox_seq d + 1, outbox := outbox d @ [new_outbox_row now (outbox_seq d + 1) (jsonb v) e]\<rparr>"
      "outbox_seq d + 1 < 2 ^ 63" "0 < task_version e" "event_id e \<notin> ob_event_id ` set (outbox d)"
      "project_exists d (event_project e)"
proof (cases r)
  case (Inl msg)
  then have "d' = d \<or> d' = d\<lparr>outbox_seq := outbox_seq d + 1\<rparr> \<and> outbox_seq d + 1 < 2 ^ 63"
    using assms
    by (auto simp: insert_outbox_def Let_def next_value_Inr split: if_splits sum.splits option.splits)
  with Inl failed show thesis by blast
next
  case (Inr u)
  with assms obtain p v where "encode_event e = Some p" "unmarshal p = Some v \<and> json_no_nul v"
    and "d' = d\<lparr>outbox_seq := outbox_seq d + 1, outbox := outbox d @ [new_outbox_row now (outbox_seq d + 1) (jsonb v) e]\<rparr>
      \<and> outbox_seq d + 1 < 2 ^ 63 \<and> 0 < task_version e \<and> event_id e \<notin> ob_event_id ` set (outbox d)
      \<and> project_exists d (event_project e)"
    by (auto simp: insert_outbox_def jsonb_in_def Let_def next_value_Inr project_exists_def
        split: if_splits sum.splits option.splits)
  with Inr inserted show thesis by simp
qed

lemma insert_outbox_ok [inv_intros]:
  assumes "db_ok d" and "insert_outbox now e d = (d', r)"
  shows "db_ok d' \<and> seqs_le d d'"
  using assms(2)
proof (cases rule: insert_outbox_cases)
  case failed
  then show ?thesis using db_ok_draw [OF assms(1)] assms(1) by (auto simp: seqs_le_def)
next
  case (inserted p v)
  have "ids_ok (map sequence_no (outbox d')) (outbox_seq d')"
    using assms(1) ids_ok_snoc inserted(6) by (simp add: inserted(5) db_ok_defs new_outbox_row_def)
  then have "outbox_ok d'"
    using assms(1) inserted(7-9) by (auto simp: db_ok_defs inserted(5) new_outbox_row_def project_exists_def)
  moreover have "users_ok d'" "projects_ok d'"
    using assms(1) by (auto simp: db_ok_defs inserted(5))
  moreover have "tasks_ok d'"
    using assms(1) task_row_ok_mono [of d _ d'] by (auto simp: db_ok_defs inserted(5))
  ultimately show ?thesis by (simp add: db_ok_def seqs_le_def inserted(5))
qed

lemma run_stmt_ok:
  assumes "run_stmt f stmt d = (d', r)" and "db_ok d"
    and "\<And>d' r. stmt d = (d', r) \<Longrightarrow> db_ok d' \<and> seqs_le d d'"
  shows "db_ok d' \<and> seqs_le d d'"
  using assms by (cases f; cases "stmt d") (auto simp: run_stmt_def)

end
