(* ===== verification/Http.thy ===== *)
theory Http
  imports Events
begin

text \<open>
  What the four servers share of \<open>net/http\<close> and \<open>log/slog\<close>: requests, replies, log lines, and the
  pattern multiplexer \<open>http.ServeMux\<close> with its methods, wildcards, subtrees, redirects to clean
  paths and "method not allowed" replies. Patterns are the strings the code registers.
\<close>

section \<open>Requests, replies and log lines\<close>

record request =
  req_method :: string
  req_path :: string            \<comment> \<open>the escaped path\<close>
  req_body :: string
  req_authorization :: string   \<comment> \<open>a missing header is the empty string\<close>
  req_request_id :: string

record reply =
  code :: nat
  headers :: "(string \<times> string) list"
  body :: string

datatype level = Debug | Info | Warn | Error

type_synonym log = "level \<times> string"

text \<open>\<open>json.Encoder.Encode\<close>: the value and a newline, or nothing when a time cannot be encoded.\<close>

definition encode_line :: "json option \<Rightarrow> string" where
  "encode_line v = (case v of None \<Rightarrow> [] | Some j \<Rightarrow> marshal j @ [CHR 0x0A])"

definition json_reply :: "string \<Rightarrow> nat \<Rightarrow> json option \<Rightarrow> reply" where
  "json_reply content_type c v =
     \<lparr>code = c, headers = [(''Content-Type'', content_type)], body = encode_line v\<rparr>"

text \<open>\<open>http.Error\<close>.\<close>

definition http_error :: "nat \<Rightarrow> string \<Rightarrow> reply" where
  "http_error c msg =
     \<lparr>code = c,
      headers = [(''Content-Type'', ''text/plain; charset=utf-8''), (''X-Content-Type-Options'', ''nosniff'')],
      body = msg @ [CHR 0x0A]\<rparr>"

section \<open>Paths\<close>

fun clean_segments :: "string list \<Rightarrow> string list \<Rightarrow> string list" where
  "clean_segments done [] = rev done"
| "clean_segments done (s # ss) =
     (if s = [] \<or> s = ''.'' then clean_segments done ss
      else if s = ''..'' then clean_segments (tl done) ss
      else clean_segments (s # done) ss)"

definition clean_path :: "string \<Rightarrow> string" where
  "clean_path p =
     (let segs = clean_segments [] (split_on CHR ''/'' p);
          np = CHR ''/'' # join_on CHR ''/'' segs
      in if p \<noteq> [] \<and> last p = CHR ''/'' \<and> segs \<noteq> [] then np @ ''/'' else np)"

definition hex_digit :: "char \<Rightarrow> nat option" where
  "hex_digit c =
     (let n = (of_char c :: nat) in
      if 48 \<le> n \<and> n \<le> 57 then Some (n - 48)
      else if 65 \<le> n \<and> n \<le> 70 then Some (n - 55)
      else if 97 \<le> n \<and> n \<le> 102 then Some (n - 87) else None)"

fun percent_decode :: "string \<Rightarrow> string option" where
  "percent_decode [] = Some []"
| "percent_decode (c # s) =
     (if c = CHR ''%'' then
        (case s of
           a # b # s' \<Rightarrow>
             (case (hex_digit a, hex_digit b) of
                (Some x, Some y) \<Rightarrow> map_option (Cons (char_of (16 * x + y))) (percent_decode s')
              | _ \<Rightarrow> None)
         | _ \<Rightarrow> None)
      else map_option (Cons c) (percent_decode s))"

text \<open>A segment that is not validly escaped is matched as it is.\<close>

definition path_unescape :: "string \<Rightarrow> string" where
  "path_unescape s = (case percent_decode s of None \<Rightarrow> s | Some t \<Rightarrow> t)"

lemma percent_decode_plain: "CHR ''%'' \<notin> set s \<Longrightarrow> percent_decode s = Some s"
  by (induction s) auto

lemma path_unescape_plain [simp]: "CHR ''%'' \<notin> set s \<Longrightarrow> path_unescape s = s"
  by (simp add: path_unescape_def percent_decode_plain)

text \<open>A trailing slash leaves an empty last segment.\<close>

definition path_segments :: "string \<Rightarrow> string list" where
  "path_segments p = map path_unescape (tl (split_on CHR ''/'' p))"

section \<open>Patterns\<close>

datatype seg = Lit string | Wild

record pattern =
  pat_method :: "string option"
  pat_segs :: "seg list"
  pat_subtree :: bool

definition parse_seg :: "string \<Rightarrow> seg" where
  "parse_seg s = (if prefix ''{'' s then Wild else Lit s)"

definition parse_pattern :: "string \<Rightarrow> pattern" where
  "parse_pattern s =
     (let (pre, post, found) = cut_at (CHR '' '') s;
          path = (if found then post else s);
          segs = tl (split_on CHR ''/'' path)
      in \<lparr>pat_method = (if found then Some pre else None),
          pat_segs = map parse_seg (if last segs = [] then butlast segs else segs),
          pat_subtree = (last segs = [])\<rparr>)"

text \<open>The values of the wildcards, when the path matches. A wildcard does not match a lone slash.\<close>

fun match_segs :: "seg list \<Rightarrow> bool \<Rightarrow> string list \<Rightarrow> string list option" where
  "match_segs [] sub [] = (if sub then None else Some [])"
| "match_segs [] sub (x # xs) = (if sub then Some [] else None)"
| "match_segs (g # gs) sub [] = None"
| "match_segs (Lit l # gs) sub (x # xs) = (if x = l then match_segs gs sub xs else None)"
| "match_segs (Wild # gs) sub (x # xs) =
     (if x = [] \<or> x = ''/'' then None else map_option (Cons x) (match_segs gs sub xs))"

definition method_matches :: "string option \<Rightarrow> string \<Rightarrow> bool" where
  "method_matches m meth =
     (case m of None \<Rightarrow> True | Some g \<Rightarrow> meth = g \<or> g = ''GET'' \<and> meth = ''HEAD'')"

type_synonym 'h mux = "(string \<times> 'h) list"

text \<open>The first match is the most specific one: the tables list a pattern before the ones it
  refines.\<close>

fun mux_match :: "'h mux \<Rightarrow> string \<Rightarrow> string list \<Rightarrow> (string \<times> 'h \<times> string list) option" where
  "mux_match [] meth segs = None"
| "mux_match ((s, h) # ps) meth segs =
     (let p = parse_pattern s in
      case (if method_matches (pat_method p) meth then match_segs (pat_segs p) (pat_subtree p) segs else None) of
        Some xs \<Rightarrow> Some (s, h, xs)
      | None \<Rightarrow> mux_match ps meth segs)"

definition path_methods :: "'h mux \<Rightarrow> string list \<Rightarrow> string list" where
  "path_methods ps segs =
     concat (map (\<lambda>(s, h).
       (let p = parse_pattern s in
        case (pat_method p, match_segs (pat_segs p) (pat_subtree p) segs) of
          (Some m, Some xs) \<Rightarrow> if m = ''GET'' then [''GET'', ''HEAD''] else [m]
        | _ \<Rightarrow> [])) ps)"

definition allowed_methods :: "'h mux \<Rightarrow> string list \<Rightarrow> string list" where
  "allowed_methods ps segs = sort_key (map (of_char :: char \<Rightarrow> nat)) (remdups (path_methods ps segs))"

datatype 'h dispatch =
  Handler string 'h "string list"   \<comment> \<open>the pattern, what it is registered for, the wildcards\<close>
| Moved string                      \<comment> \<open>redirect to the clean path, for this pattern\<close>
| NotAllowed "string list"
| NotFound

definition pattern_text :: "(string \<times> 'h \<times> string list) option \<Rightarrow> string" where
  "pattern_text m = (case m of None \<Rightarrow> [] | Some (s, _) \<Rightarrow> s)"

text \<open>
  \<open>ServeMux.findHandler\<close>: a path that only matches with a slash added is redirected there when a
  subtree is registered for exactly that path, then an unclean path to the clean one. A CONNECT
  request keeps its path.
\<close>

definition exact_match :: "string \<Rightarrow> string list \<Rightarrow> bool" where
  "exact_match s segs =
     (let p = parse_pattern s in
      \<not> pat_subtree p \<or> last segs = [] \<and> Suc (length (pat_segs p)) = length segs)"

definition slash_redirect :: "'h mux \<Rightarrow> string \<Rightarrow> string \<Rightarrow> string option" where
  "slash_redirect ps meth p =
     (if p \<noteq> [] \<and> last p = CHR ''/'' then None
      else if (case mux_match ps meth (path_segments p) of None \<Rightarrow> False | Some (s, _) \<Rightarrow> exact_match s (path_segments p))
        then None
      else case mux_match ps meth (path_segments (p @ ''/'')) of
          None \<Rightarrow> None
        | Some (s, _) \<Rightarrow> if exact_match s (path_segments (p @ ''/'')) then Some s else None)"

definition mux_find :: "'h mux \<Rightarrow> string \<Rightarrow> string \<Rightarrow> 'h dispatch" where
  "mux_find ps meth path =
     (let p = (if meth = ''CONNECT'' then path else clean_path path) in
      case slash_redirect ps meth p of
        Some s \<Rightarrow> Moved s
      | None \<Rightarrow>
          let m = mux_match ps meth (path_segments p) in
          if p \<noteq> path then Moved (pattern_text m)
          else case m of
              Some (s, h, xs) \<Rightarrow> Handler s h xs
            | None \<Rightarrow>
                let ms = allowed_methods ps (path_segments p) in
                if ms \<noteq> [] then NotAllowed ms else NotFound)"

text \<open>The replies the multiplexer gives itself; the target and the text of a redirect are left out.\<close>

definition moved_reply :: reply where
  "moved_reply = \<lparr>code = 301, headers = [], body = []\<rparr>"

definition join_methods :: "string list \<Rightarrow> string" where
  "join_methods ms = concat (map (\<lambda>m. m @ '', '') (butlast ms)) @ (if ms = [] then [] else last ms)"

definition not_allowed_reply :: "string list \<Rightarrow> reply" where
  "not_allowed_reply ms =
     (let r = http_error 405 ''Method Not Allowed''
      in r\<lparr>headers := (''Allow'', join_methods ms) # headers r\<rparr>)"

definition not_found_reply :: reply where
  "not_found_reply = http_error 404 ''404 page not found''"

lemma match_segs_lit:
  "match_segs (map Lit ls) False segs = (if segs = ls then Some [] else None)"
proof (induction ls arbitrary: segs)
  case Nil
  then show ?case by (cases segs) auto
next
  case (Cons l ls)
  then show ?case by (cases segs) auto
qed

lemma mux_match_pattern:
  "mux_match ps meth segs = Some (s, h, xs) \<Longrightarrow>
     (s, h) \<in> set ps \<and> method_matches (pat_method (parse_pattern s)) meth
     \<and> match_segs (pat_segs (parse_pattern s)) (pat_subtree (parse_pattern s)) segs = Some xs"
  by (induction ps) (auto simp: Let_def split: if_splits option.splits)

text \<open>A handler is only ever called with a method its pattern allows and a path it matches.\<close>

lemma mux_find_Handler:
  assumes "mux_find ps meth path = Handler s h xs"
  shows "(s, h) \<in> set ps" and "method_matches (pat_method (parse_pattern s)) meth"
    and "match_segs (pat_segs (parse_pattern s)) (pat_subtree (parse_pattern s)) (path_segments path) = Some xs"
  using assms
  by (auto simp: mux_find_def Let_def split: option.splits if_splits dest: mux_match_pattern)

lemma split_on_snoc: "split_on sep (s @ [sep]) = split_on sep s @ [[]]"
  by (induction s) (auto simp: neq_Nil_conv split: list.splits)

lemma path_segments_slash: "path_segments (p @ ''/'') = path_segments p @ [path_unescape []]"
  by (simp add: path_segments_def split_on_snoc)

end
