(* ===== verification/Outbox.thy ===== *)
theory Outbox
  imports Database Http
begin

text \<open>
  \<open>internal/outbox/relay.go\<close>: the relay that moves events from the outbox table to Kafka. A worker
  claims a batch of due rows for a while, publishes each event and marks its row, or records the
  failure and a time for the next attempt; after the last attempt the row is dead. Kafka is the
  list of the records it has accepted; the text PostgreSQL gives for a JSONB value, the trace
  propagator, the clock and every fault are arguments. Metrics are counters of the relay's state;
  spans are left out.
\<close>

section \<open>Data\<close>

record message =
  msg_topic :: string
  msg_key :: string
  msg_value :: string
  msg_headers :: "string \<rightharpoonup> string"

record relay_config =
  worker_id :: string
  batch_size :: int
  poll_every :: duration
  claim_for :: duration
  max_backoff :: duration
  max_attempts :: int

record relay =
  r_config :: relay_config
  backlog :: int64
  published_count :: nat
  failed_count :: nat
  dead_count :: nat

record claimed_event =
  ce_sequence :: int64
  ce_event_id :: string
  ce_project :: int64
  ce_event_type :: string
  ce_payload :: string
  ce_occurred_at :: instant
  ce_attempt_count :: int

text \<open>\<open>New\<close> requires a worker ID and puts defaults for settings that make no sense.\<close>

definition new_relay :: "relay_config \<Rightarrow> relay result" where
  "new_relay c =
     (if worker_id c = [] then Inl ''outbox worker ID is required''
      else Inr
        \<lparr>r_config = \<lparr>worker_id = worker_id c,
           batch_size = (if batch_size c < 1 then 100 else batch_size c),
           poll_every = (if poll_every c \<le> 0 then 250 * millisecond else poll_every c),
           claim_for = (if claim_for c \<le> 0 then 30 * second else claim_for c),
           max_backoff = (if max_backoff c \<le> 0 then minute else max_backoff c),
           max_attempts = (if max_attempts c < 1 then 20 else max_attempts c)\<rparr>,
         backlog = 0, published_count = 0, failed_count = 0, dead_count = 0\<rparr>)"

definition config_ok :: "relay_config \<Rightarrow> bool" where
  "config_ok c \<longleftrightarrow>
     worker_id c \<noteq> [] \<and> 1 \<le> batch_size c \<and> 0 < poll_every c \<and> 0 < claim_for c \<and> 0 < max_backoff c
     \<and> 1 \<le> max_attempts c"

text \<open>One second doubled per attempt, at most 1024 seconds and at most the maximum. The code's
  floating-point powers of two are exact.\<close>

definition retry_delay :: "int \<Rightarrow> duration \<Rightarrow> duration" where
  "retry_delay attempt maximum =
     (let attempt = (if attempt < 1 then 1 else attempt);
          exponent = min (attempt - 1) 10;
          delay = 2 ^ nat exponent * second
      in if maximum < delay then maximum else delay)"

section \<open>Claiming\<close>

definition update_rows :: "(outbox_row \<Rightarrow> bool) \<Rightarrow> (outbox_row \<Rightarrow> outbox_row) \<Rightarrow> db \<Rightarrow> db" where
  "update_rows P f d = d\<lparr>outbox := map (\<lambda>r. if P r then f r else r) (outbox d)\<rparr>"

definition pending :: "outbox_row \<Rightarrow> bool" where
  "pending r \<longleftrightarrow> published_at r = None \<and> dead_at r = None"

definition claimable :: "instant \<Rightarrow> outbox_row \<Rightarrow> bool" where
  "claimable now r \<longleftrightarrow>
     published_at r = None \<and> dead_at r = None \<and> next_attempt_at r \<le> now
     \<and> (case claim_until r of None \<Rightarrow> True | Some t \<Rightarrow> t < now)"

text \<open>\<open>int(ClaimFor.Seconds())\<close>: whole seconds (the conversion through a floating-point number is
  exact for claims of less than 48 days).\<close>

definition claim_seconds :: "relay_config \<Rightarrow> int" where
  "claim_seconds c = claim_for c div second"

text \<open>The first rows that are due, by sequence, without the ones other transactions hold locked.\<close>

definition candidates :: "relay_config \<Rightarrow> instant \<Rightarrow> int64 list \<Rightarrow> db \<Rightarrow> int64 list" where
  "candidates c now locked d =
     take (nat (batch_size c))
       (filter (\<lambda>i. i \<notin> set locked) (map sequence_no (sort_key sequence_no (filter (claimable now) (outbox d)))))"

definition take_claim :: "relay_config \<Rightarrow> instant \<Rightarrow> outbox_row \<Rightarrow> outbox_row" where
  "take_claim c now r =
     r\<lparr>claimed_by := Some (worker_id c), claim_until := Some (now + claim_seconds c * second)\<rparr>"

definition claim_rows :: "relay_config \<Rightarrow> instant \<Rightarrow> int64 list \<Rightarrow> db \<Rightarrow> db" where
  "claim_rows c now locked d =
     update_rows (\<lambda>r. sequence_no r \<in> set (candidates c now locked d)) (take_claim c now) d"

definition claimed_item :: "(json \<Rightarrow> string) \<Rightarrow> outbox_row \<Rightarrow> claimed_event" where
  "claimed_item render r =
     \<lparr>ce_sequence = sequence_no r, ce_event_id = ob_event_id r, ce_project = ob_project r,
      ce_event_type = ob_event_type r, ce_payload = render (payload r), ce_occurred_at = ob_occurred_at r,
      ce_attempt_count = attempt_count r\<rparr>"

text \<open>\<open>RETURNING\<close> gives the updated rows, in the order the server happens to update them: \<open>order\<close>
  is the arrangement it chooses.\<close>

record claim_env =
  cl_now :: instant
  cl_locked :: "int64 list"
  cl_order :: "outbox_row list \<Rightarrow> outbox_row list"
  cl_begin :: "string option"
  cl_query :: "string option"
  cl_scan :: "string option"
  cl_rows :: "string option"
  cl_commit :: fault

definition returned_rows :: "relay_config \<Rightarrow> claim_env \<Rightarrow> db \<Rightarrow> outbox_row list" where
  "returned_rows c ce d =
     cl_order ce (filter (\<lambda>r. sequence_no r \<in> set (candidates c (cl_now ce) (cl_locked ce) d))
       (outbox (claim_rows c (cl_now ce) (cl_locked ce) d)))"

definition claim ::
    "(json \<Rightarrow> string) \<Rightarrow> relay_config \<Rightarrow> claim_env \<Rightarrow> db \<Rightarrow> db \<times> claimed_event list result" where
  "claim render c ce d =
     (case cl_begin ce of
        Some err \<Rightarrow> (d, Inl (''begin outbox claim: '' @ err))
      | None \<Rightarrow>
     (case cl_query ce of
        Some err \<Rightarrow> (d, Inl (''claim outbox events: '' @ err))
      | None \<Rightarrow>
          let work = claim_rows c (cl_now ce) (cl_locked ce) d;
              batch = map (claimed_item render) (returned_rows c ce d) in
          (case (if batch = [] then None else cl_scan ce) of
             Some err \<Rightarrow> (rolled_back d work, Inl (''scan claimed outbox event: '' @ err))
           | None \<Rightarrow>
          (case cl_rows ce of
             Some err \<Rightarrow> (rolled_back d work, Inl (''read claimed outbox events: '' @ err))
           | None \<Rightarrow>
          (case commit (cl_commit ce) d work of
             (d', Inl err) \<Rightarrow> (d', Inl (''commit outbox claim: '' @ err))
           | (d', Inr _) \<Rightarrow> (d', Inr batch))))))"

section \<open>The two updates of a claimed row\<close>

definition owned :: "string \<Rightarrow> int64 \<Rightarrow> outbox_row \<Rightarrow> bool" where
  "owned wid i r \<longleftrightarrow> sequence_no r = i \<and> claimed_by r = Some wid \<and> published_at r = None"

definition affected :: "(outbox_row \<Rightarrow> bool) \<Rightarrow> db \<Rightarrow> nat" where
  "affected P d = length (filter P (outbox d))"

definition set_published :: "instant \<Rightarrow> outbox_row \<Rightarrow> outbox_row" where
  "set_published now r =
     r\<lparr>published_at := Some now, claimed_by := None, claim_until := None, last_error := None\<rparr>"

definition mark_published :: "instant \<Rightarrow> string \<Rightarrow> int64 \<Rightarrow> db \<Rightarrow> db \<times> nat result" where
  "mark_published now wid i d =
     (update_rows (owned wid i) (set_published now) d, Inr (affected (owned wid i) d))"

text \<open>\<open>left(s, n)\<close> counts characters, not bytes.\<close>

fun left_chars :: "nat \<Rightarrow> string \<Rightarrow> string" where
  "left_chars 0 s = []"
| "left_chars (Suc n) s =
     (if s = [] then [] else let k = max 1 (rune_size s) in take k s @ left_chars n (drop k s))"

definition set_failed :: "instant \<Rightarrow> instant \<Rightarrow> string \<Rightarrow> bool \<Rightarrow> outbox_row \<Rightarrow> outbox_row" where
  "set_failed now next cause dead r =
     r\<lparr>attempt_count := attempt_count r + 1, next_attempt_at := micros next, claimed_by := None,
       claim_until := None, last_error := Some (left_chars 2000 cause),
       dead_at := (if dead then Some now else dead_at r)\<rparr>"

definition integer_error :: string where
  "integer_error = pg_error ''integer out of range'' ''22003''"

definition record_failure ::
    "instant \<Rightarrow> string \<Rightarrow> int64 \<Rightarrow> instant \<Rightarrow> string \<Rightarrow> bool \<Rightarrow> db \<Rightarrow> db \<times> nat result" where
  "record_failure now wid i next cause dead d =
     (if \<not> pg_text cause then (d, Inl encoding_error)
      else if \<exists>r \<in> set (outbox d). owned wid i r \<and> 2 ^ 31 - 1 \<le> attempt_count r then (d, Inl integer_error)
      else (update_rows (owned wid i) (set_failed now next cause dead) d, Inr (affected (owned wid i) d)))"

section \<open>Publishing\<close>

text \<open>What a call of the publisher comes to: the broker may have kept a record although the call
  reported an error.\<close>

datatype publish_outcome = Accepted | Refused string | AcceptedUnknown string

record item_env =
  it_inject :: "(string \<rightharpoonup> string) \<Rightarrow> (string \<rightharpoonup> string)"  \<comment> \<open>what the propagator adds for this carrier\<close>
  it_explain :: "json_error \<Rightarrow> string"
  it_publish :: publish_outcome
  it_now :: instant      \<comment> \<open>the database's clock at the update\<close>
  it_clock :: instant    \<comment> \<open>the worker's clock at the failure\<close>
  it_mark :: fault
  it_fail :: fault

record system =
  sys_db :: db
  sys_kafka :: "message list"
  sys_relay :: relay
  sys_log :: "log list"

definition log_line :: "level \<Rightarrow> string \<Rightarrow> system \<Rightarrow> system" where
  "log_line l msg s = s\<lparr>sys_log := sys_log s @ [(l, msg)]\<rparr>"

definition decode_error_text :: "(json_error \<Rightarrow> string) \<Rightarrow> decode_error \<Rightarrow> string" where
  "decode_error_text explain err =
     (case err of
        DecodeError e \<Rightarrow> ''decode board event: '' @ explain e
      | InvalidEnvelope \<Rightarrow> ''invalid board event envelope'')"

definition event_carrier :: "envelope \<Rightarrow> (string \<rightharpoonup> string)" where
  "event_carrier ev =
     (let c = (if trace_parent ev \<noteq> [] then [''traceparent'' \<mapsto> trace_parent ev] else Map.empty)
      in if trace_state ev \<noteq> [] then c(''tracestate'' \<mapsto> trace_state ev) else c)"

definition message_for :: "item_env \<Rightarrow> claimed_event \<Rightarrow> envelope \<Rightarrow> message" where
  "message_for ie item ev =
     \<lparr>msg_topic = topic, msg_key = format_int 10 (event_project ev), msg_value = ce_payload item,
      msg_headers = [''event_id'' \<mapsto> event_id ev, ''event_type'' \<mapsto> event_type ev]
        ++ it_inject ie (event_carrier ev)\<rparr>"

definition broker :: "publish_outcome \<Rightarrow> message \<Rightarrow> message list \<Rightarrow> message list \<times> string option" where
  "broker out m log =
     (case out of Accepted \<Rightarrow> (log @ [m], None) | Refused err \<Rightarrow> (log, Some err)
      | AcceptedUnknown err \<Rightarrow> (log @ [m], Some err))"

definition count_failure :: "bool \<Rightarrow> relay \<Rightarrow> relay" where
  "count_failure dead r =
     r\<lparr>failed_count := failed_count r + 1, dead_count := (if dead then dead_count r + 1 else dead_count r)\<rparr>"

definition relay_fail :: "item_env \<Rightarrow> claimed_event \<Rightarrow> string \<Rightarrow> system \<Rightarrow> system \<times> string option" where
  "relay_fail ie item cause s =
     (let c = r_config (sys_relay s);
          attempt = ce_attempt_count item + 1;
          delay = retry_delay attempt (max_backoff c);
          dead = (max_attempts c \<le> attempt)
      in case run_stmt (it_fail ie)
            (record_failure (it_now ie) (worker_id c) (ce_sequence item) (it_clock ie + delay) cause dead) (sys_db s) of
        (d, upd) \<Rightarrow>
          let s1 = s\<lparr>sys_db := d, sys_relay := count_failure dead (sys_relay s)\<rparr>;
              s2 = (if dead then log_line Error ''outbox event moved to dead-letter state'' s1 else s1)
          in (s2, Some (case upd of
                Inl err \<Rightarrow> cause @ [CHR 0x0A] @ ''record outbox failure: '' @ err
              | Inr n \<Rightarrow> cause)))"

definition publish_one :: "item_env \<Rightarrow> claimed_event \<Rightarrow> system \<Rightarrow> system \<times> string option" where
  "publish_one ie item s =
     (case decode_event (ce_payload item) of
        Inl err \<Rightarrow> relay_fail ie item (decode_error_text (it_explain ie) err) s
      | Inr ev \<Rightarrow>
     (case broker (it_publish ie) (message_for ie item ev) (sys_kafka s) of
        (kafka, Some err) \<Rightarrow> relay_fail ie item err (s\<lparr>sys_kafka := kafka\<rparr>)
      | (kafka, None) \<Rightarrow>
     (case run_stmt (it_mark ie)
             (mark_published (it_now ie) (worker_id (r_config (sys_relay s))) (ce_sequence item)) (sys_db s) of
        (d, Inl err) \<Rightarrow> (s\<lparr>sys_kafka := kafka, sys_db := d\<rparr>, Some (''mark outbox event published: '' @ err))
      | (d, Inr n) \<Rightarrow>
          let s1 = s\<lparr>sys_kafka := kafka, sys_db := d\<rparr> in
          if n \<noteq> 1 then (s1, Some ''outbox publication claim was lost'')
          else (log_line Info ''outbox event published''
                  (s1\<lparr>sys_relay := (sys_relay s)\<lparr>published_count := published_count (sys_relay s) + 1\<rparr>\<rparr>), None))))"

section \<open>Batches\<close>

definition relay_pending :: "string option \<Rightarrow> system \<Rightarrow> system \<times> int64 result" where
  "relay_pending f s =
     (case f of
        Some err \<Rightarrow> (s, Inl err)
      | None \<Rightarrow>
          let n = int (affected pending (sys_db s))
          in (s\<lparr>sys_relay := (sys_relay s)\<lparr>backlog := n\<rparr>\<rparr>, Inr n))"

fun publish_all :: "(nat \<Rightarrow> item_env) \<Rightarrow> nat \<Rightarrow> claimed_event list \<Rightarrow> system \<Rightarrow> system" where
  "publish_all ies k [] s = s"
| "publish_all ies k (item # items) s =
     (case publish_one (ies k) item s of
        (s', None) \<Rightarrow> publish_all ies (Suc k) items s'
      | (s', Some err) \<Rightarrow> publish_all ies (Suc k) items (log_line Warn ''outbox event publish failed'' s'))"

record batch_env =
  be_claim :: claim_env
  be_items :: "nat \<Rightarrow> item_env"
  be_pending :: "string option"
  be_canceled :: bool   \<comment> \<open>whether the error of the batch is \<open>context.Canceled\<close>\<close>

definition error_of :: "'a result \<Rightarrow> string option" where
  "error_of r = (case r of Inl err \<Rightarrow> Some err | Inr _ \<Rightarrow> None)"

definition run_batch :: "(json \<Rightarrow> string) \<Rightarrow> batch_env \<Rightarrow> system \<Rightarrow> system \<times> string option" where
  "run_batch render be s =
     (case claim render (r_config (sys_relay s)) (be_claim be) (sys_db s) of
        (d, Inl err) \<Rightarrow> (s\<lparr>sys_db := d\<rparr>, Some err)
      | (d, Inr batch) \<Rightarrow>
          (case relay_pending (be_pending be) (publish_all (be_items be) 0 batch (s\<lparr>sys_db := d\<rparr>)) of
             (s', r) \<Rightarrow> (s', error_of r)))"

text \<open>\<open>Run\<close>, one batch per tick, until the context is done.\<close>

fun relay_run :: "(json \<Rightarrow> string) \<Rightarrow> batch_env list \<Rightarrow> system \<Rightarrow> system \<times> string" where
  "relay_run render [] s = (s, ''context canceled'')"
| "relay_run render (be # bes) s =
     (case run_batch render be s of
        (s', Some err) \<Rightarrow>
          relay_run render bes (if be_canceled be then s' else log_line Error ''outbox batch failed'' s')
      | (s', None) \<Rightarrow> relay_run render bes s')"

end
