(* ===== verification/Base64.thy ===== *)
theory Base64
  imports Prelude
begin

text \<open>
  \<open>base64.RawURLEncoding\<close> of Go's standard library, which the token verifier uses to read the
  three segments of a token and the numbers of a signing key. The decoder skips carriage
  returns and newlines, refuses every other character outside the URL alphabet (the padding
  character included) and a lone character in the last group, and ignores the unused low bits
  of the last group.
\<close>

text \<open>The alphabet: upper-case letters, lower-case letters, digits, minus and underscore.\<close>

definition sextet_char :: "nat \<Rightarrow> char" where
  "sextet_char n =
     char_of (if n < 26 then n + 65 else if n < 52 then n + 71 else if n < 62 then n - 4
              else if n = 62 then 45 else 95)"

definition sextet_of :: "char \<Rightarrow> nat option" where
  "sextet_of c =
     (let n = of_char c in
      if 65 \<le> n \<and> n \<le> 90 then Some (n - 65)
      else if 97 \<le> n \<and> n \<le> 122 then Some (n - 71)
      else if 48 \<le> n \<and> n \<le> 57 then Some (n + 4)
      else if n = 45 then Some 62
      else if n = (95 :: nat) then Some 63
      else None)"

fun join_sextets :: "nat list \<Rightarrow> nat list option" where
  "join_sextets [] = Some []"
| "join_sextets [a] = None"
| "join_sextets [a, b] = Some [4 * a + b div 16]"
| "join_sextets [a, b, c] = Some [4 * a + b div 16, 16 * (b mod 16) + c div 4]"
| "join_sextets (a # b # c # d # ns) =
     map_option (\<lambda>r. [4 * a + b div 16, 16 * (b mod 16) + c div 4, 64 * (c mod 4) + d] @ r)
       (join_sextets ns)"

fun split_octets :: "nat list \<Rightarrow> nat list" where
  "split_octets [] = []"
| "split_octets [x] = [x div 4, 16 * (x mod 4)]"
| "split_octets [x, y] = [x div 4, 16 * (x mod 4) + y div 16, 4 * (y mod 16)]"
| "split_octets (x # y # z # ns) =
     [x div 4, 16 * (x mod 4) + y div 16, 4 * (y mod 16) + z div 64, z mod 64] @ split_octets ns"

definition is_newline :: "char \<Rightarrow> bool" where
  "is_newline c \<longleftrightarrow> (of_char c :: nat) = 10 \<or> (of_char c :: nat) = 13"

definition raw_url_decode :: "string \<Rightarrow> string option" where
  "raw_url_decode s =
     (case those (map sextet_of (filter (\<lambda>c. \<not> is_newline c) s)) of
        None \<Rightarrow> None
      | Some ns \<Rightarrow> map_option bytes (join_sextets ns))"

definition raw_url_encode :: "string \<Rightarrow> string" where
  "raw_url_encode s = map sextet_char (split_octets (map of_char s))"

section \<open>Decoding inverts encoding\<close>

lemma of_char_sextet_char:
  "n < 64 \<Longrightarrow> of_char (sextet_char n) =
     (if n < 26 then n + 65 else if n < 52 then n + 71 else if n < 62 then n - 4
      else if n = 62 then 45 else 95)"
  by (simp add: sextet_char_def)

lemma sextet_char_facts:
  assumes "n < 64"
  shows "sextet_of (sextet_char n) = Some n" and "\<not> is_newline (sextet_char n)"
    and "CHR ''.'' \<noteq> sextet_char n"
proof -
  show "sextet_of (sextet_char n) = Some n"
    using assms by (auto simp: sextet_of_def of_char_sextet_char Let_def)
  show "\<not> is_newline (sextet_char n)"
    using assms by (auto simp: is_newline_def of_char_sextet_char)
  have "of_char (sextet_char n) \<noteq> (46 :: nat)"
    using assms by (auto simp: of_char_sextet_char)
  moreover have "of_char (CHR ''.'') = (46 :: nat)" by simp
  ultimately show "CHR ''.'' \<noteq> sextet_char n" by metis
qed

lemma pack_sextets:
  "b < 16 \<Longrightarrow> (16 * a + b) div 16 = (a :: nat)" "b < 16 \<Longrightarrow> (16 * a + b) mod 16 = (b :: nat)"
  "d < 4 \<Longrightarrow> (4 * c + d) div 4 = (c :: nat)" "d < 4 \<Longrightarrow> (4 * c + d) mod 4 = (d :: nat)"
  by simp_all

lemma octet_parts:
  assumes "x < (256 :: nat)"
  shows "x div 4 < 64" "x mod 4 < 4" "x div 16 < 16" "x mod 16 < 16" "x div 64 < 4" "x mod 64 < 64"
  using assms by simp_all

lemma sextet_bounds:
  assumes "x < (256 :: nat)" "y < 256"
  shows "16 * (x mod 4) + y div 16 < 64" "4 * (x mod 16) + y div 64 < 64"
    "16 * (x mod 4) < 64" "4 * (x mod 16) < 64"
  using octet_parts [OF assms(1)] octet_parts [OF assms(2)] by linarith+

lemma split_octets_bound: "\<forall>x \<in> set xs. x < 256 \<Longrightarrow> \<forall>n \<in> set (split_octets xs). n < 64"
  by (induction xs rule: split_octets.induct) (simp_all add: octet_parts sextet_bounds)

lemma unsplit_octets:
  assumes "y < (256 :: nat)"
  shows "4 * (x div 4) + (16 * (x mod 4) + y div 16) div 16 = x"
    and "16 * ((16 * (x mod 4) + y div 16) mod 16) + (4 * (y mod 16)) div 4 = y"
  using octet_parts [OF assms] by (simp_all only: pack_sextets mult_div_mod_eq) simp

lemma unsplit_octets3:
  assumes "y < (256 :: nat)" "z < 256"
  shows "16 * ((16 * (x mod 4) + y div 16) mod 16) + (4 * (y mod 16) + z div 64) div 4 = y"
    and "64 * ((4 * (y mod 16) + z div 64) mod 4) + z mod 64 = z"
  using octet_parts [OF assms(1)] octet_parts [OF assms(2)]
  by (simp_all only: pack_sextets mult_div_mod_eq)

lemma join_split_octets: "\<forall>x \<in> set xs. x < 256 \<Longrightarrow> join_sextets (split_octets xs) = Some xs"
proof (induction xs rule: split_octets.induct)
  case (3 x y)
  then have "y < 256" by simp
  then show ?case by (simp only: split_octets.simps join_sextets.simps unsplit_octets)
next
  case (4 x y z ns)
  then have "y < 256" "z < 256" "join_sextets (split_octets ns) = Some ns" by simp_all
  then show ?case
    by (simp only: split_octets.simps join_sextets.simps append.simps unsplit_octets(1)
        unsplit_octets3 option.map)
qed simp_all

lemma those_map_Some: "\<forall>x \<in> set xs. f (g x) = Some x \<Longrightarrow> those (map f (map g xs)) = Some xs"
  by (induction xs) auto

lemma of_char_bound: "(of_char c :: nat) < 256"
  by (cases c) (simp add: of_char_def)

lemma raw_url_round_trip: "raw_url_decode (raw_url_encode s) = Some s"
proof -
  let ?ns = "split_octets (map of_char s)"
  have bound: "\<forall>n \<in> set ?ns. n < 64"
    by (rule split_octets_bound) (simp add: of_char_bound)
  then have "filter (\<lambda>c. \<not> is_newline c) (map sextet_char ?ns) = map sextet_char ?ns"
    by (intro filter_True) (auto simp: sextet_char_facts)
  moreover have "those (map sextet_of (map sextet_char ?ns)) = Some ?ns"
    using bound by (intro those_map_Some) (auto simp: sextet_char_facts)
  moreover have "join_sextets ?ns = Some (map of_char s)"
    by (rule join_split_octets) (simp add: of_char_bound)
  ultimately show ?thesis
    by (simp add: raw_url_decode_def raw_url_encode_def bytes_def comp_def)
qed

lemma raw_url_encode_no_dot: "CHR ''.'' \<notin> set (raw_url_encode s)"
proof -
  have "\<forall>n \<in> set (split_octets (map of_char s)). n < 64"
    by (rule split_octets_bound) (simp add: of_char_bound)
  then show ?thesis
    by (auto simp: raw_url_encode_def sextet_char_facts)
qed

end
