(* ===== verification/Json_Text.thy ===== *)
theory Json_Text
  imports Json_Struct
begin

text \<open>
  Every string the JSON reader yields is valid UTF-8, whatever bytes it was given: invalid bytes and
  unpaired surrogates have become U+FFFD. So are all strings a struct is filled with.
\<close>

lemma utf8_ok_rune:
  assumes "rune_size s = length s"
  shows "utf8_ok s"
  using assms utf8_ok.simps [of s] utf8_ok.simps [of "[]"] by (cases "s = []") auto

lemma utf8_ok_append: "utf8_ok s \<Longrightarrow> utf8_ok t \<Longrightarrow> utf8_ok (s @ t)"
proof (induction s rule: utf8_ok.induct)
  case (1 s)
  show ?case
  proof (cases "s = []")
    case False
    then have size: "rune_size s \<noteq> 0" and rest: "utf8_ok (drop (rune_size s) s)"
      using 1(2) utf8_ok.simps [of s] by (auto split: if_splits)
    have "utf8_ok (drop (rune_size s) s @ t)" using 1(1) [OF False size rest 1(3)] .
    moreover have "rune_size (s @ t) = rune_size s"
      using rune_size_cut [OF size, of "drop (rune_size s) s @ t"]
      by (simp only: append_assoc [symmetric] append_take_drop_id)
    ultimately show ?thesis
      using size rune_size_le [of s] False by (simp add: utf8_ok.simps [of "s @ t"])
  qed (use 1(3) in simp)
qed

lemma utf8_ok_take_rune: "rune_size s \<noteq> 0 \<Longrightarrow> utf8_ok (take (rune_size s) s)"
  using rune_size_cut [of s "[]"] rune_size_le [of s] by (intro utf8_ok_rune) simp

lemma utf8_ok_replacement: "utf8_ok replacement"
  by (rule utf8_ok_rune)
    (simp add: replacement_def bytes_def rune_size_def lead_size_def byte_in_def tail_ok_def second_range_def)

lemma utf8_ok_ascii_bytes: "n < 128 \<Longrightarrow> utf8_ok (bytes [n])"
  by (rule utf8_ok_ascii) (simp add: bytes_def)

lemma byte_in_char_of: "n < 256 \<Longrightarrow> byte_in lo hi (char_of n) \<longleftrightarrow> lo \<le> n \<and> n \<le> hi"
  by (simp add: byte_in_def)

lemma utf8_ok_two:
  assumes "194 \<le> a" "a \<le> 223" "128 \<le> b" "b \<le> 191"
  shows "utf8_ok (bytes [a, b])"
  using assms
  by (intro utf8_ok_rune)
    (simp add: bytes_def rune_size_def lead_size_def byte_in_char_of tail_ok_def second_range_def)

lemma utf8_ok_three:
  assumes "224 \<le> a" "a \<le> 239" "128 \<le> b" "b \<le> 191" "128 \<le> c" "c \<le> 191"
    and "a = 224 \<Longrightarrow> 160 \<le> b" and "a = 237 \<Longrightarrow> b \<le> 159"
  shows "utf8_ok (bytes [a, b, c])"
  using assms
  by (intro utf8_ok_rune)
    (simp add: bytes_def rune_size_def lead_size_def byte_in_char_of tail_ok_def second_range_def)

lemma utf8_ok_four:
  assumes "240 \<le> a" "a \<le> 244" "128 \<le> b" "b \<le> 191" "128 \<le> c" "c \<le> 191" "128 \<le> e" "e \<le> 191"
    and "a = 240 \<Longrightarrow> 144 \<le> b" and "a = 244 \<Longrightarrow> b \<le> 143"
  shows "utf8_ok (bytes [a, b, c, e])"
  using assms
  by (intro utf8_ok_rune)
    (simp add: bytes_def rune_size_def lead_size_def byte_in_char_of tail_ok_def second_range_def)

lemma utf8_ok_encode_rune: "utf8_ok (encode_rune r)"
proof -
  have mods: "r mod 64 < 64" "r div 64 mod 64 < 64" "r div 4096 mod 64 < 64" by simp_all
  consider "r < 128" | "128 \<le> r" "r < 2048" | "2048 \<le> r" "(55296 \<le> r \<and> r < 57344) \<or> 1114112 \<le> r"
    | "2048 \<le> r" "r < 65536" "\<not> (55296 \<le> r \<and> r < 57344)" | "65536 \<le> r" "r < 1114112"
    by linarith
  then show ?thesis
  proof cases
    case 1
    then show ?thesis by (simp add: encode_rune_def utf8_ok_ascii_bytes)
  next
    case 2
    have "2 \<le> r div 64" "r div 64 < 32" using 2 by linarith+
    with 2 mods have "utf8_ok (bytes [192 + r div 64, 128 + r mod 64])" by (intro utf8_ok_two) linarith+
    with 2 show ?thesis by (simp add: encode_rune_def)
  next
    case 3
    then show ?thesis by (simp add: encode_rune_def utf8_ok_replacement)
  next
    case 4
    define q where "q = r div 4096"
    define m where "m = r div 64 mod 64"
    have q: "q < 16" using 4 by (simp add: q_def less_mult_imp_div_less)
    have "r div 64 div 64 = q" by (simp add: q_def div_mult2_eq [symmetric])
    then have m: "r div 64 = 64 * q + m" using mult_div_mod_eq [of 64 "r div 64"] by (simp add: m_def)
    have "32 \<le> m" if "q = 0" using 4(1) m that by linarith
    moreover have "m < 32" if "q = 13"
    proof -
      have "m < 64" by (simp add: m_def)
      then have "r < 57344" using m that by linarith
      then have "r < 55296" using 4(3) by linarith
      then show ?thesis using m that by linarith
    qed
    ultimately have "utf8_ok (bytes [224 + q, 128 + m, 128 + r mod 64])"
      using q mods by (intro utf8_ok_three) (auto simp: m_def [symmetric])
    with 4 utf8_ok_replacement show ?thesis by (simp add: encode_rune_def q_def m_def)
  next
    case 5
    define q where "q = r div 262144"
    define m where "m = r div 4096 mod 64"
    have q: "q < 5" using 5 by (simp add: q_def less_mult_imp_div_less)
    have "r div 4096 div 64 = q" by (simp add: q_def div_mult2_eq [symmetric])
    then have m: "r div 4096 = 64 * q + m" using mult_div_mod_eq [of 64 "r div 4096"] by (simp add: m_def)
    have "16 \<le> m" if "q = 0" using 5(1) m that by linarith
    moreover have "m < 16" if "q = 4" using 5(2) m that by linarith
    ultimately have "utf8_ok (bytes [240 + q, 128 + m, 128 + r div 64 mod 64, 128 + r mod 64])"
      using q mods by (intro utf8_ok_four) (auto simp: m_def [symmetric])
    with 5 show ?thesis by (simp add: encode_rune_def q_def m_def)
  qed
qed

lemma scan_escape_utf8: "scan_escape s = Some (b, r) \<Longrightarrow> utf8_ok b"
  by (auto simp: scan_escape_def scan_unicode_def utf8_ok_encode_rune utf8_ok_replacement
      utf8_ok_ascii_bytes split: list.splits if_splits option.splits
      intro: utf8_ok_ascii)

lemma prepend_utf8: "prepend b p = Some (t, r) \<Longrightarrow> \<exists>u. p = Some (u, r) \<and> t = b @ u"
  by (auto simp: prepend_def)

lemma scan_string_utf8: "scan_string s = Some (t, r) \<Longrightarrow> utf8_ok t"
proof (induction s arbitrary: t rule: scan_string.induct)
  case (1 s)
  show ?case
  proof (cases s)
    case Nil
    then show ?thesis using 1 by (simp add: scan_string.simps [of "[]"])
  next
    case (Cons c u)
    consider "c = CHR 0x22" | b u' where "c = CHR 0x5C" "scan_escape u = Some (b, u')"
      | "c = CHR 0x5C" "scan_escape u = None"
      | "c \<noteq> CHR 0x22" "c \<noteq> CHR 0x5C" "byte c < 32"
      | "c \<noteq> CHR 0x22" "c \<noteq> CHR 0x5C" "\<not> byte c < 32" "rune_size s = 0"
      | "c \<noteq> CHR 0x22" "c \<noteq> CHR 0x5C" "\<not> byte c < 32" "rune_size s \<noteq> 0"
      by (cases "scan_escape u") auto
    then show ?thesis
    proof cases
      case 1
      then show ?thesis
        using "1.prems" Cons utf8_ok.simps [of "[]"] scan_string.simps [of "CHR 0x22 # u"] by simp
    next
      case 2
      then have "scan_string s = prepend b (scan_string u')"
        using Cons scan_string.simps [of s] by simp
      with "1.prems" obtain w where "scan_string u' = Some (w, r)" "t = b @ w"
        using prepend_utf8 by metis
      then show ?thesis
        using "1.IH"(1) [OF Cons] \<open>c = CHR 0x5C\<close> \<open>scan_escape u = Some (b, u')\<close> scan_escape_utf8 utf8_ok_append by auto
    next
      case 5
      then have "scan_string s = prepend replacement (scan_string u)"
        using Cons scan_string.simps [of s] by simp
      with "1.prems" obtain w where "scan_string u = Some (w, r)" "t = replacement @ w"
        using prepend_utf8 by metis
      then show ?thesis using "1.IH"(2) [OF Cons] 5 utf8_ok_replacement utf8_ok_append by auto
    next
      case 6
      then have "scan_string s = prepend (take (rune_size s) s) (scan_string (drop (rune_size s) s))"
        using Cons scan_string.simps [of s] by simp
      with "1.prems" obtain w where "scan_string (drop (rune_size s) s) = Some (w, r)" "t = take (rune_size s) s @ w"
        using prepend_utf8 by metis
      then show ?thesis using "1.IH"(3) [OF Cons] 6 utf8_ok_take_rune utf8_ok_append by auto
    qed (use "1.prems" Cons scan_string.simps [of "c # u"] in simp_all)
  qed
qed

section \<open>Values and structs\<close>

fun json_utf8 :: "json \<Rightarrow> bool" where
  "json_utf8 (JStr s) = utf8_ok s"
| "json_utf8 (JArr vs) = (\<forall>v \<in> set vs. json_utf8 v)"
| "json_utf8 (JObj ms) = (\<forall>m \<in> set ms. utf8_ok (fst m) \<and> json_utf8 (snd m))"
| "json_utf8 v = True"

lemma parse_utf8:
  "parse_value n d s = Some (v, r) \<Longrightarrow> json_utf8 v"
  "parse_elems n d s = Some (vs, r) \<Longrightarrow> \<forall>v \<in> set vs. json_utf8 v"
  "parse_members n d s = Some (ms, r) \<Longrightarrow> \<forall>m \<in> set ms. utf8_ok (fst m) \<and> json_utf8 (snd m)"
proof (induction n d s and n d s and n d s arbitrary: v r and vs r and ms r
    rule: parse_value_parse_elems_parse_members.induct)
  case (2 n d s)
  then show ?case
    by (auto simp: scan_literal_def split: list.splits if_splits dest: scan_string_utf8)
next
  case (4 n d s)
  then show ?case
    by (fastforce split: option.splits list.splits if_splits dest: prepend_utf8)
next
  case (6 n d s)
  then show ?case
    by (fastforce split: option.splits list.splits if_splits dest: prepend_utf8 scan_string_utf8)
qed simp_all

lemma unmarshal_utf8: "unmarshal s = Some v \<Longrightarrow> json_utf8 v"
  by (auto simp: unmarshal_def parse_first_def simp del: parse_value.simps split: option.splits if_splits
      dest: parse_utf8)

lemma decode_first_utf8: "decode_first s = Some v \<Longrightarrow> json_utf8 v"
  by (auto simp: decode_first_def parse_first_def simp del: parse_value.simps dest: parse_utf8)

text \<open>A fact about a struct that every setter preserves holds of what is decoded.\<close>

definition setter_keeps :: "('r \<Rightarrow> bool) \<Rightarrow> 'r setter \<Rightarrow> bool" where
  "setter_keeps P st \<longleftrightarrow> (\<forall>v r r'. json_utf8 v \<longrightarrow> P r \<longrightarrow> st v r = Inr r' \<longrightarrow> P r')"

lemma find_field_setter:
  assumes "find_field fs k = Some st"
  shows "st \<in> snd ` set fs"
proof (cases "map_of fs k")
  case None
  then obtain f where "find (\<lambda>f. fold_name (fst f) = fold_name k) fs = Some f" "st = snd f"
    using assms by (auto simp: find_field_def)
  then show ?thesis by (auto simp: find_Some_iff)
next
  case (Some st')
  then have "st' = st" using assms by (simp add: find_field_def)
  with map_of_SomeD [OF Some] show ?thesis by force
qed

lemma decode_members_keeps:
  assumes "\<forall>st \<in> snd ` set fs. setter_keeps P st"
    and "decode_members strict fs ms r = Inr r'" and "\<forall>m \<in> set ms. json_utf8 (snd m)" and "P r"
  shows "P r'"
  using assms
proof (induction strict fs ms r rule: decode_members.induct)
  case (2 strict fs k v ms r)
  show ?case
  proof (cases "find_field fs k")
    case None
    then have "decode_members strict fs ms r = Inr r'" "\<not> strict"
      using "2.prems"(2) by (auto split: if_splits)
    then show ?thesis using "2.IH"(1) [OF None _ "2.prems"(1)] "2.prems"(3,4) by simp
  next
    case (Some st)
    with "2.prems"(2) obtain r1 where r1: "st v r = Inr r1" "decode_members strict fs ms r1 = Inr r'"
      by (auto split: sum.splits)
    have "P r1"
      using "2.prems"(1,3,4) find_field_setter [OF Some] r1(1) unfolding setter_keeps_def
      by (metis list.set_intros(1) snd_conv)
    then show ?thesis using "2.IH"(2) [OF Some r1(1) "2.prems"(1) r1(2)] "2.prems"(3) by simp
  qed
qed simp

lemma decode_struct_keeps:
  assumes "\<forall>st \<in> snd ` set fs. setter_keeps P st"
    and "decode_struct strict fs v r = Inr r'" and "json_utf8 v" and "P r"
  shows "P r'"
  using assms decode_members_keeps [OF assms(1)] by (auto simp: decode_struct_def split: json.splits)

lemma setter_keeps_struct:
  assumes "\<forall>st \<in> snd ` set fs. setter_keeps P st"
  shows "setter_keeps P (decode_struct strict fs)"
  using decode_struct_keeps [OF assms] by (auto simp: setter_keeps_def)

lemma as_string_utf8: "as_string v = Inr (Some s) \<Longrightarrow> json_utf8 v \<Longrightarrow> utf8_ok s"
  by (cases v) auto

lemma setter_keeps_field:
  assumes "\<And>v x r. dec v = Inr (Some x) \<Longrightarrow> json_utf8 v \<Longrightarrow> P r \<Longrightarrow> P (upd (\<lambda>_. x) r)"
  shows "setter_keeps P (field dec upd)"
  using assms by (auto simp: setter_keeps_def field_def split: sum.splits option.splits)

end
