(* ===== verification/Auth.thy ===== *)
theory Auth
  imports Base64 Gotime Json_Text
begin

text \<open>
  \<open>internal/auth/verifier.go\<close>: the JWT verifier that guards the REST API and the realtime
  gateway. Its state is the configuration and a cache of the issuer's signing keys. SHA-256, RSA
  signature checking and the reply of the key server are arguments; everything else (segments,
  base64, JSON, claims, cache) is the code's. An operation that reads the clock takes the readings
  as arguments.
\<close>

section \<open>Data\<close>

record auth_config =
  config_issuer :: string
  config_jwks_url :: string
  config_audience :: string

record principal =
  subject :: string
  username :: string
  roles :: "string list"
  expires_at :: instant

fun has_role_in :: "string list \<Rightarrow> string \<Rightarrow> bool" where
  "has_role_in [] role = False"
| "has_role_in (candidate # rest) role = (if candidate = role then True else has_role_in rest role)"

definition has_role :: "principal \<Rightarrow> string \<Rightarrow> bool" where
  "has_role p role = has_role_in (roles p) role"

lemma has_role_iff [simp]: "has_role p role \<longleftrightarrow> role \<in> set (roles p)"
proof -
  have "has_role_in rs role \<longleftrightarrow> role \<in> set rs" for rs by (induction rs) auto
  then show ?thesis by (simp add: has_role_def)
qed

record rsa_key =
  modulus :: nat
  exponent :: int64

record verifier =
  config :: auth_config
  keys :: "string \<rightharpoonup> rsa_key"
  fetched :: instant

record crypto =
  sha256 :: "string \<Rightarrow> string"
  pkcs1v15 :: "rsa_key \<Rightarrow> string \<Rightarrow> string \<Rightarrow> bool"

datatype key_error =
    RequestFailed
  | UnexpectedStatus nat
  | BadDocument json_error
  | NoSigningKeys
  | NoKeyFor string

datatype auth_error = MissingToken | InvalidToken | InvalidTokenKey key_error

text \<open>\<open>NewVerifier\<close> refuses an incomplete configuration and starts with an empty cache.\<close>

definition new_verifier :: "auth_config \<Rightarrow> verifier option" where
  "new_verifier c =
     (if config_issuer c = [] \<or> config_jwks_url c = [] \<or> config_audience c = [] then None
      else Some \<lparr>config = c, keys = Map.empty, fetched = zero_time\<rparr>)"

section \<open>Token segments and claims\<close>

record token_header =
  algorithm :: string
  kid :: string

record access_claims =
  issuer :: string
  claim_subject :: string
  audience :: "json option"
  expires :: int64
  not_before :: int64
  preferred_username :: string
  realm_roles :: "string list"

definition header_fields :: "token_header fields" where
  "header_fields = [(''alg'', field as_string algorithm_update), (''kid'', field as_string kid_update)]"

definition empty_header :: token_header where
  "empty_header = \<lparr>algorithm = [], kid = []\<rparr>"

definition realm_fields :: "access_claims fields" where
  "realm_fields = [(''roles'', field as_strings realm_roles_update)]"

definition claim_fields :: "access_claims fields" where
  "claim_fields =
     [(''iss'', field as_string issuer_update),
      (''sub'', field as_string claim_subject_update),
      (''aud'', field as_raw audience_update),
      (''exp'', field as_int64 expires_update),
      (''nbf'', field as_int64 not_before_update),
      (''preferred_username'', field as_string preferred_username_update),
      (''realm_access'', decode_struct False realm_fields)]"

definition empty_claims :: access_claims where
  "empty_claims =
     \<lparr>issuer = [], claim_subject = [], audience = None, expires = 0, not_before = 0,
      preferred_username = [], realm_roles = []\<rparr>"

definition decode_segment :: "'r fields \<Rightarrow> string \<Rightarrow> 'r \<Rightarrow> json_error + 'r" where
  "decode_segment fs segment value =
     (case raw_url_decode segment of
        None \<Rightarrow> Inl SyntaxError
      | Some payload \<Rightarrow>
          (case unmarshal payload of
             None \<Rightarrow> Inl SyntaxError
           | Some v \<Rightarrow> decode_struct False fs v value))"

fun any_equal :: "string list \<Rightarrow> string \<Rightarrow> bool" where
  "any_equal [] expected = False"
| "any_equal (a # as) expected = (if a = expected then True else any_equal as expected)"

text \<open>The audience claim is one string or a list of strings.\<close>

definition has_audience :: "json option \<Rightarrow> string \<Rightarrow> bool" where
  "has_audience raw expected =
     (case raw of
        None \<Rightarrow> False
      | Some v \<Rightarrow>
          (case as_string v of
             Inr single \<Rightarrow> (case single of None \<Rightarrow> [] | Some s \<Rightarrow> s) = expected
           | Inl _ \<Rightarrow>
               (case as_strings v of
                  Inl _ \<Rightarrow> False
                | Inr multiple \<Rightarrow>
                    any_equal (case multiple of None \<Rightarrow> [] | Some xs \<Rightarrow> xs) expected)))"

lemma any_equal_iff [simp]: "any_equal as a \<longleftrightarrow> a \<in> set as"
  by (induction as) auto

section \<open>The key cache\<close>

record jwk =
  jwk_kid :: string
  jwk_kty :: string
  jwk_use :: string
  jwk_n :: string
  jwk_e :: string

definition jwk_fields :: "jwk fields" where
  "jwk_fields =
     [(''kid'', field as_string jwk_kid_update), (''kty'', field as_string jwk_kty_update),
      (''use'', field as_string jwk_use_update), (''n'', field as_string jwk_n_update),
      (''e'', field as_string jwk_e_update)]"

definition empty_jwk :: jwk where
  "empty_jwk = \<lparr>jwk_kid = [], jwk_kty = [], jwk_use = [], jwk_n = [], jwk_e = []\<rparr>"

fun decode_jwks :: "json list \<Rightarrow> json_error + jwk list" where
  "decode_jwks [] = Inr []"
| "decode_jwks (v # vs) =
     (case decode_struct False jwk_fields v empty_jwk of
        Inl e \<Rightarrow> Inl e
      | Inr k \<Rightarrow> (case decode_jwks vs of Inl e \<Rightarrow> Inl e | Inr ks \<Rightarrow> Inr (k # ks)))"

fun as_jwks :: "json \<Rightarrow> json_error + jwk list option" where
  "as_jwks JNull = Inr (Some [])"
| "as_jwks (JArr vs) = map_sum id Some (decode_jwks vs)"
| "as_jwks _ = Inl TypeMismatch"

definition decode_document :: "string \<Rightarrow> json_error + jwk list" where
  "decode_document body =
     (case decode_first body of
        None \<Rightarrow> Inl SyntaxError
      | Some v \<Rightarrow> decode_struct False [(''keys'', field as_jwks (\<lambda>f. f))] v [])"

text \<open>\<open>big.Int.SetBytes\<close>, and \<open>big.Int.Int64\<close>, which keeps the low 64 bits.\<close>

definition be_nat :: "string \<Rightarrow> nat" where
  "be_nat s = foldl (\<lambda>n c. 256 * n + byte c) 0 s"

definition low_int64 :: "nat \<Rightarrow> int64" where
  "low_int64 n = (let m = int (n mod 2 ^ 64) in if m < 2 ^ 63 then m else m - 2 ^ 64)"

definition key_of_jwk :: "jwk \<Rightarrow> rsa_key option" where
  "key_of_jwk j =
     (if jwk_kid j = [] \<or> jwk_kty j \<noteq> ''RSA'' \<or> (jwk_use j \<noteq> [] \<and> jwk_use j \<noteq> ''sig'') then None
      else case raw_url_decode (jwk_n j) of
             None \<Rightarrow> None
           | Some n \<Rightarrow>
               (case raw_url_decode (jwk_e j) of
                  None \<Rightarrow> None
                | Some e \<Rightarrow>
                    if e = [] then None
                    else Some \<lparr>modulus = be_nat n, exponent = low_int64 (be_nat e)\<rparr>))"

fun collect_keys :: "jwk list \<Rightarrow> (string \<rightharpoonup> rsa_key) \<Rightarrow> (string \<rightharpoonup> rsa_key)" where
  "collect_keys [] ks = ks"
| "collect_keys (j # js) ks =
     (case key_of_jwk j of
        None \<Rightarrow> collect_keys js ks
      | Some k \<Rightarrow> collect_keys js (ks(jwk_kid j \<mapsto> k)))"

text \<open>What comes back from the key server: no response at all, or a status and a body.\<close>

datatype jwks_reply = NoReply | Reply nat string

definition refresh :: "instant \<Rightarrow> jwks_reply \<Rightarrow> verifier \<Rightarrow> verifier \<times> key_error option" where
  "refresh now reply v =
     (case reply of
        NoReply \<Rightarrow> (v, Some RequestFailed)
      | Reply status body \<Rightarrow>
          if status \<noteq> 200 then (v, Some (UnexpectedStatus status))
          else (case decode_document body of
                  Inl e \<Rightarrow> (v, Some (BadDocument e))
                | Inr js \<Rightarrow>
                    (let ks = collect_keys js Map.empty
                     in if \<forall>j \<in> set js. key_of_jwk j = None then (v, Some NoSigningKeys)
                        else (v\<lparr>keys := ks, fetched := now\<rparr>, None))))"

record clock =
  at_lookup :: instant
  at_refresh :: instant
  at_claims :: instant

definition key_for :: "clock \<Rightarrow> jwks_reply \<Rightarrow> string \<Rightarrow> verifier \<Rightarrow> verifier \<times> (key_error + rsa_key)" where
  "key_for ck reply k v =
     (let fresh = time_sub (at_lookup ck) (fetched v) < 5 * minute
      in case (keys v k, fresh) of
           (Some key, True) \<Rightarrow> (v, Inr key)
         | _ \<Rightarrow>
             (case refresh (at_refresh ck) reply v of
                (v', Some e) \<Rightarrow> (v', Inl e)
              | (v', None) \<Rightarrow>
                  (v', case keys v' k of None \<Rightarrow> Inl (NoKeyFor k) | Some key \<Rightarrow> Inr key)))"

section \<open>Verify\<close>

definition bearer_prefix :: string where
  "bearer_prefix = ''Bearer ''"

definition claims_valid :: "auth_config \<Rightarrow> int64 \<Rightarrow> access_claims \<Rightarrow> bool" where
  "claims_valid c now cl \<longleftrightarrow>
     \<not> (issuer cl \<noteq> config_issuer c \<or> claim_subject cl = [] \<or> expires cl \<le> now \<or>
        (not_before cl \<noteq> 0 \<and> now < not_before cl) \<or>
        \<not> has_audience (audience cl) (config_audience c))"

definition principal_of :: "access_claims \<Rightarrow> principal" where
  "principal_of cl =
     \<lparr>subject = claim_subject cl, username = preferred_username cl, roles = realm_roles cl,
      expires_at = expires cl * second\<rparr>"

definition verify ::
    "crypto \<Rightarrow> clock \<Rightarrow> jwks_reply \<Rightarrow> string \<Rightarrow> verifier \<Rightarrow> verifier \<times> (auth_error + principal)" where
  "verify cr ck reply authorization v =
     (if \<not> has_prefix authorization bearer_prefix
         \<or> trim_space (trim_prefix authorization bearer_prefix) = []
      then (v, Inl MissingToken)
      else let token = trim_space (trim_prefix authorization bearer_prefix)
      in case split_on (CHR ''.'') token of
           [p0, p1, p2] \<Rightarrow>
             (case decode_segment header_fields p0 empty_header of
                Inl _ \<Rightarrow> (v, Inl InvalidToken)
              | Inr h \<Rightarrow>
                  if algorithm h \<noteq> ''RS256'' \<or> kid h = [] then (v, Inl InvalidToken)
                  else (case decode_segment claim_fields p1 empty_claims of
                     Inl _ \<Rightarrow> (v, Inl InvalidToken)
                   | Inr cl \<Rightarrow>
                       (case raw_url_decode p2 of
                          None \<Rightarrow> (v, Inl InvalidToken)
                        | Some sig \<Rightarrow>
                            (case key_for ck reply (kid h) v of
                               (v', Inl e) \<Rightarrow> (v', Inl (InvalidTokenKey e))
                             | (v', Inr key) \<Rightarrow>
                                 if \<not> pkcs1v15 cr key (sha256 cr (p0 @ CHR ''.'' # p1)) sig
                                 then (v', Inl InvalidToken)
                                 else if \<not> claims_valid (config v') (unix_seconds (at_claims ck)) cl
                                 then (v', Inl InvalidToken)
                                 else (v', Inr (principal_of cl))))))
         | _ \<Rightarrow> (v, Inl InvalidToken))"

section \<open>Keys\<close>

lemma key_of_jwk_Some:
  assumes "key_of_jwk j = Some k"
  shows "jwk_kid j \<noteq> []" and "jwk_kty j = ''RSA''" and "jwk_use j = [] \<or> jwk_use j = ''sig''"
  using assms by (auto simp: key_of_jwk_def split: if_splits)

lemma collect_keys_origin:
  "collect_keys js ks k = Some key \<Longrightarrow>
    ks k = Some key \<or> (\<exists>j \<in> set js. jwk_kid j = k \<and> key_of_jwk j = Some key)"
proof (induction js arbitrary: ks)
  case (Cons j js)
  show ?case
  proof (cases "key_of_jwk j")
    case None
    with Cons.prems Cons.IH [of ks] show ?thesis by auto
  next
    case (Some k')
    with Cons.prems have "collect_keys js (ks(jwk_kid j \<mapsto> k')) k = Some key" by simp
    from Cons.IH [OF this] Some show ?thesis by (auto split: if_splits)
  qed
qed simp

lemma collect_keys_append: "collect_keys (js @ is) ks = collect_keys is (collect_keys js ks)"
  by (induction js arbitrary: ks) (auto split: option.split)

lemma collect_keys_keep:
  "\<forall>i \<in> set is. jwk_kid i = k \<longrightarrow> key_of_jwk i = None \<Longrightarrow> collect_keys is ks k = ks k"
  by (induction "is" arbitrary: ks) (auto split: option.split)

lemma collect_keys_last:
  assumes "key_of_jwk j = Some key" and "\<forall>i \<in> set is. jwk_kid i = jwk_kid j \<longrightarrow> key_of_jwk i = None"
  shows "collect_keys (js @ j # is) ks (jwk_kid j) = Some key"
  using assms by (simp add: collect_keys_append collect_keys_keep)

text \<open>The cache holds keys of an accepted key document only; it starts empty.\<close>

definition document_keys :: "string \<Rightarrow> (string \<rightharpoonup> rsa_key) option" where
  "document_keys body =
     (case decode_document body of
        Inl _ \<Rightarrow> None
      | Inr js \<Rightarrow> if \<forall>j \<in> set js. key_of_jwk j = None then None else Some (collect_keys js Map.empty))"

lemma refresh_cases:
  obtains (failed) e where "refresh now reply v = (v, Some e)"
      and "\<forall>body. reply = Reply 200 body \<longrightarrow> document_keys body = None"
  | (loaded) body ks where "reply = Reply 200 body" and "document_keys body = Some ks"
      and "refresh now reply v = (v\<lparr>keys := ks, fetched := now\<rparr>, None)"
proof (cases reply)
  case NoReply
  then show ?thesis using failed by (simp add: refresh_def)
next
  case (Reply status body)
  show ?thesis
  proof (cases "status = 200 \<and> document_keys body \<noteq> None")
    case True
    then obtain js where "decode_document body = Inr js" "\<not> (\<forall>j \<in> set js. key_of_jwk j = None)"
      by (auto simp: document_keys_def split: sum.splits if_splits)
    with True Reply loaded [of body "collect_keys js Map.empty"] show ?thesis
      by (simp add: refresh_def document_keys_def)
  next
    case False
    have "\<exists>e. refresh now reply v = (v, Some e)"
    proof (cases "status = 200")
      case True
      with False Reply show ?thesis
        by (cases "decode_document body") (simp_all add: refresh_def document_keys_def split: if_splits)
    qed (simp add: refresh_def Reply)
    with False Reply failed show ?thesis by auto
  qed
qed

lemma key_for_cached:
  assumes "keys v k = Some key" and "at_lookup ck - fetched v < 5 * minute"
  shows "key_for ck reply k v = (v, Inr key)"
  using assms by (simp add: key_for_def time_sub_less_iff duration_defs)

lemma key_for_refreshed:
  assumes "keys v k = None \<or> 5 * minute \<le> at_lookup ck - fetched v"
  shows "key_for ck reply k v =
     (case refresh (at_refresh ck) reply v of
        (v', Some e) \<Rightarrow> (v', Inl e)
      | (v', None) \<Rightarrow> (v', case keys v' k of None \<Rightarrow> Inl (NoKeyFor k) | Some key \<Rightarrow> Inr key))"
proof -
  have "\<not> time_sub (at_lookup ck) (fetched v) < 5 * minute \<or> keys v k = None"
    using assms by (auto simp: time_sub_less_iff duration_defs)
  then show ?thesis
    by (auto simp: key_for_def Let_def split: option.split)
qed

lemma key_for_result:
  assumes "key_for ck reply k v = (v', r)"
  shows "v' = v \<or> (\<exists>body ks. reply = Reply 200 body \<and> document_keys body = Some ks
      \<and> v' = v\<lparr>keys := ks, fetched := at_refresh ck\<rparr>)"
    and "\<And>key. r = Inr key \<Longrightarrow> keys v' k = Some key"
proof -
  show "v' = v \<or> (\<exists>body ks. reply = Reply 200 body \<and> document_keys body = Some ks
      \<and> v' = v\<lparr>keys := ks, fetched := at_refresh ck\<rparr>)"
    using assms by (cases rule: refresh_cases [of "at_refresh ck" reply v])
      (auto simp: key_for_def Let_def split: option.splits bool.splits)
  show "keys v' k = Some key" if "r = Inr key" for key
    using assms that by (cases rule: refresh_cases [of "at_refresh ck" reply v])
      (auto simp: key_for_def Let_def split: option.splits bool.splits)
qed

section \<open>What a successful verification means\<close>

lemma verify_state:
  assumes "verify cr ck reply a v = (v', r)"
  shows "v' = v \<or> (\<exists>body ks. reply = Reply 200 body \<and> document_keys body = Some ks
      \<and> v' = v\<lparr>keys := ks, fetched := at_refresh ck\<rparr>)"
  using assms unfolding verify_def Let_def
  by (auto split: if_splits list.splits sum.splits option.splits prod.splits dest: key_for_result(1))

lemma verify_config:
  assumes "verify cr ck reply a v = (v', r)"
  shows "config v' = config v"
  using verify_state [OF assms] by auto

text \<open>
  Everything a successful verification has checked: the three segments of the token, the header,
  the signature under the cached key the header names, and the claims.
\<close>

lemma verify_Inr:
  assumes "verify cr ck reply a v = (v', Inr p)"
  obtains p0 p1 p2 h cl sig key where
    "has_prefix a bearer_prefix"
    "split_on (CHR ''.'') (trim_space (trim_prefix a bearer_prefix)) = [p0, p1, p2]"
    "decode_segment header_fields p0 empty_header = Inr h" "algorithm h = ''RS256''" "kid h \<noteq> []"
    "decode_segment claim_fields p1 empty_claims = Inr cl" "raw_url_decode p2 = Some sig"
    "key_for ck reply (kid h) v = (v', Inr key)" "keys v' (kid h) = Some key"
    "pkcs1v15 cr key (sha256 cr (p0 @ CHR ''.'' # p1)) sig"
    "claims_valid (config v) (unix_seconds (at_claims ck)) cl" "p = principal_of cl"
proof -
  have cfg: "config v' = config v" using verify_config [OF assms] .
  have keys: "keys v' k = Some key" if "key_for ck reply k v = (v', Inr key)" for k key
    using key_for_result(2) [OF that refl] .
  show ?thesis
    using assms unfolding verify_def Let_def
    by (auto split: if_splits list.splits sum.splits option.splits prod.splits
        simp: cfg intro: that keys)
qed

lemma claims_valid_facts:
  assumes "claims_valid c now cl"
  shows "issuer cl = config_issuer c" and "claim_subject cl \<noteq> []" and "now < expires cl"
    and "not_before cl = 0 \<or> not_before cl \<le> now" and "has_audience (audience cl) (config_audience c)"
  using assms by (auto simp: claims_valid_def)

section \<open>Issued tokens\<close>

text \<open>
  The tokens an issuer makes for this service: header and claims as JSON objects, base64 without
  padding, joined with the signature by dots (what \<open>verifier_test.go\<close> does to test the verifier).
\<close>

definition header_json :: "string \<Rightarrow> json" where
  "header_json k = JObj [(''alg'', JStr ''RS256''), (''kid'', JStr k), (''typ'', JStr ''JWT'')]"

definition claims_json :: "access_claims \<Rightarrow> string list \<Rightarrow> json" where
  "claims_json cl auds =
     JObj [(''iss'', JStr (issuer cl)), (''sub'', JStr (claim_subject cl)),
           (''aud'', JArr (map JStr auds)), (''exp'', JNum (format_int 10 (expires cl))),
           (''nbf'', JNum (format_int 10 (not_before cl))),
           (''preferred_username'', JStr (preferred_username cl)),
           (''realm_access'', JObj [(''roles'', JArr (map JStr (realm_roles cl)))])]"

definition signing_input :: "string \<Rightarrow> json \<Rightarrow> string" where
  "signing_input k cj =
     raw_url_encode (marshal (header_json k)) @ CHR ''.'' # raw_url_encode (marshal cj)"

definition issue_token :: "string \<Rightarrow> json \<Rightarrow> string \<Rightarrow> string" where
  "issue_token k cj sig = signing_input k cj @ CHR ''.'' # raw_url_encode sig"

definition claims_writable :: "access_claims \<Rightarrow> string list \<Rightarrow> bool" where
  "claims_writable cl auds \<longleftrightarrow>
     utf8_ok (issuer cl) \<and> utf8_ok (claim_subject cl) \<and> utf8_ok (preferred_username cl)
     \<and> in_int64 (expires cl) \<and> in_int64 (not_before cl)
     \<and> list_all utf8_ok auds \<and> list_all utf8_ok (realm_roles cl)"

lemma string_elems_map: "string_elems (map JStr xs) = Inr xs"
  by (induction xs) auto

lemma decode_segment_encoded:
  assumes "writable max_nesting v"
  shows "decode_segment fs (raw_url_encode (marshal v)) r = decode_struct False fs v r"
  using unmarshal_marshal [OF assms] by (simp add: decode_segment_def raw_url_round_trip)

lemma header_writable: "utf8_ok k \<Longrightarrow> writable max_nesting (header_json k)"
  by (simp add: header_json_def max_nesting_def utf8_ok_ascii)

lemma header_decoded:
  "decode_struct False header_fields (header_json k) empty_header = Inr \<lparr>algorithm = ''RS256'', kid = k\<rparr>"
  by (simp add: header_json_def decode_struct_def header_fields_def find_field_def field_def
      empty_header_def ascii_upper_def byte_in_def bytes_def)

lemma claims_json_writable: "claims_writable cl auds \<Longrightarrow> writable max_nesting (claims_json cl auds)"
  by (auto simp: claims_json_def claims_writable_def max_nesting_def utf8_ok_ascii int_literal_def
      list_all_iff)

lemma claims_decoded:
  assumes "claims_writable cl auds"
  shows "decode_struct False claim_fields (claims_json cl auds) empty_claims =
    Inr (cl\<lparr>audience := Some (JArr (map JStr auds))\<rparr>)"
  using assms
  by (simp add: claims_json_def claims_writable_def decode_struct_def claim_fields_def realm_fields_def
      find_field_def field_def empty_claims_def parse_format_int as_raw_def string_elems_map)

lemma strip_one_no_space:
  assumes "\<forall>c \<in> set s. 33 \<le> byte c \<and> byte c < 128"
  shows "strip_one space_seqs s = None" and "strip_one (map rev space_seqs) s = None"
proof -
  have "list_all (\<lambda>p. byte (hd p) < 33 \<or> 128 \<le> byte (hd p)) space_seqs"
    "list_all (\<lambda>p. byte (hd p) < 33 \<or> 128 \<le> byte (hd p)) (map rev space_seqs)"
    by (simp_all add: space_seqs_def bytes_def upt_rec)
  moreover have "\<not> prefix p s" if "p \<noteq> []" "byte (hd p) < 33 \<or> 128 \<le> byte (hd p)" for p
    using that assms by (cases p) (auto simp: prefix_def)
  ultimately show "strip_one space_seqs s = None" and "strip_one (map rev space_seqs) s = None"
    unfolding strip_one_None_iff list_all_iff by blast+
qed

lemma trim_space_printable:
  assumes "\<forall>c \<in> set s. 33 \<le> byte c \<and> byte c < 128"
  shows "trim_space s = s"
  using strip_one_no_space [OF assms] strip_one_no_space(2) [of "rev s"] assms
  by (simp add: trim_space_def trim_left_def trim_right_def trim_seqs_fixed)

lemma raw_url_encode_printable: "\<forall>c \<in> set (raw_url_encode s). 33 \<le> byte c \<and> byte c < 128"
proof -
  have "\<forall>n \<in> set (split_octets (map of_char s)). n < 64"
    by (rule split_octets_bound) (simp add: of_char_bound)
  then show ?thesis by (auto simp: raw_url_encode_def of_char_sextet_char)
qed

lemma issue_token_trimmed: "trim_space (issue_token k cj sig) = issue_token k cj sig"
  using raw_url_encode_printable
  by (intro trim_space_printable) (auto simp: issue_token_def signing_input_def)

lemma issue_token_nonempty: "issue_token k cj sig \<noteq> []"
  by (simp add: issue_token_def)

lemma split_issue_token:
  "split_on (CHR ''.'') (issue_token k cj sig) =
     [raw_url_encode (marshal (header_json k)), raw_url_encode (marshal cj), raw_url_encode sig]"
  using raw_url_encode_no_dot
  by (simp add: issue_token_def signing_input_def split_on_append split_on_single)

lemma verify_issued:
  assumes "utf8_ok k" and "k \<noteq> []" and "claims_writable cl auds"
  defines "cj \<equiv> claims_json cl auds"
  shows "verify cr ck reply (bearer_prefix @ issue_token k cj sig) v =
     (case key_for ck reply k v of
        (v', Inl e) \<Rightarrow> (v', Inl (InvalidTokenKey e))
      | (v', Inr key) \<Rightarrow>
          (v', if pkcs1v15 cr key (sha256 cr (signing_input k cj)) sig
                  \<and> issuer cl = config_issuer (config v) \<and> claim_subject cl \<noteq> []
                  \<and> unix_seconds (at_claims ck) < expires cl
                  \<and> (not_before cl = 0 \<or> not_before cl \<le> unix_seconds (at_claims ck))
                  \<and> config_audience (config v) \<in> set auds
               then Inr (principal_of cl) else Inl InvalidToken))"
proof -
  have aud: "has_audience (Some (JArr (map JStr auds))) x \<longleftrightarrow> x \<in> set auds" for x
    by (simp add: has_audience_def string_elems_map)
  have p: "principal_of (cl\<lparr>audience := a\<rparr>) = principal_of cl" for a
    by (simp add: principal_of_def)
  obtain v' r where key: "key_for ck reply k v = (v', r)" by fastforce
  then have cfg: "config v' = config v" using key_for_result(1) [OF key] by auto
  have segments: "decode_segment header_fields (raw_url_encode (marshal (header_json k))) empty_header
        = Inr \<lparr>algorithm = ''RS256'', kid = k\<rparr>"
    "decode_segment claim_fields (raw_url_encode (marshal cj)) empty_claims
        = Inr (cl\<lparr>audience := Some (JArr (map JStr auds))\<rparr>)"
    using assms by (simp_all add: decode_segment_encoded header_writable header_decoded
        claims_json_writable claims_decoded)
  have shape: "has_prefix (bearer_prefix @ issue_token k cj sig) bearer_prefix"
    "trim_space (trim_prefix (bearer_prefix @ issue_token k cj sig) bearer_prefix) = issue_token k cj sig"
    by (simp_all add: issue_token_trimmed)
  show ?thesis
    using assms(2)
    by (cases r) (simp_all add: verify_def shape issue_token_trimmed issue_token_nonempty split_issue_token segments
        raw_url_round_trip key cfg claims_valid_def aud p signing_input_def)
qed

text \<open>A small instance, for the witnesses.\<close>

definition sample_crypto :: crypto where
  "sample_crypto = \<lparr>sha256 = id, pkcs1v15 = \<lambda>key d sig. sig = ''ok''\<rparr>"

definition sample_claims :: access_claims where
  "sample_claims =
     \<lparr>issuer = ''i'', claim_subject = ''s'', audience = None, expires = 50, not_before = 0,
      preferred_username = ''u'', realm_roles = [''noapp-viewer'']\<rparr>"

definition sample_verifier :: verifier where
  "sample_verifier =
     \<lparr>config = \<lparr>config_issuer = ''i'', config_jwks_url = ''j'', config_audience = ''a''\<rparr>,
      keys = [''k'' \<mapsto> \<lparr>modulus = 7, exponent = 3\<rparr>], fetched = 0\<rparr>"

definition sample_clock :: clock where
  "sample_clock = \<lparr>at_lookup = 9, at_refresh = 9, at_claims = 9\<rparr>"

definition sample_authorization :: string where
  "sample_authorization =
     bearer_prefix @ issue_token ''k'' (claims_json sample_claims [''b'', ''a'']) ''ok''"

definition sample_principal :: principal where
  "sample_principal =
     \<lparr>subject = ''s'', username = ''u'', roles = [''noapp-viewer''], expires_at = 50 * second\<rparr>"

lemmas sample_defs = sample_crypto_def sample_claims_def sample_verifier_def sample_clock_def
  sample_authorization_def sample_principal_def

lemma sample_ok: "utf8_ok ''k''" "claims_writable sample_claims [''b'', ''a'']"
  by (auto simp: sample_claims_def claims_writable_def in_int64_def intro: utf8_ok_ascii)

lemma sample_key:
  "key_for sample_clock reply ''k'' sample_verifier = (sample_verifier, Inr \<lparr>modulus = 7, exponent = 3\<rparr>)"
  by (rule key_for_cached) (simp_all add: sample_defs duration_defs)

lemma sample_verified:
  "verify sample_crypto sample_clock reply sample_authorization sample_verifier
    = (sample_verifier, Inr sample_principal)"
  using verify_issued [OF sample_ok(1) _ sample_ok(2), of sample_crypto sample_clock reply "''ok''" sample_verifier]
  by (simp add: sample_key sample_authorization_def)
    (simp add: sample_defs principal_of_def unix_seconds_def duration_defs)

section \<open>Properties\<close>

text \<open>C21. On a token an issuer made (header and claims as JSON objects, base64, a signature) the
  verifier's answer is decided by the key lookup, the signature check and the claims alone, and
  when all pass it is exactly the principal the claims describe: issuing and verifying is a round
  trip through the JSON writer and reader, base64, the segment splitting and the struct decoding.\<close>

theorem verify_issued_token:
  assumes "utf8_ok k" and "k \<noteq> []" and "claims_writable cl auds"
  shows "verify cr ck reply (bearer_prefix @ issue_token k (claims_json cl auds) sig) v =
     (case key_for ck reply k v of
        (v', Inl e) \<Rightarrow> (v', Inl (InvalidTokenKey e))
      | (v', Inr key) \<Rightarrow>
          (v', if pkcs1v15 cr key (sha256 cr (signing_input k (claims_json cl auds))) sig
                  \<and> issuer cl = config_issuer (config v) \<and> claim_subject cl \<noteq> []
                  \<and> unix_seconds (at_claims ck) < expires cl
                  \<and> (not_before cl = 0 \<or> not_before cl \<le> unix_seconds (at_claims ck))
                  \<and> config_audience (config v) \<in> set auds
               then Inr (principal_of cl) else Inl InvalidToken))"
  by (rule verify_issued [OF assms])

theorem verify_issued_token_witness:
  "verify sample_crypto sample_clock NoReply
      (bearer_prefix @ issue_token ''k'' (claims_json sample_claims [''b'', ''a'']) ''ok'') sample_verifier
    = (sample_verifier, Inr sample_principal)"
  using verify_issued_token
    [OF sample_ok(1) _ sample_ok(2), of sample_crypto sample_clock NoReply "''ok''" sample_verifier]
  by (simp add: sample_key) (simp add: sample_defs principal_of_def unix_seconds_def duration_defs)

text \<open>C6. Soundness: whatever the header string, the verifier returns a principal only for a bearer
  token of three segments whose header asks for RS256 and names a key of the cache, whose
  signature that key verifies over the first two segments, and whose claims carry the configured
  issuer and audience, a subject, an expiry in the future and no start in the future; the
  principal is the one these claims describe.\<close>

theorem verify_sound:
  assumes "verify cr ck reply a v = (v', Inr p)"
  shows "\<exists>rest p0 p1 p2 h cl sig key.
    a = bearer_prefix @ rest \<and> trim_space rest = p0 @ CHR ''.'' # p1 @ CHR ''.'' # p2
    \<and> decode_segment header_fields p0 empty_header = Inr h \<and> algorithm h = ''RS256''
    \<and> decode_segment claim_fields p1 empty_claims = Inr cl \<and> raw_url_decode p2 = Some sig
    \<and> keys v' (kid h) = Some key \<and> pkcs1v15 cr key (sha256 cr (p0 @ CHR ''.'' # p1)) sig
    \<and> issuer cl = config_issuer (config v) \<and> has_audience (audience cl) (config_audience (config v))
    \<and> claim_subject cl \<noteq> [] \<and> unix_seconds (at_claims ck) < expires cl
    \<and> (not_before cl = 0 \<or> not_before cl \<le> unix_seconds (at_claims ck))
    \<and> p = principal_of cl"
  using assms
proof (cases rule: verify_Inr)
  case (1 p0 p1 p2 h cl sig key)
  from 1(1) obtain rest where rest: "a = bearer_prefix @ rest"
    by (auto simp: has_prefix_def prefix_def)
  have "join_on (CHR ''.'') (split_on (CHR ''.'') (trim_space rest)) = trim_space rest"
    by (rule join_split)
  then have "trim_space rest = join_on (CHR ''.'') [p0, p1, p2]"
    using 1(2) rest by (simp del: join_split)
  then have "trim_space rest = p0 @ CHR ''.'' # p1 @ CHR ''.'' # p2" by simp
  with rest 1 claims_valid_facts [OF 1(11)] show ?thesis by blast
qed

theorem verify_sound_witness:
  "\<exists>rest. sample_authorization = bearer_prefix @ rest
    \<and> (\<exists>p0 p1 p2. trim_space rest = p0 @ CHR ''.'' # p1 @ CHR ''.'' # p2)"
  using verify_sound [OF sample_verified] by blast

text \<open>The key cache: a cached key less than five minutes old is used without asking the key
  server, whatever it would reply; in every other case the verifier asks, and then either the
  reply is an acceptable key document, which replaces the whole cache and decides, or nothing of
  the verifier changes and the lookup fails, even for a key that was cached before.\<close>

theorem key_for_cases:
  "key_for ck reply k v =
     (if keys v k \<noteq> None \<and> at_lookup ck - fetched v < 5 * minute then (v, Inr (the (keys v k)))
      else case reply of
             NoReply \<Rightarrow> (v, Inl RequestFailed)
           | Reply status body \<Rightarrow>
               if status \<noteq> 200 then (v, Inl (UnexpectedStatus status))
               else case document_keys body of
                      Some ks \<Rightarrow>
                        (v\<lparr>keys := ks, fetched := at_refresh ck\<rparr>,
                         case ks k of None \<Rightarrow> Inl (NoKeyFor k) | Some key \<Rightarrow> Inr key)
                    | None \<Rightarrow>
                        (v, Inl (case decode_document body of Inl e \<Rightarrow> BadDocument e | Inr _ \<Rightarrow> NoSigningKeys)))"
proof (cases "keys v k \<noteq> None \<and> at_lookup ck - fetched v < 5 * minute")
  case True
  then show ?thesis by (auto simp: key_for_cached)
next
  case False
  then have "keys v k = None \<or> 5 * minute \<le> at_lookup ck - fetched v" by auto
  then show ?thesis
    using False by (auto simp: key_for_refreshed refresh_def document_keys_def Let_def
        split: jwks_reply.split sum.split)
qed

text \<open>A service verifies many tokens, one after the other, with the same verifier.\<close>

type_synonym verify_call = "clock \<times> jwks_reply \<times> string"

fun verify_all :: "crypto \<Rightarrow> verify_call list \<Rightarrow> verifier \<Rightarrow> verifier" where
  "verify_all cr [] v = v"
| "verify_all cr ((ck, reply, a) # calls) v = verify_all cr calls (fst (verify cr ck reply a v))"

lemma document_keys_origin:
  assumes "document_keys body = Some ks" and "ks k = Some key"
  obtains js j where "decode_document body = Inr js" and "j \<in> set js" and "jwk_kid j = k"
    and "key_of_jwk j = Some key"
proof -
  from assms(1) obtain js where js: "decode_document body = Inr js" "ks = collect_keys js Map.empty"
    by (auto simp: document_keys_def split: sum.splits if_splits)
  from assms(2) js(2) obtain j where "j \<in> set js" "jwk_kid j = k" "key_of_jwk j = Some key"
    using collect_keys_origin [of js Map.empty k key] by auto
  with js(1) that show ?thesis by blast
qed

lemma verify_all_keys:
  "keys (verify_all cr calls v) k = Some key \<Longrightarrow>
     keys v k = Some key \<or>
     (\<exists>ck body a ks. (ck, Reply 200 body, a) \<in> set calls \<and> document_keys body = Some ks \<and> ks k = Some key)"
proof (induction cr calls v rule: verify_all.induct)
  case (2 cr ck reply a calls v)
  let ?v = "fst (verify cr ck reply a v)"
  have "verify cr ck reply a v = (?v, snd (verify cr ck reply a v))" by simp
  from verify_state [OF this] 2 show ?case by fastforce
qed simp

text \<open>C22. Provenance of the signing keys: in every state a verifier made by \<open>NewVerifier\<close> can reach,
  each cached key was listed, under its own non-empty key ID, as an RSA signature key in a key
  document the server returned with status 200 to one of the verifications.\<close>

theorem cached_key_provenance:
  assumes "new_verifier c = Some v" and "keys (verify_all cr calls v) k = Some key"
  shows "k \<noteq> [] \<and> (\<exists>ck body a js j.
      (ck, Reply 200 body, a) \<in> set calls \<and> decode_document body = Inr js \<and> j \<in> set js
      \<and> jwk_kid j = k \<and> jwk_kty j = ''RSA'' \<and> (jwk_use j = [] \<or> jwk_use j = ''sig'')
      \<and> key_of_jwk j = Some key)"
proof -
  have "keys v k = None"
    using assms(1) by (auto simp: new_verifier_def split: if_splits)
  with verify_all_keys [OF assms(2)] obtain ck body a ks where
    call: "(ck, Reply 200 body, a) \<in> set calls" and ks: "document_keys body = Some ks" "ks k = Some key"
    by auto
  from ks obtain js j where "decode_document body = Inr js" "j \<in> set js" "jwk_kid j = k"
    "key_of_jwk j = Some key" by (rule document_keys_origin)
  with call key_of_jwk_Some show ?thesis by metis
qed

definition sample_document :: string where
  "sample_document = marshal (JObj [(''keys'', JArr [JObj [(''kid'', JStr ''k''), (''kty'', JStr ''RSA''),
     (''use'', JStr ''sig''), (''n'', JStr ''Bw''), (''e'', JStr ''Aw'')]])])"

lemma sample_document_keys:
  "document_keys sample_document = Some [''k'' \<mapsto> \<lparr>modulus = 7, exponent = 3\<rparr>]"
proof -
  let ?j = "\<lparr>jwk_kid = ''k'', jwk_kty = ''RSA'', jwk_use = ''sig'', jwk_n = ''Bw'', jwk_e = ''Aw''\<rparr>"
  have "decode_document sample_document = Inr [?j]"
    by (simp add: decode_document_def sample_document_def decode_first_marshal max_nesting_def
        utf8_ok_ascii decode_struct_def find_field_def field_def jwk_fields_def empty_jwk_def
        del: marshal.simps)
  moreover have "raw_url_decode ''Bw'' = Some (bytes [7])" "raw_url_decode ''Aw'' = Some (bytes [3])"
    by (simp_all add: raw_url_decode_def sextet_of_def is_newline_def)
  then have "key_of_jwk ?j = Some \<lparr>modulus = 7, exponent = 3\<rparr>"
    by (simp add: key_of_jwk_def be_nat_def bytes_def low_int64_def)
  ultimately show ?thesis by (simp add: document_keys_def)
qed

theorem cached_key_provenance_witness:
  "\<exists>v js j. new_verifier (config sample_verifier) = Some v \<and> keys v = Map.empty
    \<and> keys (verify_all sample_crypto [(sample_clock, Reply 200 sample_document, sample_authorization)] v) ''k''
        = Some \<lparr>modulus = 7, exponent = 3\<rparr>
    \<and> decode_document sample_document = Inr js \<and> j \<in> set js \<and> jwk_kid j = ''k'' \<and> jwk_kty j = ''RSA''
    \<and> key_of_jwk j = Some \<lparr>modulus = 7, exponent = 3\<rparr>"
proof -
  let ?c = "config sample_verifier"
  let ?v = "\<lparr>config = ?c, keys = Map.empty, fetched = zero_time\<rparr>"
  let ?key = "\<lparr>modulus = 7, exponent = 3\<rparr>"
  let ?v' = "?v\<lparr>keys := [''k'' \<mapsto> ?key], fetched := at_refresh sample_clock\<rparr>"
  let ?calls = "[(sample_clock, Reply 200 sample_document, sample_authorization)]"
  have new: "new_verifier ?c = Some ?v" by (simp add: new_verifier_def sample_verifier_def)
  have key: "key_for sample_clock (Reply 200 sample_document) ''k'' ?v = (?v', Inr ?key)"
    by (cases rule: refresh_cases [of "at_refresh sample_clock" "Reply 200 sample_document" ?v])
      (auto simp: key_for_refreshed sample_document_keys)
  have cached: "keys (verify_all sample_crypto ?calls ?v) ''k'' = Some ?key"
    using verify_issued [OF sample_ok(1) _ sample_ok(2), of sample_crypto sample_clock
        "Reply 200 sample_document" "''ok''" ?v]
    by (simp add: key sample_authorization_def)
  from cached_key_provenance [OF new cached] obtain js j where "decode_document sample_document = Inr js"
    "j \<in> set js" "jwk_kid j = ''k''" "jwk_kty j = ''RSA''" "key_of_jwk j = Some ?key"
    by auto
  with new cached show ?thesis by (intro exI [of _ ?v]) auto
qed

lemma claim_subject_utf8:
  assumes "decode_segment claim_fields segment empty_claims = Inr cl"
  shows "utf8_ok (claim_subject cl)"
proof -
  from assms obtain p v where v: "unmarshal p = Some v" "decode_struct False claim_fields v empty_claims = Inr cl"
    by (auto simp: decode_segment_def split: option.splits)
  have "\<forall>st \<in> snd ` set claim_fields. setter_keeps (\<lambda>c. utf8_ok (claim_subject c)) st"
    by (auto simp: claim_fields_def realm_fields_def dest: as_string_utf8
        intro!: setter_keeps_field setter_keeps_struct)
  from decode_struct_keeps [OF this v(2) unmarshal_utf8 [OF v(1)]] utf8_ok.simps [of "[]"]
  show ?thesis by (simp add: empty_claims_def)
qed

section \<open>The verifier as an interface\<close>

type_synonym ('e, 's) verify_fun = "'e \<Rightarrow> string \<Rightarrow> 's \<Rightarrow> 's \<times> (auth_error + principal)"

text \<open>
  The REST API and the realtime gateway see of the verifier only this: a call may change the
  verifier's state but keeps it trustworthy, and a principal comes out only for a bearer token,
  has a subject, and is not yet expired.
\<close>

locale authenticator =
  fixes ver :: "('e, 's) verify_fun"
    and now_of :: "'e \<Rightarrow> instant"
    and trusted :: "'s \<Rightarrow> bool"
  assumes trusted_step: "trusted s \<Longrightarrow> ver e a s = (s', r) \<Longrightarrow> trusted s'"
    and needs_bearer: "ver e a s = (s', Inr p) \<Longrightarrow> has_prefix a bearer_prefix"
    and has_subject: "ver e a s = (s', Inr p) \<Longrightarrow> subject p \<noteq> []"
    and subject_text: "ver e a s = (s', Inr p) \<Longrightarrow> utf8_ok (subject p)"
    and not_expired: "ver e a s = (s', Inr p) \<Longrightarrow> unix_seconds (now_of e) < unix_seconds (expires_at p)"
begin

lemma no_bearer_refused:
  assumes "\<not> has_prefix a bearer_prefix"
  shows "\<exists>err. snd (ver e a s) = Inl err"
  using assms needs_bearer [of e a s "fst (ver e a s)"] by (cases "snd (ver e a s)") (auto simp: prod_eq_iff)

end

definition complete_config :: "verifier \<Rightarrow> bool" where
  "complete_config v \<longleftrightarrow> config_issuer (config v) \<noteq> [] \<and> config_audience (config v) \<noteq> []"

definition call_verify :: "crypto \<Rightarrow> clock \<times> jwks_reply \<Rightarrow> string \<Rightarrow> verifier \<Rightarrow> verifier \<times> (auth_error + principal)" where
  "call_verify cr e a v = verify cr (fst e) (snd e) a v"

interpretation jwt: authenticator "call_verify cr" "\<lambda>e. at_claims (fst e)" complete_config for cr
proof
  fix e a v v' r
  assume "complete_config v" and "call_verify cr e a v = (v', r)"
  then show "complete_config v'"
    using verify_config by (auto simp: call_verify_def complete_config_def)
next
  fix e a v v' p
  assume "call_verify cr e a v = (v', Inr p)"
  then have ver: "verify cr (fst e) (snd e) a v = (v', Inr p)" by (simp add: call_verify_def)
  then show "has_prefix a bearer_prefix" by (rule verify_Inr)
  from ver obtain cl' where "p = principal_of cl'" "\<exists>seg. decode_segment claim_fields seg empty_claims = Inr cl'"
    by (metis verify_Inr)
  then show "utf8_ok (subject p)" using claim_subject_utf8 by (auto simp: principal_of_def)
  from ver obtain cl where p: "p = principal_of cl"
    and "claims_valid (config v) (unix_seconds (at_claims (fst e))) cl" by (rule verify_Inr)
  from claims_valid_facts [OF this(2)] p
  show "subject p \<noteq> []" and "unix_seconds (at_claims (fst e)) < unix_seconds (expires_at p)"
    by (simp_all add: principal_of_def unix_seconds_def duration_defs)
qed

end
