(* ===== verification/App.thy ===== *)
theory App
  imports Auth Database Http
begin

text \<open>
  \<open>internal/app/server.go\<close>: the REST API. A request runs through the request logger, the
  multiplexer, the authorization of everything under \<open>/api/\<close> but the health and configuration
  endpoints, a second multiplexer and the handler. A handler takes the environment of the request
  (clock readings, random values, what the network does to each statement) and the database, and
  yields the database, the reply and the log lines in order; a line is its level and message.
  Handlers run one after another: the row lock of the update and the transactions serialise them.
\<close>

section \<open>Environment\<close>

datatype query_fault = QueryOk | QueryFails string | ScanFails string | RowsFail string

record env =
  ev_now :: instant                        \<comment> \<open>the transaction's \<open>now()\<close>\<close>
  ev_clock :: instant                      \<comment> \<open>\<open>time.Now()\<close> when the event is made\<close>
  ev_uuid :: string
  ev_carrier :: "string \<rightharpoonup> string"
  ev_random :: "string option"             \<comment> \<open>eight random bytes, unless the reader fails\<close>
  ev_nanos :: int64                        \<comment> \<open>\<open>time.Now().UnixNano()\<close>\<close>
  ev_collate :: "string \<Rightarrow> nat list"
  ev_unicode_lower :: "string \<Rightarrow> string"  \<comment> \<open>\<open>strings.ToLower\<close> on text that is not ASCII\<close>
  ev_explain :: "json_error \<Rightarrow> string"      \<comment> \<open>the words of the JSON decoder\<close>
  ev_ping :: "string option"
  ev_query :: query_fault
  ev_begin :: "string option"
  ev_stmt :: fault
  ev_event :: fault
  ev_commit :: fault

section \<open>Replies\<close>

definition write_json :: "nat \<Rightarrow> json option \<Rightarrow> reply" where
  "write_json c v = json_reply ''application/json; charset=utf-8'' c v"

definition error_level :: "nat \<Rightarrow> level" where
  "error_level c = (if 500 \<le> c then Error else Warn)"

type_synonym response = "reply \<times> log list"

definition write_error :: "nat \<Rightarrow> string \<Rightarrow> response" where
  "write_error c msg =
     (write_json c (Some (JObj [(''error'', JStr msg)])), [(error_level c, msg)])"

definition write_ok :: "nat \<Rightarrow> string \<Rightarrow> json option \<Rightarrow> response" where
  "write_ok c msg v = (write_json c v, [(Info, msg)])"

section \<open>Input\<close>

definition max_body :: nat where "max_body = 2 ^ 20"

definition decode_json :: "env \<Rightarrow> 'r fields \<Rightarrow> string \<Rightarrow> 'r \<Rightarrow> response + 'r" where
  "decode_json e fs text r =
     (case (case decode_first (take max_body text) of
              None \<Rightarrow> Inl SyntaxError | Some v \<Rightarrow> decode_struct True fs v r) of
        Inl err \<Rightarrow> Inl (write_error 400 (''invalid JSON: '' @ ev_explain e err))
      | Inr x \<Rightarrow> Inr x)"

definition path_id :: "string list \<Rightarrow> response + int64" where
  "path_id wild =
     (case parse_int64 (case wild of [] \<Rightarrow> [] | s # _ \<Rightarrow> s) of
        None \<Rightarrow> Inl (write_error 400 ''invalid id'')
      | Some i \<Rightarrow> if i < 1 then Inl (write_error 400 ''invalid id'') else Inr i)"

definition valid_status :: "string \<Rightarrow> bool" where
  "valid_status s \<longleftrightarrow> s = ''todo'' \<or> s = ''in_progress'' \<or> s = ''done''"

definition is_reference_error :: "string \<Rightarrow> bool" where
  "is_reference_error err = contains err ''foreign key constraint''"

record user_input = in_name :: string  in_email :: string
record project_input = in_title :: string  in_description :: string
record task_input =
  in_task_title :: string
  in_task_description :: string
  in_assignee :: "int64 option"
  in_task_status :: string
record status_input = in_status :: string

definition user_fields :: "user_input fields" where
  "user_fields = [(''name'', field as_string in_name_update), (''email'', field as_string in_email_update)]"

definition project_fields :: "project_input fields" where
  "project_fields =
     [(''name'', field as_string in_title_update), (''description'', field as_string in_description_update)]"

definition task_input_fields :: "task_input fields" where
  "task_input_fields =
     [(''title'', field as_string in_task_title_update),
      (''description'', field as_string in_task_description_update),
      (''assignee_id'', field as_int64_ptr in_assignee_update),
      (''status'', field as_string in_task_status_update)]"

definition status_fields :: "status_input fields" where
  "status_fields = [(''status'', field as_string in_status_update)]"

section \<open>Output\<close>

definition user_json :: "user_row \<Rightarrow> json option" where
  "user_json u =
     map_option (\<lambda>t. JObj [(''id'', json_int (usr_id u)), (''name'', JStr (usr_name u)),
       (''email'', JStr (usr_email u)), (''created_at'', JStr t)]) (format_time (usr_created u))"

definition project_json :: "project_row \<times> int64 \<Rightarrow> json option" where
  "project_json pc =
     (case pc of (p, n) \<Rightarrow>
        map_option (\<lambda>t. JObj [(''id'', json_int (prj_id p)), (''name'', JStr (prj_name p)),
          (''description'', JStr (prj_description p)), (''created_at'', JStr t),
          (''task_count'', json_int n)]) (format_time (prj_created p)))"

definition task_json :: "task \<Rightarrow> json option" where
  "task_json t = map_option JObj (task_members t)"

fun all_json :: "('a \<Rightarrow> json option) \<Rightarrow> 'a list \<Rightarrow> json list option" where
  "all_json f [] = Some []"
| "all_json f (x # xs) =
     (case (f x, all_json f xs) of (Some v, Some vs) \<Rightarrow> Some (v # vs) | _ \<Rightarrow> None)"

definition array_json :: "('a \<Rightarrow> json option) \<Rightarrow> 'a list \<Rightarrow> json option" where
  "array_json f xs = map_option JArr (all_json f xs)"

section \<open>Reading handlers\<close>

definition health :: "env \<Rightarrow> response" where
  "health e =
     (case ev_ping e of
        Some err \<Rightarrow> write_error 503 ''database is unavailable''
      | None \<Rightarrow> write_ok 200 ''health check completed''
          (Some (JObj [(''database'', JStr ''ok''), (''status'', JStr ''ok'')])))"

text \<open>What reading all rows of a query gives: the rows, or the number of the failing call. Scanning
  can only fail on a row.\<close>

definition read_rows :: "query_fault \<Rightarrow> 'a list \<Rightarrow> nat + 'a list" where
  "read_rows f rows =
     (case f of QueryOk \<Rightarrow> Inr rows
      | QueryFails err \<Rightarrow> Inl 0
      | ScanFails err \<Rightarrow> if rows = [] then Inr [] else Inl 1
      | RowsFail err \<Rightarrow> Inl 2)"

definition list_users :: "env \<Rightarrow> db \<Rightarrow> response" where
  "list_users e d =
     (case read_rows (ev_query e) (select_users (ev_collate e) d) of
        Inl n \<Rightarrow> write_error 500
          ([''could not load users'', ''could not read users'', ''could not finish loading users''] ! n)
      | Inr us \<Rightarrow> write_ok 200 ''users listed'' (array_json user_json us))"

definition list_projects :: "env \<Rightarrow> db \<Rightarrow> response" where
  "list_projects e d =
     (case read_rows (ev_query e) (select_projects d) of
        Inl n \<Rightarrow> write_error 500
          ([''could not load projects'', ''could not read projects'', ''could not finish loading projects''] ! n)
      | Inr ps \<Rightarrow> write_ok 200 ''projects listed'' (array_json project_json ps))"

definition list_tasks :: "env \<Rightarrow> string list \<Rightarrow> db \<Rightarrow> response" where
  "list_tasks e wild d =
     (case path_id wild of
        Inl r \<Rightarrow> r
      | Inr pid \<Rightarrow>
          (case read_rows (ev_query e) (select_tasks pid d) of
             Inl n \<Rightarrow> write_error 500
               ([''could not load tasks'', ''could not read tasks'', ''could not finish loading tasks''] ! n)
           | Inr ts \<Rightarrow> write_ok 200 ''project tasks listed'' (array_json task_json ts)))"

section \<open>Writing handlers\<close>

definition create_user :: "env \<Rightarrow> string \<Rightarrow> db \<Rightarrow> db \<times> response" where
  "create_user e text d =
     (case decode_json e user_fields text \<lparr>in_name = [], in_email = []\<rparr> of
        Inl r \<Rightarrow> (d, r)
      | Inr inp \<Rightarrow>
          let name = trim_space (in_name inp);
              email = to_lower (ev_unicode_lower e) (trim_space (in_email inp)) in
          if name = [] \<or> email = [] \<or> \<not> contains email ''@''
          then (d, write_error 400 ''name and a valid email are required'')
          else (case run_stmt (ev_stmt e) (insert_user (ev_now e) name email) d of
             (d', Inl err) \<Rightarrow>
               (d', if contains err ''users_email_key''
                    then write_error 409 ''a user with that email already exists''
                    else write_error 500 ''could not create user'')
           | (d', Inr u) \<Rightarrow> (d', write_ok 201 ''user created'' (user_json u))))"

definition create_project :: "env \<Rightarrow> string \<Rightarrow> db \<Rightarrow> db \<times> response" where
  "create_project e text d =
     (case decode_json e project_fields text \<lparr>in_title = [], in_description = []\<rparr> of
        Inl r \<Rightarrow> (d, r)
      | Inr inp \<Rightarrow>
          let name = trim_space (in_title inp); desc = trim_space (in_description inp) in
          if name = [] then (d, write_error 400 ''project name is required'')
          else (case run_stmt (ev_stmt e) (insert_project (ev_now e) name desc) d of
             (d', Inl err) \<Rightarrow> (d', write_error 500 ''could not create project'')
           | (d', Inr p) \<Rightarrow> (d', write_ok 201 ''project created'' (project_json (p, 0)))))"

text \<open>
  The two transactions. A fault of the statement or of the event insert leads to the deferred
  rollback, which restores \<open>d\<close>.
\<close>

definition record_event :: "env \<Rightarrow> string \<Rightarrow> string \<Rightarrow> task \<Rightarrow> string \<Rightarrow> response \<Rightarrow> db \<Rightarrow> db \<Rightarrow> db \<times> response" where
  "record_event e etype subj t commit_error good start work =
     (case run_stmt (ev_event e)
             (insert_outbox (ev_now e) (new_task_event (ev_carrier e) (ev_uuid e) (ev_clock e) etype subj t)) work of
        (work', Inl err) \<Rightarrow> (rolled_back start work', write_error 500 ''could not record task event'')
      | (work', Inr _) \<Rightarrow>
          (case commit (ev_commit e) start work' of
             (d', Inl err) \<Rightarrow> (d', write_error 500 commit_error)
           | (d', Inr _) \<Rightarrow> (d', good)))"

definition create_task :: "env \<Rightarrow> string \<Rightarrow> string list \<Rightarrow> string \<Rightarrow> db \<Rightarrow> db \<times> response" where
  "create_task e subj wild text d =
     (case path_id wild of
        Inl r \<Rightarrow> (d, r)
      | Inr pid \<Rightarrow>
     (case decode_json e task_input_fields text
             \<lparr>in_task_title = [], in_task_description = [], in_assignee = None, in_task_status = []\<rparr> of
        Inl r \<Rightarrow> (d, r)
      | Inr inp \<Rightarrow>
          let titl = trim_space (in_task_title inp); desc = trim_space (in_task_description inp);
              st = (if in_task_status inp = [] then ''todo'' else in_task_status inp) in
          if titl = [] \<or> \<not> valid_status st
          then (d, write_error 400 ''title is required and status must be todo, in_progress, or done'')
          else if ev_begin e \<noteq> None then (d, write_error 500 ''could not begin task creation'')
          else (case run_stmt (ev_stmt e) (insert_task (ev_now e) pid (in_assignee inp) titl desc st) d of
             (work, Inl err) \<Rightarrow>
               (rolled_back d work,
                if is_reference_error err then write_error 400 ''project or assignee does not exist''
                else write_error 500 ''could not create task'')
           | (work, Inr t) \<Rightarrow>
               record_event e task_created subj t ''could not commit task creation''
                 (write_ok 201 ''task created'' (task_json t)) d work)))"

definition update_task_status :: "env \<Rightarrow> string \<Rightarrow> string list \<Rightarrow> string \<Rightarrow> db \<Rightarrow> db \<times> response" where
  "update_task_status e subj wild text d =
     (case path_id wild of
        Inl r \<Rightarrow> (d, r)
      | Inr tid \<Rightarrow>
     (case decode_json e status_fields text \<lparr>in_status = []\<rparr> of
        Inl r \<Rightarrow> (d, r)
      | Inr inp \<Rightarrow>
          if \<not> valid_status (in_status inp)
          then (d, write_error 400 ''status must be todo, in_progress, or done'')
          else if ev_begin e \<noteq> None then (d, write_error 500 ''could not begin task status change'')
          else (case run_stmt (ev_stmt e) (update_status (ev_now e) (in_status inp) tid) d of
             (work, Inl err) \<Rightarrow> (rolled_back d work, write_error 500 ''could not update task'')
           | (work, Inr None) \<Rightarrow> (rolled_back d work, write_error 404 ''task not found'')
           | (work, Inr (Some t)) \<Rightarrow>
               record_event e task_status_changed subj t ''could not commit task status change''
                 (write_ok 200 ''task status changed'' (task_json t)) d work)))"

section \<open>Routing and authorization\<close>

datatype endpoint =
  ListUsers | CreateUser | ListProjects | CreateProject | ListTasks | CreateTask | UpdateTaskStatus

definition protected :: "endpoint mux" where
  "protected =
     [(''GET /api/users'', ListUsers), (''POST /api/users'', CreateUser),
      (''GET /api/projects'', ListProjects), (''POST /api/projects'', CreateProject),
      (''GET /api/projects/{id}/tasks'', ListTasks), (''POST /api/projects/{id}/tasks'', CreateTask),
      (''PATCH /api/tasks/{id}/status'', UpdateTaskStatus)]"

datatype area = HealthArea | ConfigArea | ApiArea | StaticArea

definition outer :: "area mux" where
  "outer =
     [(''GET /api/health'', HealthArea), (''GET /api/auth/config'', ConfigArea), (''/api/'', ApiArea),
      (''/'', StaticArea)]"

definition run_endpoint :: "env \<Rightarrow> string \<Rightarrow> endpoint \<Rightarrow> string list \<Rightarrow> string \<Rightarrow> db \<Rightarrow> db \<times> response" where
  "run_endpoint e subj ep wild text d =
     (case ep of
        ListUsers \<Rightarrow> (d, list_users e d)
      | CreateUser \<Rightarrow> create_user e text d
      | ListProjects \<Rightarrow> (d, list_projects e d)
      | CreateProject \<Rightarrow> create_project e text d
      | ListTasks \<Rightarrow> (d, list_tasks e wild d)
      | CreateTask \<Rightarrow> create_task e subj wild text d
      | UpdateTaskStatus \<Rightarrow> update_task_status e subj wild text d)"

definition serve_protected :: "env \<Rightarrow> string \<Rightarrow> request \<Rightarrow> db \<Rightarrow> db \<times> response" where
  "serve_protected e subj r d =
     (case mux_find protected (req_method r) (req_path r) of
        Handler s ep wild \<Rightarrow> run_endpoint e subj ep wild (req_body r) d
      | Moved s \<Rightarrow> (d, moved_reply, [])
      | NotAllowed ms \<Rightarrow> (d, not_allowed_reply ms, [])
      | NotFound \<Rightarrow> (d, not_found_reply, []))"

definition required_role :: "string \<Rightarrow> string" where
  "required_role meth =
     (if meth \<noteq> ''GET'' \<and> meth \<noteq> ''HEAD'' \<and> meth \<noteq> ''OPTIONS'' then ''noapp-editor'' else ''noapp-viewer'')"

text \<open>The outcome that \<open>recordAuthDecision\<close> counts and logs.\<close>

datatype decision = Unauthenticated | Forbidden string | Allowed string

definition decide :: "(auth_error + principal) \<Rightarrow> string \<Rightarrow> decision" where
  "decide verified meth =
     (case verified of
        Inl err \<Rightarrow> Unauthenticated
      | Inr p \<Rightarrow> if \<not> has_role p (required_role meth) then Forbidden (subject p) else Allowed (subject p))"

definition decision_log :: log where
  "decision_log = (Info, ''API authorization decision'')"

definition with_header :: "string \<Rightarrow> string \<Rightarrow> response \<Rightarrow> response" where
  "with_header k v resp = (case resp of (r, ls) \<Rightarrow> (r\<lparr>headers := (k, v) # headers r\<rparr>, ls))"

definition after_log :: "log \<Rightarrow> response \<Rightarrow> response" where
  "after_log l resp = (case resp of (r, ls) \<Rightarrow> (r, l # ls))"

definition authorize ::
    "('e, 's) verify_fun \<Rightarrow> 'e \<Rightarrow> env \<Rightarrow> request \<Rightarrow> 's \<times> db \<Rightarrow> ('s \<times> db) \<times> response" where
  "authorize ver ve e r sd =
     (case sd of (s, d) \<Rightarrow>
      (case ver ve (req_authorization r) s of (s', verified) \<Rightarrow>
       (case decide verified (req_method r) of
          Unauthenticated \<Rightarrow>
            ((s', d), after_log decision_log
              (with_header ''WWW-Authenticate'' (''Bearer realm='' @ [CHR 0x22] @ ''noapp'' @ [CHR 0x22])
                (write_error 401 ''authentication required'')))
        | Forbidden subj \<Rightarrow> ((s', d), after_log decision_log (write_error 403 ''insufficient permissions''))
        | Allowed subj \<Rightarrow>
            (case serve_protected e subj r d of
               (d', resp) \<Rightarrow> ((s', d'), after_log decision_log resp)))))"

record auth_ui = ui_issuer :: string  ui_client_id :: string

definition config_reply :: "auth_ui \<Rightarrow> reply" where
  "config_reply ui =
     write_json 200 (Some (JObj [(''issuer'', JStr (ui_issuer ui)), (''client_id'', JStr (ui_client_id ui))]))"

text \<open>\<open>files\<close> stands for the file server over the embedded \<open>web\<close> directory.\<close>

definition dispatch ::
    "('e, 's) verify_fun \<Rightarrow> auth_ui \<Rightarrow> (request \<Rightarrow> reply) \<Rightarrow> 'e \<Rightarrow> env \<Rightarrow> request \<Rightarrow> 's \<times> db
      \<Rightarrow> ('s \<times> db) \<times> response \<times> string" where
  "dispatch ver ui files ve e r sd =
     (case mux_find outer (req_method r) (req_path r) of
        Handler s HealthArea wild \<Rightarrow> (sd, health e, s)
      | Handler s ConfigArea wild \<Rightarrow> (sd, (config_reply ui, []), s)
      | Handler s ApiArea wild \<Rightarrow>
          (case authorize ver ve e r sd of (sd', resp) \<Rightarrow> (sd', resp, s))
      | Handler s StaticArea wild \<Rightarrow> (sd, (files r, []), s)
      | Moved s \<Rightarrow> (sd, (moved_reply, []), s)
      | NotAllowed ms \<Rightarrow> (sd, (not_allowed_reply ms, []), [])
      | NotFound \<Rightarrow> (sd, (not_found_reply, []), []))"

section \<open>The request logger\<close>

definition hex_encode :: "string \<Rightarrow> string" where
  "hex_encode s = concat (map (\<lambda>c. [digit_char (of_char c div 16), digit_char (of_char c mod 16)]) s)"

definition new_request_id :: "env \<Rightarrow> string" where
  "new_request_id e =
     (case ev_random e of None \<Rightarrow> format_int 16 (ev_nanos e) | Some bs \<Rightarrow> hex_encode bs)"

definition request_id :: "env \<Rightarrow> request \<Rightarrow> string" where
  "request_id e r =
     (if req_request_id r = [] \<or> 128 < length (req_request_id r) then new_request_id e
      else req_request_id r)"

definition route_of :: "string \<Rightarrow> string" where
  "route_of pat =
     (if pat = [] then ''unmatched''
      else case cut_at (CHR '' '') pat of (pre, route_only, found) \<Rightarrow> if found then route_only else pat)"

text \<open>What the logger puts on the span, the log line and the two instruments.\<close>

record observation =
  obs_method :: string
  obs_path :: string
  obs_route :: string
  obs_status :: nat
  obs_request_id :: string
  obs_level :: level
  obs_span_name :: string
  obs_span_error :: bool

definition observe :: "env \<Rightarrow> request \<Rightarrow> string \<Rightarrow> nat \<Rightarrow> observation" where
  "observe e r pat c =
     (let c = (if c = 0 then 200 else c) in
      \<lparr>obs_method = req_method r, obs_path = req_path r, obs_route = route_of pat, obs_status = c,
       obs_request_id = request_id e r,
       obs_level = (if 500 \<le> c then Error else if 400 \<le> c then Warn else Info),
       obs_span_name = req_method r @ '' '' @ route_of pat, obs_span_error = (500 \<le> c)\<rparr>)"

definition serve_http ::
    "('e, 's) verify_fun \<Rightarrow> auth_ui \<Rightarrow> (request \<Rightarrow> reply) \<Rightarrow> 'e \<Rightarrow> env \<Rightarrow> request \<Rightarrow> 's \<times> db
      \<Rightarrow> ('s \<times> db) \<times> response \<times> observation" where
  "serve_http ver ui files ve e r sd =
     (case dispatch ver ui files ve e r sd of (sd', resp, pat) \<Rightarrow>
        (case with_header ''X-Request-ID'' (request_id e r) resp of (reply, logs) \<Rightarrow>
           let o' = observe e r pat (code reply)
           in (sd', (reply, logs @ [(obs_level o', ''HTTP request completed'')]), o')))"

end
