(* ===== verification/Board.thy ===== *)
theory Board
  imports App
begin

text \<open>
  What the writing handlers of \<open>internal/app/server.go\<close> do to the board: the transactions are all
  or nothing, every committed change of a task has its event in the outbox, and the events of a
  task number its versions without a gap, the last one carrying the task as it is.
\<close>

section \<open>Transactions\<close>

definition same_tables :: "db \<Rightarrow> db \<Rightarrow> bool" where
  "same_tables d e \<longleftrightarrow>
     users e = users d \<and> projects e = projects d \<and> tasks e = tasks d \<and> outbox e = outbox d"

lemma same_tables_refl [simp]: "same_tables d d"
  by (simp add: same_tables_def)

lemma same_tables_rolled_back [simp]: "same_tables d (rolled_back d w)"
  by (simp add: same_tables_def rolled_back_def)

lemma run_stmt_Inr: "run_stmt f stmt d = (d', Inr x) \<Longrightarrow> stmt d = (d', Inr x)"
  by (auto simp: run_stmt_def split: fault.splits)

lemma commit_cases:
  assumes "commit f start work = (d', r)"
  shows "d' = work \<or> d' = rolled_back start work \<and> (\<exists>err. r = Inl err)"
  using assms by (auto simp: commit_def split: fault.splits)

definition the_event :: "env \<Rightarrow> string \<Rightarrow> string \<Rightarrow> task \<Rightarrow> envelope" where
  "the_event e etype subj t = new_task_event (ev_carrier e) (ev_uuid e) (ev_clock e) etype subj t"

lemma record_event_cases:
  assumes "record_event e etype subj t msg good start work = (d', resp)"
  obtains (undone) w m where "d' = rolled_back start w" "db_ok work \<Longrightarrow> db_ok w \<and> seqs_le work w" "resp = write_error 500 m"
  | (recorded) "insert_outbox (ev_now e) (the_event e etype subj t) work = (d', Inr ())"
      "resp = good \<or> resp = write_error 500 msg"
proof -
  obtain w r where ins: "run_stmt (ev_event e) (insert_outbox (ev_now e) (the_event e etype subj t)) work = (w, r)"
    by fastforce
  have grow: "db_ok work \<Longrightarrow> db_ok w \<and> seqs_le work w"
    using run_stmt_ok [OF ins] insert_outbox_ok by blast
  show thesis
  proof (cases r)
    case (Inl err)
    with assms ins undone [of w] grow show thesis
      by (auto simp: record_event_def the_event_def)
  next
    case (Inr u)
    obtain d2 r2 where com: "commit (ev_commit e) start w = (d2, r2)" by fastforce
    have eq: "d' = d2" "resp = good \<or> resp = write_error 500 msg"
      "\<exists>err. r2 = Inl err \<Longrightarrow> resp = write_error 500 msg"
      using assms ins Inr com by (auto simp: record_event_def the_event_def split: sum.splits)
    from commit_cases [OF com] show thesis
    proof
      assume "d2 = w"
      with recorded eq run_stmt_Inr [OF ins [unfolded Inr]] show thesis by (cases u) auto
    next
      assume "d2 = rolled_back start w \<and> (\<exists>err. r2 = Inl err)"
      with undone [of w] grow eq show thesis by auto
    qed
  qed
qed

text \<open>The input of a task creation after the handler has normalised it.\<close>

definition no_task_input :: task_input where
  "no_task_input =
     \<lparr>in_task_title = [], in_task_description = [], in_assignee = None, in_task_status = []\<rparr>"

definition chosen_status :: "task_input \<Rightarrow> string" where
  "chosen_status inp = (if in_task_status inp = [] then ''todo'' else in_task_status inp)"

definition acceptable :: "task_input \<Rightarrow> bool" where
  "acceptable inp \<longleftrightarrow> trim_space (in_task_title inp) \<noteq> [] \<and> valid_status (chosen_status inp)"

lemma reply_codes [simp]:
  "code (fst (write_error c m)) = c" "code (fst (write_ok c m v)) = c"
  by (simp_all add: write_error_def write_ok_def write_json_def json_reply_def)

lemma path_id_Inl: "path_id wild = Inl r \<Longrightarrow> code (fst r) = 400"
  by (auto simp: path_id_def split: option.splits if_splits)

lemma decode_json_Inl: "decode_json e fs inpt r = Inl resp \<Longrightarrow> code (fst resp) = 400"
  by (auto simp: decode_json_def split: sum.splits)

lemma create_task_cases:
  assumes "create_task e subj wild inpt d = (d', resp)"
  obtains (refused) "d' = d" "code (fst resp) \<in> {400, 500}"
  | (undone) w where "d' = rolled_back d w" "db_ok d \<Longrightarrow> db_ok w \<and> seqs_le d w"
      "code (fst resp) \<in> {400, 500}"
  | (created) pid inp work t where "path_id wild = Inr pid"
      "decode_json e task_input_fields inpt no_task_input = Inr inp" "acceptable inp"
      "insert_task (ev_now e) pid (in_assignee inp) (trim_space (in_task_title inp))
        (trim_space (in_task_description inp)) (chosen_status inp) d = (work, Inr t)"
      "insert_outbox (ev_now e) (the_event e task_created subj t) work = (d', Inr ())"
      "resp = write_ok 201 ''task created'' (task_json t)
        \<or> resp = write_error 500 ''could not commit task creation''"
proof (cases "\<exists>pid inp. path_id wild = Inr pid \<and> decode_json e task_input_fields inpt no_task_input = Inr inp")
  case False
  then have "d' = d" "code (fst resp) = 400"
    using assms
    by (auto simp: create_task_def no_task_input_def [symmetric] dest: path_id_Inl decode_json_Inl
        split: sum.splits)
  with refused show thesis by blast
next
  case True
  then obtain pid inp where pid: "path_id wild = Inr pid"
    and inp: "decode_json e task_input_fields inpt no_task_input = Inr inp" by blast
  note handler = assms [unfolded create_task_def no_task_input_def [symmetric] pid inp sum.case Let_def,
      folded chosen_status_def]
  show thesis
  proof (cases "acceptable inp \<and> ev_begin e = None")
    case False
    then have "d' = d" "code (fst resp) \<in> {400, 500}"
      using handler by (auto simp: acceptable_def split: if_splits)
    with refused show thesis by blast
  next
    case True
    let ?ins = "insert_task (ev_now e) pid (in_assignee inp) (trim_space (in_task_title inp))
      (trim_space (in_task_description inp)) (chosen_status inp)"
    obtain work r where ins: "run_stmt (ev_stmt e) ?ins d = (work, r)" by fastforce
    have ok: "db_ok d \<Longrightarrow> db_ok work \<and> seqs_le d work"
      using run_stmt_ok [OF ins] insert_task_ok by blast
    note guards = True [unfolded acceptable_def]
    show thesis
    proof (cases r)
      case (Inl err)
      then have "d' = rolled_back d work" "code (fst resp) \<in> {400, 500}"
        using handler ins guards by (auto split: if_splits)
      with undone ok show thesis by blast
    next
      case (Inr t)
      have task: "?ins d = (work, Inr t)" using run_stmt_Inr ins Inr by simp
      have "record_event e task_created subj t ''could not commit task creation''
          (write_ok 201 ''task created'' (task_json t)) d work = (d', resp)"
        using handler ins Inr guards by (simp split: if_splits)
      then show thesis
      proof (cases rule: record_event_cases)
        case (undone w m)
        then have "code (fst resp) \<in> {400, 500}" by simp
        with undone that(2) [of w] ok seqs_le_trans show thesis by blast
      next
        case recorded
        with created [OF pid inp _ task] True show thesis by blast
      qed
    qed
  qed
qed

lemma update_task_status_cases:
  assumes "update_task_status e subj wild inpt d = (d', resp)"
  obtains (refused) "d' = d" "code (fst resp) \<in> {400, 500}"
  | (undone) w where "d' = rolled_back d w" "db_ok d \<Longrightarrow> db_ok w \<and> seqs_le d w"
      "code (fst resp) \<in> {404, 500}"
  | (updated) tid inp work t where "path_id wild = Inr tid"
      "decode_json e status_fields inpt \<lparr>in_status = []\<rparr> = Inr inp" "valid_status (in_status inp)"
      "update_status (ev_now e) (in_status inp) tid d = (work, Inr (Some t))"
      "insert_outbox (ev_now e) (the_event e task_status_changed subj t) work = (d', Inr ())"
      "resp = write_ok 200 ''task status changed'' (task_json t)
        \<or> resp = write_error 500 ''could not commit task status change''"
proof (cases "\<exists>tid inp. path_id wild = Inr tid \<and> decode_json e status_fields inpt \<lparr>in_status = []\<rparr> = Inr inp")
  case False
  then have "d' = d" "code (fst resp) = 400"
    using assms by (auto simp: update_task_status_def dest: path_id_Inl decode_json_Inl split: sum.splits)
  with refused show thesis by blast
next
  case True
  then obtain tid inp where tid: "path_id wild = Inr tid"
    and inp: "decode_json e status_fields inpt \<lparr>in_status = []\<rparr> = Inr inp"
    by blast
  note handler = assms [unfolded update_task_status_def tid inp sum.case Let_def]
  show thesis
  proof (cases "\<not> valid_status (in_status inp) \<or> ev_begin e \<noteq> None")
    case True
    then have "d' = d" "code (fst resp) \<in> {400, 500}" using handler by (auto split: if_splits)
    with refused show thesis by blast
  next
    case False
    obtain work r where upd:
      "run_stmt (ev_stmt e) (update_status (ev_now e) (in_status inp) tid) d = (work, r)" by fastforce
    have ok: "db_ok d \<Longrightarrow> db_ok work \<and> seqs_le d work"
      using run_stmt_ok [OF upd] update_status_ok by blast
    show thesis
    proof (cases "\<exists>t. r = Inr (Some t)")
      case False
      then have "d' = rolled_back d work" "code (fst resp) \<in> {404, 500}"
        using handler upd \<open>\<not> (\<not> valid_status (in_status inp) \<or> ev_begin e \<noteq> None)\<close>
        by (auto split: sum.splits option.splits)
      with undone ok show thesis by blast
    next
      case True
      then obtain t where r: "r = Inr (Some t)" by blast
      have task: "update_status (ev_now e) (in_status inp) tid d = (work, Inr (Some t))"
        using run_stmt_Inr upd r by simp
      have "record_event e task_status_changed subj t ''could not commit task status change''
          (write_ok 200 ''task status changed'' (task_json t)) d work = (d', resp)"
        using handler upd r False by (simp split: if_splits)
      then show thesis
      proof (cases rule: record_event_cases)
        case (undone w m)
        then have "code (fst resp) \<in> {404, 500}" by simp
        with undone that(2) [of w] ok seqs_le_trans show thesis by blast
      next
        case recorded
        with updated [OF tid inp _ task] False show thesis by blast
      qed
    qed
  qed
qed

lemma create_user_ok [inv_intros]:
  assumes "db_ok d" and "create_user e inpt d = (d', resp)"
  shows "db_ok d' \<and> seqs_le d d'"
proof -
  have "run_stmt f (insert_user now name email) d = (d', r) \<Longrightarrow> db_ok d' \<and> seqs_le d d'" for f now name email d' r
    using run_stmt_ok [OF _ assms(1)] inv_intros [OF assms(1)] by blast
  with assms show ?thesis
    by (auto simp: create_user_def Let_def split: sum.splits prod.splits if_splits)
qed

lemma create_project_ok [inv_intros]:
  assumes "db_ok d" and "create_project e inpt d = (d', resp)"
  shows "db_ok d' \<and> seqs_le d d'"
proof -
  have "run_stmt f (insert_project now name desc) d = (d', r) \<Longrightarrow> db_ok d' \<and> seqs_le d d'" for f now name desc d' r
    using run_stmt_ok [OF _ assms(1)] inv_intros [OF assms(1)] by blast
  with assms show ?thesis
    by (auto simp: create_project_def Let_def split: sum.splits prod.splits if_splits)
qed

lemma rolled_back_grows: "seqs_le d w \<Longrightarrow> seqs_le d (rolled_back d w)"
  by (simp add: seqs_le_def rolled_back_def)

lemma create_task_ok [inv_intros]:
  assumes "db_ok d" and "create_task e subj wild inpt d = (d', resp)"
  shows "db_ok d' \<and> seqs_le d d'"
  using assms(2)
proof (cases rule: create_task_cases)
  case (undone w)
  then show ?thesis using db_ok_seqs [OF assms(1)] rolled_back_grows assms(1) by blast
next
  case (created pid inp work t)
  then show ?thesis using insert_task_ok [OF assms(1)] insert_outbox_ok seqs_le_trans by blast
qed (use assms(1) in simp)

lemma update_task_status_ok [inv_intros]:
  assumes "db_ok d" and "update_task_status e subj wild inpt d = (d', resp)"
  shows "db_ok d' \<and> seqs_le d d'"
  using assms(2)
proof (cases rule: update_task_status_cases)
  case (undone w)
  then show ?thesis using db_ok_seqs [OF assms(1)] rolled_back_grows assms(1) by blast
next
  case (updated tid inp work t)
  then show ?thesis using update_status_ok [OF assms(1)] insert_outbox_ok seqs_le_trans by blast
qed (use assms(1) in simp)

lemma run_endpoint_ok [inv_intros]:
  assumes "db_ok d" and "run_endpoint e subj ep wild inpt d = (d', resp)"
  shows "db_ok d' \<and> seqs_le d d'"
  using assms(2) inv_intros [OF assms(1)] assms(1)
  by (cases ep) (auto simp: run_endpoint_def)

section \<open>The history of a task\<close>

definition events_of :: "db \<Rightarrow> int64 \<Rightarrow> outbox_row list" where
  "events_of d i = filter (\<lambda>o'. aggregate_id o' = i) (outbox d)"

text \<open>An outbox row carries an event when its payload is a JSON text that decodes to it and its columns
  agree with it.\<close>

definition carries :: "outbox_row \<Rightarrow> envelope \<Rightarrow> bool" where
  "carries r e \<longleftrightarrow>
     writable max_nesting (payload r) \<and> decode_value (payload r) = Inr e \<and> envelope_ok e \<and> event_id e = ob_event_id r
     \<and> event_type e = ob_event_type r \<and> event_project e = ob_project r
     \<and> event_task_id e = aggregate_id r \<and> task_version e = aggregate_version r"

text \<open>
  The versions of the events of a task run without a gap up to its present version, from 1, or from
  2 for a task that \<open>init.sql\<close> put there without an event; the last event carries the task as a
  reader of the board sees it now.
\<close>

definition task_history_ok :: "db \<Rightarrow> task_row \<Rightarrow> bool" where
  "task_history_ok d t \<longleftrightarrow>
     (\<exists>k \<in> {1, 2}. map aggregate_version (events_of d (tsk_id t)) = [k..tsk_version t])
     \<and> (events_of d (tsk_id t) \<noteq> [] \<longrightarrow>
         (\<exists>e. carries (last (events_of d (tsk_id t))) e \<and> event_task e = joined d t))"

definition history_ok :: "db \<Rightarrow> bool" where
  "history_ok d \<longleftrightarrow>
     (\<forall>t \<in> set (tasks d). task_history_ok d t)
     \<and> (\<forall>r \<in> set (outbox d). (\<exists>e. carries r e) \<and> aggregate_id r \<in> tsk_id ` set (tasks d))"

lemma history_same_tables:
  assumes "same_tables d d'" and "history_ok d"
  shows "history_ok d'"
proof -
  have "joined d' = joined d" "events_of d' = events_of d"
    using assms(1) joined_cong [of d' d] by (auto simp: same_tables_def events_of_def)
  then show ?thesis
    using assms by (simp add: history_ok_def task_history_ok_def same_tables_def)
qed

definition event_inputs_ok :: "env \<Rightarrow> string \<Rightarrow> bool" where
  "event_inputs_ok e subj \<longleftrightarrow>
     ev_uuid e \<noteq> [] \<and> utf8_ok (ev_uuid e) \<and> utf8_ok subj
     \<and> utf8_ok (carrier_get (ev_carrier e) ''traceparent'') \<and> utf8_ok (carrier_get (ev_carrier e) ''tracestate'')"

lemma known_status_utf8: "known_status s \<Longrightarrow> utf8_ok s"
proof -
  have "utf8_ok ''todo''" "utf8_ok ''in_progress''" "utf8_ok ''done''"
    by (simp_all add: utf8_ok_ascii)
  then show "known_status s \<Longrightarrow> utf8_ok s" unfolding known_status_def by auto
qed

lemma user_name_utf8: "users_ok d \<Longrightarrow> utf8_ok (user_name d a)"
  using utf8_ok_ascii [of "[]"]
  by (auto simp: user_name_def users_ok_def pg_text_def dest: find_row split: option.split)

lemma ids_ok_int64: "ids_ok is n \<Longrightarrow> i \<in> set is \<Longrightarrow> 1 \<le> i \<and> in_int64 i"
  by (force simp: ids_ok_def in_int64_def)

lemma joined_typed:
  assumes "db_ok d" and "t \<in> set (tasks d)"
  shows "task_typed (joined d t)"
proof -
  have row: "task_row_ok d t" using assms by (auto simp: db_ok_defs)
  have "in_int64 (tsk_id t)" "in_int64 (tsk_project t)"
    using assms row ids_ok_int64
    by (auto simp: db_ok_defs task_row_ok_def project_exists_def)
  moreover have "case tsk_assignee t of None \<Rightarrow> True | Some i \<Rightarrow> in_int64 i"
    using assms(1) row ids_ok_int64 [of "map usr_id (users d)" "users_seq d"]
    by (auto simp: db_ok_defs task_row_ok_def user_exists_def split: option.splits)
  ultimately show ?thesis
    using row assms(1) user_name_utf8 known_status_utf8
    by (auto simp: task_typed_def joined_def task_row_ok_def pg_text_def db_ok_def in_int64_def)
qed

lemma the_event_fields [simp]:
  "event_task (the_event e etype subj t) = t" "event_id (the_event e etype subj t) = ev_uuid e"
  "event_type (the_event e etype subj t) = etype" "event_project (the_event e etype subj t) = project_id t"
  "event_task_id (the_event e etype subj t) = task_id t" "task_version (the_event e etype subj t) = version t"
  by (simp_all add: the_event_def new_task_event_def)

lemma the_event_typed:
  assumes "task_typed t" and "event_inputs_ok e subj" and "utf8_ok etype"
  shows "envelope_typed (the_event e etype subj t)"
  using assms
  by (auto simp: envelope_typed_def the_event_def new_task_event_def event_inputs_ok_def task_typed_def
      current_schema_version_def in_int64_def)

lemma the_event_envelope_ok:
  assumes "event_inputs_ok e subj" and "1 \<le> project_id t" and "1 \<le> task_id t"
  shows "envelope_ok (the_event e etype subj t)"
  using assms by (simp add: envelope_ok_def the_event_def new_task_event_def event_inputs_ok_def)

lemma stored_event:
  assumes "envelope_typed e" and "encode_event e = Some p" and "unmarshal p = Some v"
  shows "writable max_nesting (jsonb v)" and "decode_value (jsonb v) = Inr e"
proof -
  obtain o' ts where o': "format_time (occurred_at e) = Some o'" and ts: "task_members (event_task e) = Some ts"
    and "unmarshal p = Some (JObj (envelope_around e o' (JObj ts)))"
    using encoded_event [OF assms(1,2)] by blast
  then have v: "v = JObj (envelope_around e o' (JObj ts))" using assms(3) by simp
  show "decode_value (jsonb v) = Inr e"
    using jsonb_envelope_decoded [OF assms(1) o' ts] by (simp add: v del: jsonb.simps)
  have "writable 9999 (JObj ts)"
    using task_members_writable [OF _ ts] assms(1) by (simp add: envelope_typed_def)
  from envelope_around_writable [OF assms(1) o' this] have "writable max_nesting v"
    by (simp add: v max_nesting_def del: writable.simps(3))
  then show "writable max_nesting (jsonb v)" by (rule jsonb_writable)
qed

lemma insert_outbox_carries:
  assumes "insert_outbox now e d = (d', Inr ())" and "envelope_typed e" and "envelope_ok e"
  obtains r where "outbox d' = outbox d @ [r]" "carries r e" "users d' = users d"
    "projects d' = projects d" "tasks d' = tasks d"
  using assms(1)
proof (cases rule: insert_outbox_cases)
  case (inserted p v)
  let ?r = "new_outbox_row now (outbox_seq d + 1) (jsonb v) e"
  have "carries ?r e"
    using stored_event [OF assms(2) inserted(2,3)] assms(3) by (simp add: carries_def new_outbox_row_def)
  with inserted(5) that show thesis by simp
qed simp

text \<open>
  One more event for the task \<open>t\<close>, whose history so far stops before its present version.
\<close>

lemma history_extend:
  assumes typed: "envelope_typed e" "envelope_ok e" "event_task_id e = tsk_id t"
      "task_version e = tsk_version t" "event_task e = joined work t"
    and ins: "insert_outbox now e work = (d', Inr ())"
    and t: "t \<in> set (tasks work)" "distinct (map tsk_id (tasks work))"
    and gap: "\<exists>k \<in> {1, 2}. map aggregate_version (events_of work (tsk_id t)) @ [tsk_version t] = [k..tsk_version t]"
    and others: "\<forall>s \<in> set (tasks work). tsk_id s \<noteq> tsk_id t \<longrightarrow> task_history_ok work s"
    and rows: "\<forall>r \<in> set (outbox work). (\<exists>e. carries r e) \<and> aggregate_id r \<in> tsk_id ` set (tasks work)"
  shows "history_ok d'"
proof -
  obtain r where r: "outbox d' = outbox work @ [r]" "carries r e" and same: "users d' = users work"
    "projects d' = projects work" "tasks d' = tasks work"
    using insert_outbox_carries [OF ins typed(1,2)] by blast
  have agg: "aggregate_id r = tsk_id t" "aggregate_version r = tsk_version t"
    using r(2) typed(3,4) by (simp_all add: carries_def)
  have joined: "joined d' s = joined work s" for s using joined_cong [OF same(1)] .
  have own: "events_of d' (tsk_id t) = events_of work (tsk_id t) @ [r]"
    by (simp add: events_of_def r(1) agg)
  have "task_history_ok d' s" if s: "s \<in> set (tasks d')" for s
  proof (cases "tsk_id s = tsk_id t")
    case True
    then have "s = t" using s t same(3) by (metis distinct_map inj_onD)
    then show ?thesis
      using own gap agg r(2) typed(5) joined by (auto simp: task_history_ok_def)
  next
    case False
    then have "events_of d' (tsk_id s) = events_of work (tsk_id s)"
      by (simp add: events_of_def r(1) agg)
    with others s False same(3) joined show ?thesis by (simp add: task_history_ok_def)
  qed
  moreover have "aggregate_id r \<in> tsk_id ` set (tasks work)" using t(1) agg by simp
  ultimately show ?thesis
    using rows r(2) by (auto simp: history_ok_def r(1) same(3))
qed

lemma task_events_known:
  assumes "history_ok d" and "i \<notin> tsk_id ` set (tasks d)"
  shows "events_of d i = []"
  using assms by (auto simp: history_ok_def events_of_def filter_empty_conv)

lemma topic_utf8: "utf8_ok task_created" "utf8_ok task_status_changed"
  by (simp_all add: task_created_def task_status_changed_def utf8_ok_ascii)

lemma create_task_history:
  assumes "db_ok d" and "history_ok d" and "event_inputs_ok e subj"
    and "create_task e subj wild inpt d = (d', resp)"
  shows "history_ok d'"
  using assms(4)
proof (cases rule: create_task_cases)
  case (undone w)
  then show ?thesis using history_same_tables [of d d'] assms(2) by simp
next
  case (created pid inp work t)
  define row where "row = fresh_task (ev_now e) pid (in_assignee inp) (trim_space (in_task_title inp))
    (trim_space (in_task_description inp)) (chosen_status inp) d"
  from created(4) have t: "t = joined d row"
    and work: "work = d\<lparr>tasks_seq := tasks_seq d + 1, tasks := tasks d @ [row]\<rparr>"
    by (auto elim!: insert_task_cases simp: row_def)
  have ok: "db_ok work" using insert_task_ok [OF assms(1) created(4)] by simp
  have id: "tsk_id row = tasks_seq d + 1" "tsk_version row = 1" by (simp_all add: row_def fresh_task_def)
  have new: "tsk_id row \<notin> tsk_id ` set (tasks d)"
    using assms(1) ids_ok_fresh id by (auto simp: db_ok_defs)
  have events: "events_of work = events_of d" and users: "joined work = joined d"
    using joined_cong [of work d] by (auto simp: work events_of_def)
  have history: "task_history_ok work = task_history_ok d"
    by (rule ext) (simp add: task_history_ok_def events users)
  have row: "row \<in> set (tasks work)" by (simp add: work)
  have typed: "task_typed t" using joined_typed [OF ok row] users by (simp add: t)
  have pos: "1 \<le> project_id t" "1 \<le> task_id t"
    using ok row ids_ok_int64 [of "map prj_id (projects work)"] ids_ok_int64 [of "map tsk_id (tasks work)"]
    by (auto simp: db_ok_defs t joined_def task_row_ok_def project_exists_def)
  show ?thesis
  proof (rule history_extend [OF _ _ _ _ _ created(5) row])
    show "envelope_typed (the_event e task_created subj t)" "envelope_ok (the_event e task_created subj t)"
      using the_event_typed the_event_envelope_ok typed pos assms(3) topic_utf8 by auto
    show "distinct (map tsk_id (tasks work))" using ok by (simp add: db_ok_defs ids_ok_def)
    show "\<exists>k \<in> {1, 2}. map aggregate_version (events_of work (tsk_id row)) @ [tsk_version row] = [k..tsk_version row]"
      using task_events_known [OF assms(2) new] by (simp add: events id)
    show "\<forall>s \<in> set (tasks work). tsk_id s \<noteq> tsk_id row \<longrightarrow> task_history_ok work s"
      using assms(2) unfolding history by (auto simp: history_ok_def work)
    show "\<forall>r \<in> set (outbox work). (\<exists>e. carries r e) \<and> aggregate_id r \<in> tsk_id ` set (tasks work)"
      using assms(2) by (auto simp: history_ok_def work)
  qed (simp_all add: t users joined_def)
qed (use assms(2) in simp)

lemma update_task_status_history:
  assumes "db_ok d" and "history_ok d" and "event_inputs_ok e subj"
    and "update_task_status e subj wild inpt d = (d', resp)"
  shows "history_ok d'"
  using assms(4)
proof (cases rule: update_task_status_cases)
  case (undone w)
  then show ?thesis using history_same_tables [of d d'] assms(2) by simp
next
  case (updated tid inp work t)
  obtain old where old: "old \<in> set (tasks d)" "tsk_id old = tid" "t = joined d (bump (ev_now e) (in_status inp) old)"
    and work: "work = d\<lparr>tasks := map (\<lambda>s. if tsk_id s = tid then bump (ev_now e) (in_status inp) s else s) (tasks d)\<rparr>"
    using updated(4) by (auto elim!: update_status_cases)
  define row where "row = bump (ev_now e) (in_status inp) old"
  have ok: "db_ok work" using update_status_ok [OF assms(1) updated(4)] by simp
  have id: "tsk_id row = tid" "tsk_version row = tsk_version old + 1"
    using old(2) by (simp_all add: row_def bump_def)
  have events: "events_of work = events_of d" and users: "joined work = joined d"
    using joined_cong [of work d] by (auto simp: work events_of_def)
  have history: "task_history_ok work = task_history_ok d"
    by (rule ext) (simp add: task_history_ok_def events users)
  have "row \<in> (\<lambda>s. if tsk_id s = tid then bump (ev_now e) (in_status inp) s else s) ` set (tasks d)"
    using old(1,2) by (auto simp: row_def intro: rev_image_eqI)
  then have row: "row \<in> set (tasks work)" by (simp add: work)
  have typed: "task_typed t" using joined_typed [OF ok row] users by (simp add: old(3) row_def)
  have pos: "1 \<le> project_id t" "1 \<le> task_id t"
    using ok row ids_ok_int64 [of "map prj_id (projects work)"] ids_ok_int64 [of "map tsk_id (tasks work)"]
    by (auto simp: db_ok_defs old(3) row_def [symmetric] joined_def task_row_ok_def project_exists_def)
  have keys: "tsk_id ` set (tasks work) = tsk_id ` set (tasks d)"
  proof -
    have "map tsk_id (tasks work) = map tsk_id (tasks d)" by (simp add: work bump_def)
    then show ?thesis by (metis set_map)
  qed
  show ?thesis
  proof (rule history_extend [OF _ _ _ _ _ updated(5) row])
    show "envelope_typed (the_event e task_status_changed subj t)"
      "envelope_ok (the_event e task_status_changed subj t)"
      using the_event_typed the_event_envelope_ok typed pos assms(3) topic_utf8 by auto
    show "distinct (map tsk_id (tasks work))" using ok by (simp add: db_ok_defs ids_ok_def)
    have "1 \<le> tsk_version old" using assms(1) old(1) by (auto simp: db_ok_defs task_row_ok_def)
    moreover have "\<exists>k \<in> {1, 2}. map aggregate_version (events_of d tid) = [k..tsk_version old]"
      using assms(2) old(1,2) by (auto simp: history_ok_def task_history_ok_def)
    ultimately show "\<exists>k \<in> {1, 2}. map aggregate_version (events_of work (tsk_id row)) @ [tsk_version row] = [k..tsk_version row]"
      using upto_rec2 [of _ "tsk_version row"] by (auto simp: events id)
    show "\<forall>s \<in> set (tasks work). tsk_id s \<noteq> tsk_id row \<longrightarrow> task_history_ok work s"
    proof (intro ballI impI)
      fix s assume "s \<in> set (tasks work)" and other: "tsk_id s \<noteq> tsk_id row"
      then have "s \<in> (\<lambda>s. if tsk_id s = tid then bump (ev_now e) (in_status inp) s else s) ` set (tasks d)"
        by (simp add: work)
      then have "s \<in> set (tasks d)" using other id by (auto simp: bump_def split: if_splits)
      then show "task_history_ok work s" using assms(2) unfolding history by (simp add: history_ok_def)
    qed
    show "\<forall>r \<in> set (outbox work). (\<exists>e. carries r e) \<and> aggregate_id r \<in> tsk_id ` set (tasks work)"
      using assms(2) unfolding keys by (auto simp: history_ok_def work)
  qed (simp_all add: old(3) users joined_def row_def [symmetric])
qed (use assms(2) in simp)

end
