(* ===== verification/Service.thy ===== *)
theory Service
  imports Board
begin

text \<open>
  The REST API as a whole: requests run against the board from the state that \<open>db/init.sql\<close> leaves.
  The verifier is used only through the interface \<^theory_text>\<open>authenticator\<close>; the lemmas of that
  context are instantiated with the verifier of \<open>internal/auth\<close> at the end.
\<close>

section \<open>The invariant of the board\<close>

definition board_ok :: "db \<Rightarrow> bool" where
  "board_ok d \<longleftrightarrow> db_ok d \<and> history_ok d"

definition env_text_ok :: "env \<Rightarrow> bool" where
  "env_text_ok e \<longleftrightarrow>
     ev_uuid e \<noteq> [] \<and> utf8_ok (ev_uuid e)
     \<and> utf8_ok (carrier_get (ev_carrier e) ''traceparent'') \<and> utf8_ok (carrier_get (ev_carrier e) ''tracestate'')"

lemma event_inputs_ok_iff: "event_inputs_ok e subj \<longleftrightarrow> env_text_ok e \<and> utf8_ok subj"
  by (auto simp: event_inputs_ok_def env_text_ok_def)

lemma joined_more_users:
  assumes "task_row_ok d t" and "users d' = users d @ us"
  shows "joined d' t = joined d t"
proof (cases "tsk_assignee t")
  case (Some a)
  then have "a \<in> usr_id ` set (users d)" using assms(1) by (simp add: task_row_ok_def user_exists_def)
  then obtain u where "List.find (\<lambda>u. usr_id u = a) (users d) = Some u"
    by (cases "List.find (\<lambda>u. usr_id u = a) (users d)") (auto simp: find_None_iff)
  then have "List.find (\<lambda>u. usr_id u = a) (users d') = Some u"
    using assms(2) by (simp add: find_append)
  then show ?thesis using \<open>List.find _ (users d) = Some u\<close> Some by (simp add: joined_def user_name_def)
qed (simp add: joined_def user_name_def)

lemma history_more_users:
  assumes "db_ok d" and "history_ok d" and "users d' = users d @ us" "tasks d' = tasks d" "outbox d' = outbox d"
  shows "history_ok d'"
proof -
  have "events_of d' = events_of d" using assms(5) by (auto simp: events_of_def)
  moreover have "joined d' t = joined d t" if "t \<in> set (tasks d)" for t
    using joined_more_users assms that by (auto simp: db_ok_defs)
  ultimately show ?thesis using assms by (auto simp: history_ok_def task_history_ok_def)
qed

lemma create_user_tables:
  assumes "create_user e inpt d = (d', resp)"
  shows "\<exists>us. users d' = users d @ us" "tasks d' = tasks d" "outbox d' = outbox d" "projects d' = projects d"
proof -
  have ins: "(\<exists>us. users w = users d @ us) \<and> tasks w = tasks d \<and> outbox w = outbox d \<and> projects w = projects d"
    if "run_stmt f (insert_user now name email) d = (w, r)" for f now name email w r
    using that
    by (cases f; cases "insert_user now name email d")
      (auto simp: run_stmt_def insert_user_def Let_def split: if_splits sum.splits)
  show "\<exists>us. users d' = users d @ us" "tasks d' = tasks d" "outbox d' = outbox d" "projects d' = projects d"
    using assms by (auto simp: create_user_def Let_def split: sum.splits prod.splits if_splits dest!: ins)
qed

lemma create_project_tables:
  assumes "create_project e inpt d = (d', resp)"
  shows "\<exists>ps. projects d' = projects d @ ps" "tasks d' = tasks d" "outbox d' = outbox d" "users d' = users d"
proof -
  have ins: "(\<exists>ps. projects w = projects d @ ps) \<and> tasks w = tasks d \<and> outbox w = outbox d \<and> users w = users d"
    if "run_stmt f (insert_project now name desc) d = (w, r)" for f now name desc w r
    using that
    by (cases f; cases "insert_project now name desc d")
      (auto simp: run_stmt_def insert_project_def Let_def split: if_splits sum.splits)
  show "\<exists>ps. projects d' = projects d @ ps" "tasks d' = tasks d" "outbox d' = outbox d" "users d' = users d"
    using assms by (auto simp: create_project_def Let_def split: sum.splits prod.splits if_splits dest!: ins)
qed

lemma run_endpoint_board:
  assumes "board_ok d" and "event_inputs_ok e subj" and "run_endpoint e subj ep wild inpt d = (d', resp)"
  shows "board_ok d'"
proof -
  have ok: "db_ok d" "history_ok d" using assms(1) by (auto simp: board_ok_def)
  have "history_ok d'"
  proof (cases ep)
    case CreateUser
    with assms(3) have call: "create_user e inpt d = (d', resp)" by (simp add: run_endpoint_def)
    obtain us where "users d' = users d @ us" using create_user_tables(1) [OF call] by blast
    then show ?thesis using history_more_users [OF ok] create_user_tables(2,3) [OF call] by blast
  next
    case CreateProject
    with assms(3) have "create_project e inpt d = (d', resp)" by (simp add: run_endpoint_def)
    from create_project_tables [OF this] show ?thesis using history_more_users [OF ok, of d' "[]"] by simp
  next
    case CreateTask
    with assms(3) create_task_history [OF ok assms(2)] show ?thesis by (simp add: run_endpoint_def)
  next
    case UpdateTaskStatus
    with assms(3) update_task_status_history [OF ok assms(2)] show ?thesis by (simp add: run_endpoint_def)
  qed (use assms(3) ok in \<open>simp_all add: run_endpoint_def\<close>)
  then show ?thesis using run_endpoint_ok [OF ok(1) assms(3)] by (simp add: board_ok_def)
qed

lemma serve_protected_board:
  assumes "board_ok d" and "event_inputs_ok e subj" and "serve_protected e subj r d = (d', resp)"
  shows "board_ok d'"
  using assms run_endpoint_board [OF assms(1,2)]
  by (auto simp: serve_protected_def split: dispatch.splits)

section \<open>Routes\<close>

lemma protected_parsed:
  "map (\<lambda>(s, h). (pat_method (parse_pattern s), pat_segs (parse_pattern s), pat_subtree (parse_pattern s), h)) protected =
     [(Some ''GET'', [Lit ''api'', Lit ''users''], False, ListUsers),
      (Some ''POST'', [Lit ''api'', Lit ''users''], False, CreateUser),
      (Some ''GET'', [Lit ''api'', Lit ''projects''], False, ListProjects),
      (Some ''POST'', [Lit ''api'', Lit ''projects''], False, CreateProject),
      (Some ''GET'', [Lit ''api'', Lit ''projects'', Wild, Lit ''tasks''], False, ListTasks),
      (Some ''POST'', [Lit ''api'', Lit ''projects'', Wild, Lit ''tasks''], False, CreateTask),
      (Some ''PATCH'', [Lit ''api'', Lit ''tasks'', Wild, Lit ''status''], False, UpdateTaskStatus)]"
  by code_simp

lemma outer_parsed:
  "parse_pattern ''GET /api/health'' = \<lparr>pat_method = Some ''GET'', pat_segs = [Lit ''api'', Lit ''health''], pat_subtree = False\<rparr>"
  "parse_pattern ''GET /api/auth/config'' =
     \<lparr>pat_method = Some ''GET'', pat_segs = [Lit ''api'', Lit ''auth'', Lit ''config''], pat_subtree = False\<rparr>"
  "parse_pattern ''/api/'' = \<lparr>pat_method = None, pat_segs = [Lit ''api''], pat_subtree = True\<rparr>"
  "parse_pattern ''/'' = \<lparr>pat_method = None, pat_segs = [], pat_subtree = True\<rparr>"
  by code_simp+

definition public :: "string \<Rightarrow> string list \<Rightarrow> bool" where
  "public meth segs \<longleftrightarrow>
     meth \<in> {''GET'', ''HEAD''} \<and> segs \<in> {[''api'', ''health''], [''api'', ''auth'', ''config'']}"

lemma outer_api_match:
  assumes "segs = ''api'' # x # xs" and "\<not> public meth segs"
  shows "mux_match outer meth segs = Some (''/api/'', ApiArea, [])"
proof -
  have no: "(if method_matches (Some ''GET'') meth then match_segs (map Lit ls) False segs else None) = None"
    if "ls \<in> {[''api'', ''health''], [''api'', ''auth'', ''config'']}" for ls
    using assms(2) that by (auto simp: match_segs_lit public_def method_matches_def)
  have "(if method_matches (Some ''GET'') meth then match_segs [Lit ''api'', Lit ''health''] False segs else None) = None"
    "(if method_matches (Some ''GET'') meth then match_segs [Lit ''api'', Lit ''auth'', Lit ''config''] False segs else None) = None"
    using no [of "[''api'', ''health'']"] no [of "[''api'', ''auth'', ''config'']"]
    by (auto split: if_splits)
  then have "mux_match outer meth segs = mux_match [(''/api/'', ApiArea), (''/'', StaticArea)] meth segs"
    by (simp only: outer_def mux_match.simps outer_parsed Let_def pattern.simps option.case)
  also have "\<dots> = Some (''/api/'', ApiArea, [])"
    by (simp add: outer_parsed assms(1) method_matches_def)
  finally show ?thesis .
qed

lemma outer_api:
  assumes "path_segments path = ''api'' # x # xs" and "meth \<noteq> ''CONNECT'' \<Longrightarrow> clean_path path = path"
    and "\<not> public meth (path_segments path)"
  shows "mux_find outer meth path = Handler ''/api/'' ApiArea []"
proof -
  have m: "mux_match outer meth (path_segments path) = Some (''/api/'', ApiArea, [])"
    using outer_api_match assms(1,3) by blast
  have slash: "path_segments (path @ ''/'') = ''api'' # x # xs @ [[]]"
    using assms(1) by (simp add: path_segments_slash path_unescape_def)
  then have "\<not> public meth (path_segments (path @ ''/''))"
    by (cases xs rule: rev_cases) (auto simp: public_def)
  then have "mux_match outer meth (path_segments (path @ ''/'')) = Some (''/api/'', ApiArea, [])"
    using outer_api_match slash by (metis append_Cons)
  moreover have "path \<noteq> []" using assms(1) by (auto simp: path_segments_def)
  ultimately have "slash_redirect outer meth path = None"
    by (simp add: slash_redirect_def m exact_match_def outer_parsed slash)
  moreover have "(if meth = ''CONNECT'' then path else clean_path path) = path" using assms(2) by simp
  ultimately show ?thesis by (simp only: mux_find_def Let_def m option.case prod.case simp_thms if_False)
qed

text \<open>The outer multiplexer matches nothing of a path that is not clean: it redirects.\<close>

lemma unclean_moved:
  assumes "clean_path path \<noteq> path" and "meth \<noteq> ''CONNECT''"
  shows "\<exists>s. mux_find ps meth path = Moved s"
  using assms by (auto simp: mux_find_def Let_def split: option.splits)

lemma unclean_served:
  assumes "clean_path (req_path r) \<noteq> req_path r" and "req_method r \<noteq> ''CONNECT''"
    and "serve_http ver ui files ve e r sd = (sd', (reply, logs), obs)"
  shows "sd' = sd \<and> code reply = 301"
proof -
  obtain s where "mux_find outer (req_method r) (req_path r) = Moved s"
    using unclean_moved [OF assms(1,2)] by blast
  with assms(3) show ?thesis
    by (auto simp: serve_http_def dispatch_def after_log_def with_header_def moved_reply_def Let_def
        split: prod.splits)
qed

text \<open>The logger outside the multiplexers sees only the outer pattern: every guarded request has one route.\<close>

lemma api_route_observed:
  assumes "path_segments (req_path r) = ''api'' # x # xs" and "clean_path (req_path r) = req_path r"
    and "\<not> public (req_method r) (path_segments (req_path r))"
    and "serve_http ver ui files ve e r sd = (sd', resp, obs)"
  shows "obs_route obs = ''/api/''"
proof -
  have "route_of ''/api/'' = ''/api/''" by code_simp
  with assms(4) show ?thesis
    by (auto simp: serve_http_def dispatch_def outer_api [OF assms(1,2,3)] observe_def Let_def split: prod.splits)
qed

definition writing :: "endpoint \<Rightarrow> bool" where
  "writing ep \<longleftrightarrow> ep \<in> {CreateUser, CreateProject, CreateTask, UpdateTaskStatus}"

lemma endpoint_method:
  assumes "mux_find protected meth path = Handler s ep wild"
  shows "meth = (case ep of UpdateTaskStatus \<Rightarrow> ''PATCH'' | _ \<Rightarrow> ''POST'') \<or> \<not> writing ep \<and> meth \<in> {''GET'', ''HEAD''}"
proof -
  have "(s, ep) \<in> set protected" "method_matches (pat_method (parse_pattern s)) meth"
    using mux_find_Handler(1,2) [OF assms] .
  then have "(pat_method (parse_pattern s), ep) \<in> set (map (\<lambda>(m, g, sub, h). (m, h)) (map
      (\<lambda>(s, h). (pat_method (parse_pattern s), pat_segs (parse_pattern s), pat_subtree (parse_pattern s), h)) protected))"
    by force
  then show ?thesis
    using \<open>method_matches (pat_method (parse_pattern s)) meth\<close> unfolding protected_parsed
    by (auto simp: method_matches_def writing_def)
qed

lemma run_endpoint_reads: "\<not> writing ep \<Longrightarrow> fst (run_endpoint e subj ep wild inpt d) = d"
  by (cases ep) (simp_all add: writing_def run_endpoint_def)

lemma serve_protected_changes:
  assumes "fst (serve_protected e subj r d) \<noteq> d"
  shows "req_method r \<in> {''POST'', ''PATCH''}"
proof -
  obtain s ep wild where h: "mux_find protected (req_method r) (req_path r) = Handler s ep wild"
    using assms by (cases "mux_find protected (req_method r) (req_path r)") (auto simp: serve_protected_def)
  have "writing ep"
  proof (rule ccontr)
    assume "\<not> writing ep"
    then have "fst (serve_protected e subj r d) = d" by (simp add: serve_protected_def h run_endpoint_reads)
    with assms show False by simp
  qed
  with endpoint_method [OF h] show ?thesis by (auto split: endpoint.splits)
qed

section \<open>Lemmas about the whole service, from the interface of the verifier alone\<close>

context authenticator
begin

lemma serve_http_changes:
  assumes "serve_http ver ui files ve e r (s, d) = ((s', d'), resp, obs)" and "d' \<noteq> d"
  obtains p where "ver ve (req_authorization r) s = (s', Inr p)" "''noapp-editor'' \<in> set (roles p)"
    "req_method r \<in> {''POST'', ''PATCH''}" "has_prefix (req_authorization r) bearer_prefix"
    "unix_seconds (now_of ve) < unix_seconds (expires_at p)"
proof -
  obtain t vd where v: "ver ve (req_authorization r) s = (t, vd)" by fastforce
  have auth: "fst (authorize ver ve e r (s, d)) = (s', d')"
    using assms by (auto simp: serve_http_def dispatch_def Let_def split: prod.splits dispatch.splits area.splits)
  then obtain p where p: "vd = Inr p" "has_role p (required_role (req_method r))"
    and d': "t = s'" "d' = fst (serve_protected e (subject p) r d)"
    using assms(2) v
    by (auto simp: authorize_def decide_def split: prod.splits sum.splits if_splits)
  have "req_method r \<in> {''POST'', ''PATCH''}"
    using serve_protected_changes [of e "subject p" r d] assms(2) d'(2) by blast
  moreover from this p(2) have "''noapp-editor'' \<in> set (roles p)" by (auto simp: required_role_def)
  ultimately show thesis
    using that [of p] v p(1) d'(1) needs_bearer [of ve] not_expired [of ve] by blast
qed

lemma serve_http_board:
  assumes "board_ok d" and "env_text_ok e"
    and "serve_http ver ui files ve e r (s, d) = ((s', d'), resp, obs)"
  shows "board_ok d'"
proof (cases "d' = d")
  case False
  have auth: "fst (authorize ver ve e r (s, d)) = (s', d')"
    using assms(3) False by (auto simp: serve_http_def dispatch_def Let_def split: prod.splits dispatch.splits area.splits)
  obtain t vd where v: "ver ve (req_authorization r) s = (t, vd)" by fastforce
  then obtain p where "vd = Inr p" and d': "d' = fst (serve_protected e (subject p) r d)"
    using auth False by (auto simp: authorize_def decide_def split: prod.splits sum.splits if_splits)
  then have "event_inputs_ok e (subject p)"
    using v subject_text assms(2) by (auto simp: event_inputs_ok_iff)
  then show ?thesis using serve_protected_board [OF assms(1)] d' by (metis prod.collapse)
qed (use assms(1) in simp)

end

section \<open>From the freshly initialised database\<close>

text \<open>The verifier state and the board after a list of requests.\<close>

fun serve_all ::
    "('e, 's) verify_fun \<Rightarrow> auth_ui \<Rightarrow> (request \<Rightarrow> reply) \<Rightarrow> ('e \<times> env \<times> request) list \<Rightarrow> 's \<times> db \<Rightarrow> 's \<times> db" where
  "serve_all ver ui files [] sd = sd"
| "serve_all ver ui files ((ve, e, r) # rs) sd =
     serve_all ver ui files rs (fst (serve_http ver ui files ve e r sd))"

context authenticator
begin

lemma serve_all_board:
  assumes "board_ok (snd sd)" and "\<forall>(ve, e, r) \<in> set rs. env_text_ok e"
  shows "board_ok (snd (serve_all ver ui files rs sd))"
  using assms
proof (induction rs arbitrary: sd)
  case (Cons x rs)
  obtain ve e r where x: "x = (ve, e, r)" by (cases x)
  obtain s d where sd: "sd = (s, d)" by fastforce
  obtain s' d' resp obs where step: "serve_http ver ui files ve e r (s, d) = ((s', d'), resp, obs)"
    by (metis prod_cases3 prod.collapse)
  have "board_ok d'" using serve_http_board [OF _ _ step] Cons.prems by (simp add: x sd)
  then show ?case using Cons.IH [of "(s', d')"] Cons.prems(2) by (simp add: x sd step)
qed simp

end

definition empty_db :: db where
  "empty_db = \<lparr>users = [], projects = [], tasks = [], outbox = [], users_seq = 0, projects_seq = 0,
     tasks_seq = 0, outbox_seq = 0\<rparr>"

text \<open>
  The inserts of \<open>db/init.sql\<close>. \<open>ON CONFLICT DO NOTHING\<close> and the two \<open>NOT EXISTS\<close> guards make the
  script repeatable; the sample task goes to the first pair of the project and user it names.
\<close>

definition seed_users :: "instant \<Rightarrow> db \<Rightarrow> db" where
  "seed_users now d =
     fst (insert_user now ''Grace Hopper'' ''grace@example.test''
       (fst (insert_user now ''Ada Lovelace'' ''ada@example.test'' d)))"

definition seed_projects :: "instant \<Rightarrow> db \<Rightarrow> db" where
  "seed_projects now d =
     (if projects d = [] then fst (insert_project now ''Observability Lab''
        ''A sample project ready for experimentation.'' d) else d)"

definition seed_tasks :: "instant \<Rightarrow> db \<Rightarrow> db" where
  "seed_tasks now d =
     (if tasks d \<noteq> [] then d
      else case (List.find (\<lambda>p. prj_name p = ''Observability Lab'') (projects d),
                 List.find (\<lambda>u. usr_email u = ''ada@example.test'') (users d)) of
          (Some p, Some u) \<Rightarrow>
            fst (insert_task now (prj_id p) (Some (usr_id u)) ''Build the sample application''
              ''Create a useful baseline before adding instrumentation.'' ''in_progress'' d)
        | _ \<Rightarrow> d)"

definition init_sql :: "instant \<Rightarrow> db \<Rightarrow> db" where
  "init_sql now d = seed_tasks now (seed_projects now (seed_users now d))"

lemma insert_user_fst_ok: "db_ok d \<Longrightarrow> db_ok (fst (insert_user now name email d))"
  using insert_user_ok by (metis prod.collapse)

lemma insert_project_fst_ok: "db_ok d \<Longrightarrow> db_ok (fst (insert_project now name desc d))"
  using insert_project_ok by (metis prod.collapse)

lemma seed_users_ok: "db_ok d \<Longrightarrow> db_ok (seed_users now d)"
  unfolding seed_users_def by (intro insert_user_fst_ok)

lemma seed_projects_ok: "db_ok d \<Longrightarrow> db_ok (seed_projects now d)"
  by (simp add: seed_projects_def insert_project_fst_ok)

lemma seed_tasks_ok: "db_ok d \<Longrightarrow> db_ok (seed_tasks now d)"
proof -
  assume d: "db_ok d"
  have "db_ok (fst (insert_task now pid a t x st d))" for pid a t x st
    using insert_task_ok [OF d] by (metis prod.collapse)
  with d show ?thesis by (auto simp: seed_tasks_def split: option.split)
qed

lemma empty_db_ok: "db_ok empty_db"
  by (simp add: empty_db_def db_ok_defs ids_ok_def)

lemma init_sql_fresh: "outbox (init_sql now empty_db) = []" "\<forall>t \<in> set (tasks (init_sql now empty_db)). tsk_version t = 1"
proof -
  have u: "outbox (seed_users now empty_db) = [] \<and> tasks (seed_users now empty_db) = []"
    by (simp add: seed_users_def insert_user_def empty_db_def Let_def split: sum.split)
  define d where "d = seed_projects now (seed_users now empty_db)"
  have d: "outbox d = []" "tasks d = []"
    using u by (auto simp: d_def seed_projects_def insert_project_def Let_def split: sum.split)
  have "outbox (seed_tasks now d) = [] \<and> (\<forall>t \<in> set (tasks (seed_tasks now d)). tsk_version t = 1)"
    using d by (auto simp: seed_tasks_def insert_task_def Let_def split: sum.split option.split)
  then show "outbox (init_sql now empty_db) = []" "\<forall>t \<in> set (tasks (init_sql now empty_db)). tsk_version t = 1"
    by (simp_all add: init_sql_def d_def)
qed

lemma init_sql_board: "board_ok (init_sql now empty_db)"
proof -
  have "db_ok (init_sql now empty_db)"
    unfolding init_sql_def by (intro seed_tasks_ok seed_projects_ok seed_users_ok empty_db_ok)
  moreover have "history_ok (init_sql now empty_db)"
    using init_sql_fresh [of now] by (auto simp: history_ok_def task_history_ok_def events_of_def)
  ultimately show ?thesis by (simp add: board_ok_def)
qed

section \<open>A sample request, for the witnesses\<close>

definition sample_env :: env where
  "sample_env =
     \<lparr>ev_now = 1700000000 * second, ev_clock = 1700000000 * second + 1234, ev_uuid = ''event-1'',
      ev_carrier = Map.empty, ev_random = Some ''abcdefgh'', ev_nanos = 0, ev_collate = map of_char,
      ev_unicode_lower = id, ev_explain = (\<lambda>_. ''bad input''), ev_ping = None, ev_query = QueryOk,
      ev_begin = None, ev_stmt = NoFault, ev_event = NoFault, ev_commit = NoFault\<rparr>"

definition sample_ui :: auth_ui where "sample_ui = \<lparr>ui_issuer = ''i'', ui_client_id = ''c''\<rparr>"

definition sample_files :: "request \<Rightarrow> reply" where "sample_files r = not_found_reply"

definition editor_claims :: access_claims where
  "editor_claims = sample_claims\<lparr>realm_roles := [''noapp-editor'']\<rparr>"

definition editor_authorization :: string where
  "editor_authorization = bearer_prefix @ issue_token ''k'' (claims_json editor_claims [''a'']) ''ok''"

definition sample_request :: request where
  "sample_request =
     \<lparr>req_method = ''POST'', req_path = ''/api/projects'',
      req_body = marshal (JObj [(''name'', JStr ''Lab'')]),
      req_authorization = editor_authorization, req_request_id = []\<rparr>"

lemma editor_claims_ok: "claims_writable editor_claims [''a'']"
  by (auto simp: editor_claims_def sample_claims_def claims_writable_def in_int64_def intro: utf8_ok_ascii)

lemma editor_verified:
  "verify sample_crypto sample_clock reply editor_authorization sample_verifier
    = (sample_verifier, Inr (principal_of editor_claims))"
  using verify_issued [OF sample_ok(1) _ editor_claims_ok, of sample_crypto sample_clock reply "''ok''" sample_verifier]
  by (simp add: sample_key editor_authorization_def)
    (simp add: sample_defs editor_claims_def unix_seconds_def duration_defs)

lemma sample_routes:
  "mux_find outer ''POST'' ''/api/projects'' = Handler ''/api/'' ApiArea []"
  "mux_find protected ''POST'' ''/api/projects'' = Handler ''POST /api/projects'' CreateProject []"
  by code_simp+

lemma sample_body:
  "decode_json e project_fields (marshal (JObj [(''name'', JStr ''Lab'')])) \<lparr>in_title = [], in_description = []\<rparr>
    = Inr \<lparr>in_title = ''Lab'', in_description = []\<rparr>"
proof -
  have "length (marshal (JObj [(''name'', JStr ''Lab'')])) = 14" by code_simp
  then have "take max_body (marshal (JObj [(''name'', JStr ''Lab'')])) = marshal (JObj [(''name'', JStr ''Lab'')])"
    by (simp add: max_body_def)
  moreover have "writable max_nesting (JObj [(''name'', JStr ''Lab'')])"
    by (simp add: max_nesting_def utf8_ok_ascii)
  ultimately show ?thesis
    by (simp add: decode_json_def decode_first_marshal decode_struct_def project_fields_def find_field_def field_def del: marshal.simps)
qed

lemma sample_trim: "trim_space ''Lab'' = ''Lab''" "trim_space [] = []"
  by (simp_all add: trim_space_visible visible_def)

lemma sample_text: "pg_text ''Lab''" "pg_text []" "not_blank ''Lab''"
  by (simp_all add: pg_text_def no_nul_def not_blank_def utf8_ok_ascii)

lemma sample_served:
  "\<exists>resp obs d'. serve_http (call_verify sample_crypto) ui files (sample_clock, NoReply) sample_env sample_request
     (sample_verifier, empty_db) = ((sample_verifier, d'), resp, obs) \<and> length (projects d') = 1"
  by (simp add: serve_http_def dispatch_def sample_request_def sample_routes authorize_def call_verify_def
      editor_verified decide_def required_role_def editor_claims_def principal_of_def serve_protected_def run_endpoint_def
      create_project_def sample_body sample_trim run_stmt_def sample_env_def insert_project_def sample_text
      next_value_def empty_db_def Let_def after_log_def with_header_def
     del: marshal.simps split: prod.split)
section \<open>Properties\<close>

text \<open>C3. Start from the database that \<open>db/init.sql\<close> makes and run any requests at all, with any
  faults of the network and the server: the board keeps its constraints (keys, references, known
  states, positive versions), every outbox row carries a well-formed event that agrees with its
  columns, the events of each task number its versions without a gap, and the last one carries the
  task exactly as the board shows it.\<close>

theorem board_reachable:
  assumes "\<forall>(ve, e, r) \<in> set rs. env_text_ok e"
  shows "board_ok (snd (serve_all (call_verify cr) ui files rs (v, init_sql now empty_db)))"
  using jwt.serve_all_board assms init_sql_board by simp

lemma sample_env_text: "env_text_ok sample_env"
  by (simp add: env_text_ok_def sample_env_def carrier_get_def utf8_ok_ascii)

theorem board_reachable_witness:
  "board_ok (snd (serve_all (call_verify sample_crypto) sample_ui sample_files
     [((sample_clock, NoReply), sample_env, sample_request)] (sample_verifier, init_sql 0 empty_db)))"
  using board_reachable [of "[((sample_clock, NoReply), sample_env, sample_request)]"] sample_env_text by simp

text \<open>C2. A request that changes anything in the database (rows or sequences) has a bearer token
  which the verifier of the service accepted, whose principal has the role \<open>noapp-editor\<close> and has
  not expired, and its method is POST or PATCH: no read, no public endpoint and no viewer writes.\<close>

theorem write_needs_editor:
  assumes "serve_http (call_verify cr) ui files ve e r (v, d) = ((v', d'), resp, obs)" and "d' \<noteq> d"
  shows "\<exists>p. verify cr (fst ve) (snd ve) (req_authorization r) v = (v', Inr p)
    \<and> has_role p ''noapp-editor'' \<and> req_method r \<in> {''POST'', ''PATCH''}
    \<and> has_prefix (req_authorization r) ''Bearer ''
    \<and> unix_seconds (at_claims (fst ve)) < unix_seconds (expires_at p)"
  using jwt.serve_http_changes [OF assms]
  by (metis bearer_prefix_def call_verify_def has_role_iff)

theorem write_needs_editor_witness:
  "\<exists>d' resp obs. serve_http (call_verify sample_crypto) sample_ui sample_files (sample_clock, NoReply) sample_env sample_request
      (sample_verifier, empty_db) = ((sample_verifier, d'), resp, obs) \<and> d' \<noteq> empty_db
    \<and> (\<exists>p. verify sample_crypto sample_clock NoReply (req_authorization sample_request) sample_verifier
          = (sample_verifier, Inr p) \<and> has_role p ''noapp-editor'')"
proof -
  obtain resp obs d' where run: "serve_http (call_verify sample_crypto) sample_ui sample_files (sample_clock, NoReply) sample_env
      sample_request (sample_verifier, empty_db) = ((sample_verifier, d'), resp, obs)" "length (projects d') = 1"
    using sample_served by blast
  then have "d' \<noteq> empty_db" by (auto simp: empty_db_def)
  from run(1) this write_needs_editor [OF run(1) this] show ?thesis by auto
qed

text \<open>C11. Every path under \<open>/api/\<close> except the two public endpoints, whatever the method, is
  guarded. When the path is not clean (\<open>/api//users\<close>) and the method is not CONNECT, the multiplexer
  answers a redirect itself: nothing is authorized, and neither the verifier nor the database
  changes. In every other case the token is verified: without a verified principal the reply is 401
  with a challenge, without the role the method asks for (viewer for GET, HEAD and OPTIONS, editor
  otherwise) it is 403, both without any change of the database; with them the database and the
  reply are those of the routed handler.\<close>

theorem api_guarded:
  assumes "path_segments (req_path r) = ''api'' # x # xs"
    and "\<not> (req_method r \<in> {''GET'', ''HEAD''}
      \<and> path_segments (req_path r) \<in> {[''api'', ''health''], [''api'', ''auth'', ''config'']})"
    and "serve_http (call_verify cr) ui files ve e r (v, d) = ((v', d'), (reply, logs), obs)"
    and "verify cr (fst ve) (snd ve) (req_authorization r) v = (v'', verified)"
  shows "if clean_path (req_path r) \<noteq> req_path r \<and> req_method r \<noteq> ''CONNECT''
    then v' = v \<and> d' = d \<and> code reply = 301
    else v' = v'' \<and>
      (case verified of
         Inl err \<Rightarrow> d' = d \<and> code reply = 401 \<and> ''WWW-Authenticate'' \<in> fst ` set (headers reply)
       | Inr p \<Rightarrow>
           if \<not> has_role p (if req_method r \<in> {''GET'', ''HEAD'', ''OPTIONS''} then ''noapp-viewer'' else ''noapp-editor'')
           then d' = d \<and> code reply = 403
           else d' = fst (serve_protected e (subject p) r d)
             \<and> body reply = body (fst (snd (serve_protected e (subject p) r d)))
             \<and> code reply = code (fst (snd (serve_protected e (subject p) r d))))"
proof (cases "clean_path (req_path r) \<noteq> req_path r \<and> req_method r \<noteq> ''CONNECT''")
  case True
  with unclean_served [OF _ _ assms(3)] show ?thesis by simp
next
  case False
  then have route: "mux_find outer (req_method r) (req_path r) = Handler ''/api/'' ApiArea []"
    using assms(1,2) by (intro outer_api) (auto simp: public_def)
  have role: "required_role (req_method r) =
      (if req_method r \<in> {''GET'', ''HEAD'', ''OPTIONS''} then ''noapp-viewer'' else ''noapp-editor'')"
    by (simp add: required_role_def)
  have "v' = v'' \<and>
    (case verified of
       Inl err \<Rightarrow> d' = d \<and> code reply = 401 \<and> ''WWW-Authenticate'' \<in> fst ` set (headers reply)
     | Inr p \<Rightarrow>
         if \<not> has_role p (required_role (req_method r)) then d' = d \<and> code reply = 403
         else d' = fst (serve_protected e (subject p) r d)
           \<and> body reply = body (fst (snd (serve_protected e (subject p) r d)))
           \<and> code reply = code (fst (snd (serve_protected e (subject p) r d))))"
    using assms(3,4)
    by (auto simp: serve_http_def dispatch_def route authorize_def call_verify_def decide_def
        after_log_def with_header_def write_error_def write_json_def json_reply_def Let_def
        simp del: has_role_iff split: sum.splits prod.splits if_splits)
  with False show ?thesis unfolding role by (simp only: if_False)
qed

text \<open>A request without a token, and the same request on a path that is not clean.\<close>

theorem api_guarded_witness:
  "(\<exists>reply logs obs. serve_http (call_verify sample_crypto) sample_ui sample_files (sample_clock, NoReply) sample_env
      (sample_request\<lparr>req_authorization := []\<rparr>) (sample_verifier, empty_db)
        = ((sample_verifier, empty_db), (reply, logs), obs) \<and> code reply = 401)
    \<and> (\<exists>reply logs obs. serve_http (call_verify sample_crypto) sample_ui sample_files (sample_clock, NoReply) sample_env
      (sample_request\<lparr>req_authorization := [], req_path := ''/api//projects''\<rparr>) (sample_verifier, empty_db)
        = ((sample_verifier, empty_db), (reply, logs), obs) \<and> code reply = 301)"
proof -
  let ?r = "sample_request\<lparr>req_authorization := []\<rparr>"
  let ?q = "?r\<lparr>req_path := ''/api//projects''\<rparr>"
  let ?serve = "\<lambda>r. serve_http (call_verify sample_crypto) sample_ui sample_files (sample_clock, NoReply)
      sample_env r (sample_verifier, empty_db)"
  have path: "path_segments (req_path ?r) = ''api'' # ''projects'' # []" "clean_path (req_path ?r) = req_path ?r"
    "path_segments (req_path ?q) = ''api'' # [] # [''projects'']" "clean_path (req_path ?q) \<noteq> req_path ?q"
    unfolding sample_request_def by (simp, code_simp)+
  have unverified: "verify sample_crypto (fst (sample_clock, NoReply)) (snd (sample_clock, NoReply)) (req_authorization ?r)
      sample_verifier = (sample_verifier, Inl MissingToken)"
    by (simp add: verify_def has_prefix_def bearer_prefix_def)
  obtain v' d' reply logs obs where run: "?serve ?r = ((v', d'), (reply, logs), obs)"
    by (metis prod_cases3 prod.collapse)
  have first: "v' = sample_verifier \<and> d' = empty_db \<and> code reply = 401"
    using api_guarded [OF path(1) _ run unverified] path(2) by (simp add: sample_request_def)
  obtain v'' d'' reply' logs' obs' where run': "?serve ?q = ((v'', d''), (reply', logs'), obs')"
    by (metis prod_cases3 prod.collapse)
  have "v'' = sample_verifier \<and> d'' = empty_db \<and> code reply' = 301"
    using api_guarded [OF path(3) _ run', where verified = "Inl MissingToken"] path(4) unverified
    by (simp add: sample_request_def)
  with first run run' show ?thesis by blast
qed

end
