(* ===== verification/Api_Laws.thy ===== *)
theory Api_Laws
  imports Service
begin

text \<open>
  What a client of the REST API can rely on, request by request: when a task is created and what
  then is in the board and in the outbox, what a status change does, that a refused request
  changes nothing, and which replies the errors of the database lead to.
\<close>

section \<open>Events that PostgreSQL accepts\<close>

definition event_no_nul :: "envelope \<Rightarrow> bool" where
  "event_no_nul e \<longleftrightarrow>
     list_all no_nul [event_id e, event_type e, actor_subject e, trace_parent e, trace_state e,
       assignee_name (event_task e), title (event_task e), description (event_task e), status (event_task e)]"

lemma pad_no_nul: "CHR 0x00 \<notin> set (pad k n)"
  using pad_digits [of k n] by (auto simp: is_digit_def byte_in_def simp del: pad.simps)

lemma format_time_no_nul:
  assumes "format_time t = Some s"
  shows "no_nul s"
proof -
  from assms obtain y m d h mi se ns where
    "s = pad 4 y @ CHR ''-'' # pad 2 m @ CHR ''-'' # pad 2 d @ CHR ''T'' # pad 2 h
       @ CHR '':'' # pad 2 mi @ CHR '':'' # pad 2 se @ frac_text ns @ ''Z''"
    unfolding format_time_def Let_def by (auto split: prod.splits if_splits simp del: pad.simps)
  moreover have "CHR 0x00 \<notin> set (frac_text ns)"
    using strip_zeros_subset [of "pad 9 ns"] pad_no_nul [of 9 ns]
    by (auto simp: frac_text_def simp del: pad.simps)
  ultimately show ?thesis using pad_no_nul by (simp add: no_nul_def del: pad.simps)
qed

lemma task_members_no_nul:
  assumes "task_members t = Some ms" and "list_all no_nul [assignee_name t, title t, description t, status t]"
  shows "\<forall>m \<in> set ms. no_nul (fst m) \<and> json_no_nul (snd m)"
  using assms format_time_no_nul
  by (auto simp: task_members_def omit_empty_def omit_nil_def json_int_def no_nul_def
      split: option.splits if_splits)

lemma envelope_around_no_nul:
  assumes "event_no_nul e" and "format_time (occurred_at e) = Some o'" and "json_no_nul tj"
  shows "\<forall>m \<in> set (envelope_around e o' tj). no_nul (fst m) \<and> json_no_nul (snd m)"
  using assms format_time_no_nul [OF assms(2)]
  by (auto simp: envelope_around_def event_no_nul_def omit_empty_def json_int_def no_nul_def split: if_splits)

lemma event_accepted:
  assumes "envelope_typed e" and "encode_event e = Some p" and "event_no_nul e"
  shows "\<exists>v. jsonb_in p = Inr v"
proof -
  obtain o' ts where o': "format_time (occurred_at e) = Some o'" and ts: "task_members (event_task e) = Some ts"
    and p: "unmarshal p = Some (JObj (envelope_around e o' (JObj ts)))"
    using encoded_event [OF assms(1,2)] by blast
  have "json_no_nul (JObj ts)"
    using task_members_no_nul [OF ts] assms(3) by (simp add: event_no_nul_def)
  from envelope_around_no_nul [OF assms(3) o' this] show ?thesis by (simp add: jsonb_in_def p)
qed

lemma insert_outbox_succeeds:
  assumes "envelope_typed e" and "encode_event e = Some p" and "event_no_nul e"
    and "utf8_ok (event_id e)" "utf8_ok (event_type e)"
    and "outbox_seq d + 1 < 2 ^ 63" "outbox_ok d" and "1 \<le> task_version e"
    and "event_id e \<notin> ob_event_id ` set (outbox d)" and "project_exists d (event_project e)"
  shows "\<exists>d'. insert_outbox now e d = (d', Inr ())"
proof -
  obtain v where v: "jsonb_in p = Inr v" using event_accepted [OF assms(1-3)] by blast
  have "outbox_seq d + 1 \<notin> sequence_no ` set (outbox d)"
    using assms(7) ids_ok_fresh by (auto simp: outbox_ok_def)
  then show ?thesis
    using assms v
    by (simp add: insert_outbox_def next_value_def pg_text_def event_no_nul_def Let_def project_exists_def)
qed

text \<open>A request on which nothing fails outside the program.\<close>

definition no_faults :: "env \<Rightarrow> bool" where
  "no_faults e \<longleftrightarrow>
     ev_ping e = None \<and> ev_query e = QueryOk \<and> ev_begin e = None \<and> ev_stmt e = NoFault
     \<and> ev_event e = NoFault \<and> ev_commit e = NoFault"

definition writable_time :: "instant \<Rightarrow> bool" where
  "writable_time t \<longleftrightarrow> 0 \<le> t \<and> t < 253402300800 * second"

definition env_ready :: "env \<Rightarrow> string \<Rightarrow> db \<Rightarrow> bool" where
  "env_ready e subj d \<longleftrightarrow>
     no_faults e \<and> event_inputs_ok e subj
     \<and> list_all no_nul [ev_uuid e, subj, carrier_get (ev_carrier e) ''traceparent'',
          carrier_get (ev_carrier e) ''tracestate'']
     \<and> ev_uuid e \<notin> ob_event_id ` set (outbox d) \<and> writable_time (ev_now e) \<and> writable_time (ev_clock e)
     \<and> users_seq d + 1 < 2 ^ 63 \<and> projects_seq d + 1 < 2 ^ 63
     \<and> tasks_seq d + 1 < 2 ^ 63 \<and> outbox_seq d + 1 < 2 ^ 63"

lemma task_texts:
  assumes "db_ok d" and "t \<in> set (tasks d)"
  shows "list_all no_nul [assignee_name (joined d t), title (joined d t), description (joined d t), status (joined d t)]"
proof -
  have row: "task_row_ok d t" using assms by (auto simp: db_ok_defs)
  have "user_name d a = [] \<or> (\<exists>u \<in> set (users d). user_name d a = usr_name u)" for a
    by (cases a; cases "List.find (\<lambda>u. usr_id u = the a) (users d)")
      (auto simp: user_name_def dest: find_row)
  moreover have "no_nul []" "\<forall>u \<in> set (users d). no_nul (usr_name u)"
    using assms(1) by (auto simp: db_ok_defs pg_text_def no_nul_def [of "[]"])
  ultimately have "no_nul (user_name d a)" for a by metis
  moreover have "no_nul (tsk_status t)"
    using row by (auto simp: task_row_ok_def known_status_def no_nul_def)
  ultimately show ?thesis
    using row by (simp add: joined_def task_row_ok_def pg_text_def)
qed

lemma record_event_succeeds:
  assumes "db_ok work" and "t \<in> set (tasks work)" and "env_ready e subj d"
    and "outbox work = outbox d" "outbox_seq work = outbox_seq d"
    and "etype \<in> {task_created, task_status_changed}"
    and "writable_time (tsk_created t)" "writable_time (tsk_updated t)"
  shows "\<exists>d'. record_event e etype subj (joined work t) msg good start work = (d', good)"
proof -
  let ?ev = "the_event e etype subj (joined work t)"
  have ready: "no_faults e" "event_inputs_ok e subj" using assms(3) by (simp_all add: env_ready_def)
  have etype: "utf8_ok etype" "no_nul etype"
    using assms(6) topic_utf8 by (auto simp: task_created_def task_status_changed_def no_nul_def)
  have typed: "envelope_typed ?ev"
    using the_event_typed [OF joined_typed [OF assms(1,2)] ready(2) etype(1)] .
  have times: "\<exists>s. format_time (ev_clock e) = Some s" "\<exists>s. format_time (tsk_created t) = Some s"
    "\<exists>s. format_time (tsk_updated t) = Some s"
    using format_time_defined assms(3,7,8) by (auto simp: env_ready_def writable_time_def)
  then obtain p where p: "encode_event ?ev = Some p"
    by (auto simp: encode_event_def envelope_members_def task_members_def the_event_def new_task_event_def joined_def)
  have nul: "event_no_nul ?ev"
    using task_texts [OF assms(1,2)] assms(3) etype(2)
    by (simp add: event_no_nul_def the_event_def new_task_event_def env_ready_def)
  have "\<exists>w. insert_outbox (ev_now e) ?ev work = (w, Inr ())"
  proof (rule insert_outbox_succeeds [OF typed p nul])
    show "1 \<le> task_version ?ev" "project_exists work (event_project ?ev)"
      using assms(1,2) by (auto simp: db_ok_defs task_row_ok_def joined_def)
  qed (use assms(1,3-5) etype in \<open>auto simp: env_ready_def event_inputs_ok_def db_ok_def\<close>)
  then show ?thesis
    using ready(1) by (auto simp: record_event_def run_stmt_def no_faults_def commit_def the_event_def [symmetric])
qed

section \<open>Creating a task\<close>

lemma valid_status_known: "valid_status s \<longleftrightarrow> known_status s"
  by (simp add: valid_status_def known_status_def)

lemma known_status_text:
  assumes "known_status s"
  shows "pg_text s"
proof -
  have "no_nul s" using assms unfolding known_status_def by (auto simp: no_nul_def)
  with known_status_utf8 [OF assms] show ?thesis by (simp add: pg_text_def)
qed

lemma trimmed_not_blank:
  assumes "trim_space s \<noteq> []"
  shows "not_blank (trim_space s)"
proof -
  obtain c u where first: "trim_space s = c # u" using assms by (cases "trim_space s") auto
  have "c \<noteq> CHR '' ''" using trim_space_no_leading [OF ascii_space_seqs, of s] first by auto
  then show ?thesis by (simp add: not_blank_def first)
qed

lemma insert_task_succeeds:
  assumes "pg_text titl" "pg_text desc" "known_status st" "not_blank titl" "tasks_seq d + 1 < 2 ^ 63"
    and "tasks_ok d" "project_exists d pid" "case a of None \<Rightarrow> True | Some i \<Rightarrow> user_exists d i"
  shows "insert_task now pid a titl desc st d =
    (d\<lparr>tasks_seq := tasks_seq d + 1, tasks := tasks d @ [fresh_task now pid a titl desc st d]\<rparr>,
     Inr (joined d (fresh_task now pid a titl desc st d)))"
proof -
  let ?d = "d\<lparr>tasks_seq := tasks_seq d + 1\<rparr>"
  have "tasks_seq d + 1 \<notin> tsk_id ` set (tasks d)"
    using assms(6) ids_ok_fresh by (auto simp: tasks_ok_def)
  moreover have "next_value ''tasks_id_seq'' (tasks_seq d) = Inr (tasks_seq d + 1)"
    using assms(5) by (simp add: next_value_def)
  moreover have "project_exists ?d pid" "case a of None \<Rightarrow> False | Some i \<Rightarrow> \<not> user_exists ?d i \<Longrightarrow> False"
    using assms(7,8) by (auto simp: project_exists_def user_exists_def split: option.splits)
  moreover have "joined ?d = joined d" using joined_cong [of ?d d] by auto
  ultimately show ?thesis
    using assms(1-4) known_status_text [OF assms(3)]
    by (auto simp: insert_task_def Let_def fresh_task_def)
qed

lemma create_task_runs:
  assumes "board_ok d" and ready: "env_ready e subj d" and pid: "path_id wild = Inr pid"
    and inp: "decode_json e task_input_fields inpt no_task_input = Inr inp"
    and ok: "acceptable inp" "pg_text (trim_space (in_task_title inp))" "pg_text (trim_space (in_task_description inp))"
    and "project_exists d pid" "case in_assignee inp of None \<Rightarrow> True | Some a \<Rightarrow> user_exists d a"
  shows "code (fst (snd (create_task e subj wild inpt d))) = 201"
proof -
  let ?row = "fresh_task (ev_now e) pid (in_assignee inp) (trim_space (in_task_title inp))
    (trim_space (in_task_description inp)) (chosen_status inp) d"
  let ?work = "d\<lparr>tasks_seq := tasks_seq d + 1, tasks := tasks d @ [?row]\<rparr>"
  have db: "db_ok d" using assms(1) by (simp add: board_ok_def)
  have blank: "not_blank (trim_space (in_task_title inp))"
    using ok(1) trimmed_not_blank by (simp add: acceptable_def)
  have st: "known_status (chosen_status inp)" "pg_text (chosen_status inp)"
    using ok(1) valid_status_known known_status_text by (auto simp: acceptable_def)
  have ins: "insert_task (ev_now e) pid (in_assignee inp) (trim_space (in_task_title inp))
      (trim_space (in_task_description inp)) (chosen_status inp) d = (?work, Inr (joined ?work ?row))"
    using insert_task_succeeds [OF ok(2,3) st(1) blank _ _ assms(8,9)] ready db joined_cong [of ?work d]
    by (simp add: env_ready_def db_ok_def)
  have work: "db_ok ?work" using insert_task_ok [OF db ins] by simp
  have "\<exists>d'. record_event e task_created subj (joined ?work ?row) msg good d ?work = (d', good)" for msg good
    by (rule record_event_succeeds [OF work _ ready]) (use ready in \<open>simp_all add: fresh_task_def env_ready_def\<close>)
  then have rec: "snd (record_event e task_created subj (joined ?work ?row) msg good d ?work) = good" for msg good
    by (metis snd_conv)
  show ?thesis
    using ready ok(1)
    by (simp add: create_task_def pid inp no_task_input_def [symmetric] chosen_status_def [symmetric]
        acceptable_def env_ready_def no_faults_def run_stmt_def ins Let_def rec)
qed

lemma create_task_result:
  assumes "create_task e subj wild inpt d = (d', resp)" and "code (fst resp) = 201"
    and "board_ok d" and "event_inputs_ok e subj"
  obtains pid inp row r ev where "path_id wild = Inr pid"
    "decode_json e task_input_fields inpt no_task_input = Inr inp" "acceptable inp"
    "row = fresh_task (ev_now e) pid (in_assignee inp) (trim_space (in_task_title inp))
      (trim_space (in_task_description inp)) (chosen_status inp) d"
    "tasks d' = tasks d @ [row]" "outbox d' = outbox d @ [r]" "users d' = users d" "projects d' = projects d"
    "carries r ev" "ev = the_event e task_created subj (joined d' row)"
    "body (fst resp) = encode_line (task_json (joined d' row))"
  using assms(1)
proof (cases rule: create_task_cases)
  case (created pid inp work t)
  let ?row = "fresh_task (ev_now e) pid (in_assignee inp) (trim_space (in_task_title inp))
    (trim_space (in_task_description inp)) (chosen_status inp) d"
  have db: "db_ok d" using assms(3) by (simp add: board_ok_def)
  from created(4) have t: "t = joined d ?row"
    and work: "work = d\<lparr>tasks_seq := tasks_seq d + 1, tasks := tasks d @ [?row]\<rparr>"
    by (auto elim!: insert_task_cases)
  have ok: "db_ok work" using insert_task_ok [OF db created(4)] by simp
  have row: "?row \<in> set (tasks work)" by (simp add: work)
  have t_work: "t = joined work ?row" using joined_cong [of work d] by (simp add: t work)
  have ids: "1 \<le> project_id t" "1 \<le> task_id t"
    using ok row ids_ok_int64 [of "map prj_id (projects work)"] ids_ok_int64 [of "map tsk_id (tasks work)"]
    by (auto simp: db_ok_defs t_work joined_def task_row_ok_def project_exists_def)
  have typed: "envelope_typed (the_event e task_created subj t)"
    using the_event_typed [OF _ assms(4) topic_utf8(1)] joined_typed [OF ok row] t_work by simp
  obtain r where r: "outbox d' = outbox work @ [r]" "carries r (the_event e task_created subj t)"
    and same: "users d' = users work" "projects d' = projects work" "tasks d' = tasks work"
    using insert_outbox_carries [OF created(5) typed the_event_envelope_ok [OF assms(4) ids]] by blast
  have t': "t = joined d' ?row" using joined_cong [OF same(1)] t_work by simp
  show thesis
    by (rule that [OF created(1-3) refl, of r "the_event e task_created subj t"])
      (use r same work t' created(6) assms(2) in \<open>auto simp: write_ok_def write_json_def json_reply_def write_error_def\<close>)
qed (use assms(2) in auto)

text \<open>Any status change that goes through bumps exactly the row it names.\<close>

lemma update_task_status_result:
  assumes "update_task_status e subj wild inpt d = (d', resp)" and "code (fst resp) = 200"
    and "board_ok d" and "event_inputs_ok e subj"
  obtains tid inp old r ev where "path_id wild = Inr tid"
    "decode_json e status_fields inpt \<lparr>in_status = []\<rparr> = Inr inp" "valid_status (in_status inp)"
    "old \<in> set (tasks d)" "tsk_id old = tid"
    "tasks d' = map (\<lambda>t. if tsk_id t = tid then bump (ev_now e) (in_status inp) t else t) (tasks d)"
    "outbox d' = outbox d @ [r]" "users d' = users d" "projects d' = projects d"
    "carries r ev" "ev = the_event e task_status_changed subj (joined d' (bump (ev_now e) (in_status inp) old))"
    "body (fst resp) = encode_line (task_json (joined d' (bump (ev_now e) (in_status inp) old)))"
  using assms(1)
proof (cases rule: update_task_status_cases)
  case (updated tid inp work t)
  let ?bump = "bump (ev_now e) (in_status inp)"
  have db: "db_ok d" using assms(3) by (simp add: board_ok_def)
  obtain old where old: "old \<in> set (tasks d)" "tsk_id old = tid" "t = joined d (?bump old)"
    and work: "work = d\<lparr>tasks := map (\<lambda>s. if tsk_id s = tid then ?bump s else s) (tasks d)\<rparr>"
    using updated(4) by (auto elim!: update_status_cases)
  have ok: "db_ok work" using update_status_ok [OF db updated(4)] by simp
  have "?bump old \<in> (\<lambda>s. if tsk_id s = tid then ?bump s else s) ` set (tasks d)"
    using old(1,2) by (auto intro: rev_image_eqI)
  then have row: "?bump old \<in> set (tasks work)" by (simp add: work)
  have t_work: "t = joined work (?bump old)" using joined_cong [of work d] by (simp add: old(3) work)
  have ids: "1 \<le> project_id t" "1 \<le> task_id t"
    using ok row ids_ok_int64 [of "map prj_id (projects work)"] ids_ok_int64 [of "map tsk_id (tasks work)"]
    by (auto simp: db_ok_defs t_work joined_def task_row_ok_def project_exists_def)
  have typed: "envelope_typed (the_event e task_status_changed subj t)"
    using the_event_typed [OF _ assms(4) topic_utf8(2)] joined_typed [OF ok row] t_work by simp
  obtain r where r: "outbox d' = outbox work @ [r]" "carries r (the_event e task_status_changed subj t)"
    and same: "users d' = users work" "projects d' = projects work" "tasks d' = tasks work"
    using insert_outbox_carries [OF updated(5) typed the_event_envelope_ok [OF assms(4) ids]] by blast
  have t': "t = joined d' (?bump old)" using joined_cong [OF same(1)] t_work by simp
  show thesis
    by (rule that [OF updated(1-3) old(1,2), of r "the_event e task_status_changed subj t"])
      (use r same work t' updated(6) assms(2) in \<open>auto simp: write_ok_def write_json_def json_reply_def write_error_def\<close>)
qed (use assms(2) in auto)

lemma update_task_status_runs:
  assumes "board_ok d" and ready: "env_ready e subj d" and tid: "path_id wild = Inr tid"
    and inp: "decode_json e status_fields inpt \<lparr>in_status = []\<rparr> = Inr inp" and st: "valid_status (in_status inp)"
    and t: "t \<in> set (tasks d)" "tsk_id t = tid" "tsk_version t < 2 ^ 63 - 1" "writable_time (tsk_created t)"
  shows "code (fst (snd (update_task_status e subj wild inpt d))) = 200"
proof -
  let ?bump = "bump (ev_now e) (in_status inp)"
  let ?work = "d\<lparr>tasks := map (\<lambda>s. if tsk_id s = tid then ?bump s else s) (tasks d)\<rparr>"
  have db: "db_ok d" using assms(1) by (simp add: board_ok_def)
  have find: "List.find (\<lambda>s. tsk_id s = tid) (tasks d) = Some t"
  proof (cases "List.find (\<lambda>s. tsk_id s = tid) (tasks d)")
    case None
    then show ?thesis using t(1,2) by (auto simp: find_None_iff)
  next
    case (Some s)
    with find_row [OF Some] t(1,2) db show ?thesis
      by (auto simp: db_ok_defs ids_ok_def distinct_map dest: inj_onD)
  qed
  have known: "known_status (in_status inp)" using st by (simp add: valid_status_known)
  have upd: "update_status (ev_now e) (in_status inp) tid d = (?work, Inr (Some (joined ?work (?bump t))))"
    using known known_status_text [OF known] t(3) joined_cong [of ?work d] find
    by (simp add: update_status_def)
  have work: "db_ok ?work" using update_status_ok [OF db upd] by simp
  have "?bump t \<in> (\<lambda>s. if tsk_id s = tid then ?bump s else s) ` set (tasks d)"
    using t(1,2) by (auto intro: rev_image_eqI)
  then have row: "?bump t \<in> set (tasks ?work)" by simp
  have "\<exists>d'. record_event e task_status_changed subj (joined ?work (?bump t)) msg good d ?work = (d', good)" for msg good
    by (rule record_event_succeeds [OF work row ready]) (use ready t(4) in \<open>simp_all add: bump_def env_ready_def\<close>)
  then have rec: "snd (record_event e task_status_changed subj (joined ?work (?bump t)) msg good d ?work) = good" for msg good
    by (metis snd_conv)
  show ?thesis
    using ready st
    by (simp add: update_task_status_def tid inp env_ready_def no_faults_def run_stmt_def upd rec)
qed

section \<open>Errors of the database\<close>

lemma contains_middle: "contains (a @ s @ b) s"
  by (simp add: contains_def)

lemma reference_error_recognised: "is_reference_error (reference_error table name)"
proof -
  have "\<exists>a b. reference_error table name = a @ ''foreign key constraint'' @ b"
    by (intro exI [of _ "''ERROR: insert or update on table '' @ [CHR 0x22] @ table @ [CHR 0x22] @ '' violates ''"]
        exI [of _ "'' '' @ [CHR 0x22] @ name @ [CHR 0x22] @ '' (SQLSTATE 23503)''"])
      (simp add: reference_error_def pg_error_def)
  then show ?thesis unfolding is_reference_error_def using contains_middle by metis
qed

lemma email_error_recognised: "contains (unique_error ''users_email_key'') ''users_email_key''"
proof -
  have "unique_error ''users_email_key'' = (''ERROR: duplicate key value violates unique constraint '' @ [CHR 0x22])
      @ ''users_email_key'' @ ([CHR 0x22] @ '' (SQLSTATE 23505)'')"
    by (simp add: unique_error_def pg_error_def)
  then show ?thesis using contains_middle by metis
qed

lemma create_task_missing:
  assumes "board_ok d" and "no_faults e" and pid: "path_id wild = Inr pid"
    and inp: "decode_json e task_input_fields inpt no_task_input = Inr inp"
    and ok: "acceptable inp" "pg_text (trim_space (in_task_title inp))" "pg_text (trim_space (in_task_description inp))"
    and "tasks_seq d + 1 < 2 ^ 63"
    and missing: "\<not> project_exists d pid \<or> (\<exists>a. in_assignee inp = Some a \<and> \<not> user_exists d a)"
  shows "same_tables d (fst (create_task e subj wild inpt d))
    \<and> code (fst (snd (create_task e subj wild inpt d))) = 400"
proof -
  let ?d = "d\<lparr>tasks_seq := tasks_seq d + 1\<rparr>"
  have db: "db_ok d" using assms(1) by (simp add: board_ok_def)
  have st: "known_status (chosen_status inp)" "pg_text (chosen_status inp)"
    using ok(1) valid_status_known known_status_text by (auto simp: acceptable_def)
  have "not_blank (trim_space (in_task_title inp))"
    using ok(1) trimmed_not_blank by (simp add: acceptable_def)
  moreover have "tasks_seq d + 1 \<notin> tsk_id ` set (tasks d)" using db ids_ok_fresh by (auto simp: db_ok_defs)
  moreover have "next_value ''tasks_id_seq'' (tasks_seq d) = Inr (tasks_seq d + 1)"
    using assms(8) by (simp add: next_value_def)
  moreover have "\<not> project_exists ?d pid \<or> (\<exists>a. in_assignee inp = Some a \<and> \<not> user_exists ?d a)"
    using missing by (simp add: project_exists_def user_exists_def)
  ultimately have ins: "insert_task (ev_now e) pid (in_assignee inp) (trim_space (in_task_title inp))
      (trim_space (in_task_description inp)) (chosen_status inp) d = (?d, Inl (reference_error ''tasks''
        (if project_exists ?d pid then ''tasks_assignee_id_fkey'' else ''tasks_project_id_fkey'')))"
    using ok st by (auto simp: insert_task_def Let_def)
  have "create_task e subj wild inpt d = (rolled_back d ?d, write_error 400 ''project or assignee does not exist'')"
    using assms(2) ok(1) reference_error_recognised
    by (simp add: create_task_def pid inp no_task_input_def [symmetric] chosen_status_def [symmetric]
        acceptable_def no_faults_def run_stmt_def ins Let_def)
  then show ?thesis by simp
qed

lemma update_task_status_missing:
  assumes "no_faults e" and "path_id wild = Inr tid"
    and "decode_json e status_fields inpt \<lparr>in_status = []\<rparr> = Inr inp" and "valid_status (in_status inp)"
    and "tid \<notin> tsk_id ` set (tasks d)"
  shows "same_tables d (fst (update_task_status e subj wild inpt d))
    \<and> code (fst (snd (update_task_status e subj wild inpt d))) = 404"
proof -
  have "pg_text (in_status inp)" using assms(4) valid_status_known known_status_text by blast
  moreover have "List.find (\<lambda>r. tsk_id r = tid) (tasks d) = None" using assms(5) by (auto simp: find_None_iff)
  ultimately have "update_status (ev_now e) (in_status inp) tid d = (d, Inr None)"
    by (simp add: update_status_def)
  then show ?thesis
    using assms(1-4) by (simp add: update_task_status_def no_faults_def run_stmt_def)
qed

text \<open>The name and the email as the handler stores them.\<close>

definition stored_email :: "env \<Rightarrow> user_input \<Rightarrow> string" where
  "stored_email e inp = to_lower (ev_unicode_lower e) (trim_space (in_email inp))"

lemma contains_at:
  assumes "contains s ''@''"
  shows "not_blank s"
proof -
  obtain ps ss where "s = ps @ ''@'' @ ss" using assms unfolding contains_def sublist_def by blast
  then have "CHR ''@'' \<in> set s" by simp
  then show ?thesis unfolding not_blank_def by (rule bexI [rotated]) simp
qed

lemma create_user_result:
  assumes "db_ok d" and "no_faults e" and inp: "decode_json e user_fields inpt \<lparr>in_name = [], in_email = []\<rparr> = Inr inp"
    and ok: "trim_space (in_name inp) \<noteq> []" "stored_email e inp \<noteq> []" "contains (stored_email e inp) ''@''"
      "pg_text (trim_space (in_name inp))" "pg_text (stored_email e inp)" "users_seq d + 1 < 2 ^ 63"
  shows "(case create_user e inpt d of (d', resp) \<Rightarrow>
    if stored_email e inp \<in> usr_email ` set (users d) then code (fst resp) = 409 \<and> same_tables d d'
    else code (fst resp) = 201 \<and> users d' = users d @ [\<lparr>usr_id = users_seq d + 1,
        usr_name = trim_space (in_name inp), usr_email = stored_email e inp, usr_created = ev_now e\<rparr>]
      \<and> projects d' = projects d \<and> tasks d' = tasks d \<and> outbox d' = outbox d)"
proof -
  have "users_seq d + 1 \<notin> usr_id ` set (users d)" using assms(1) ids_ok_fresh by (auto simp: db_ok_defs)
  moreover have "next_value ''users_id_seq'' (users_seq d) = Inr (users_seq d + 1)"
    using ok(6) by (simp add: next_value_def)
  ultimately show ?thesis
    using assms(2) ok trimmed_not_blank [OF ok(1)] contains_at [OF ok(3)] email_error_recognised
    by (simp add: create_user_def inp stored_email_def [symmetric] Let_def no_faults_def run_stmt_def
        insert_user_def same_tables_def)
qed

section \<open>All or nothing\<close>

text \<open>The complete effect of one request: one user, one project, or one task row and its event.\<close>

definition task_change :: "db \<Rightarrow> db \<Rightarrow> bool" where
  "task_change d d' \<longleftrightarrow>
     users d' = users d \<and> projects d' = projects d
     \<and> (\<exists>t r. outbox d' = outbox d @ [r] \<and> aggregate_id r = tsk_id t \<and> aggregate_version r = tsk_version t
          \<and> ob_project r = tsk_project t \<and> published_at r = None \<and> dead_at r = None
          \<and> (tasks d' = tasks d @ [t]
             \<or> (\<exists>now st old. old \<in> set (tasks d) \<and> t = bump now st old
                  \<and> tasks d' = map (\<lambda>s. if tsk_id s = tsk_id old then bump now st s else s) (tasks d))))"

definition whole_change :: "db \<Rightarrow> db \<Rightarrow> bool" where
  "whole_change d d' \<longleftrightarrow>
     (\<exists>u. users d' = users d @ [u]) \<and> projects d' = projects d \<and> tasks d' = tasks d \<and> outbox d' = outbox d
     \<or> users d' = users d \<and> (\<exists>p. projects d' = projects d @ [p]) \<and> tasks d' = tasks d \<and> outbox d' = outbox d
     \<or> task_change d d'"

lemma insert_outbox_row:
  assumes "insert_outbox now ev work = (d', Inr ())"
  obtains r where "outbox d' = outbox work @ [r]" "users d' = users work" "projects d' = projects work"
    "tasks d' = tasks work" "aggregate_id r = event_task_id ev" "aggregate_version r = task_version ev"
    "ob_project r = event_project ev" "published_at r = None" "dead_at r = None"
  using assms by (auto elim!: insert_outbox_cases simp: new_outbox_row_def intro: that)

lemma create_task_whole:
  assumes "create_task e subj wild inpt d = (d', resp)"
  shows "same_tables d d' \<and> code (fst resp) \<in> {400, 500} \<or> task_change d d' \<and> code (fst resp) \<in> {201, 500}"
  using assms
proof (cases rule: create_task_cases)
  case (created pid inp work t)
  let ?row = "fresh_task (ev_now e) pid (in_assignee inp) (trim_space (in_task_title inp))
    (trim_space (in_task_description inp)) (chosen_status inp) d"
  from created(4) have t: "t = joined d ?row"
    and work: "work = d\<lparr>tasks_seq := tasks_seq d + 1, tasks := tasks d @ [?row]\<rparr>"
    by (auto elim!: insert_task_cases)
  have "task_change d d'"
    unfolding task_change_def
    by (rule insert_outbox_row [OF created(5)]) (auto simp: work t joined_def)
  with created(6) show ?thesis by auto
qed auto

lemma update_task_status_whole:
  assumes "update_task_status e subj wild inpt d = (d', resp)"
  shows "same_tables d d' \<and> code (fst resp) \<in> {400, 404, 500} \<or> task_change d d' \<and> code (fst resp) \<in> {200, 500}"
  using assms
proof (cases rule: update_task_status_cases)
  case (updated tid inp work t)
  let ?bump = "bump (ev_now e) (in_status inp)"
  obtain old where old: "old \<in> set (tasks d)" "tsk_id old = tid" "t = joined d (?bump old)"
    and work: "work = d\<lparr>tasks := map (\<lambda>s. if tsk_id s = tid then ?bump s else s) (tasks d)\<rparr>"
    using updated(4) by (auto elim!: update_status_cases)
  obtain r where r: "outbox d' = outbox work @ [r]" "users d' = users work" "projects d' = projects work"
    "tasks d' = tasks work" "aggregate_id r = task_id t" "aggregate_version r = version t"
    "ob_project r = project_id t" "published_at r = None" "dead_at r = None"
    using insert_outbox_row [OF updated(5)] by auto
  have "\<exists>now st old'. old' \<in> set (tasks d) \<and> ?bump old = bump now st old'
      \<and> tasks d' = map (\<lambda>s. if tsk_id s = tsk_id old' then bump now st s else s) (tasks d)"
    using old(1,2) by (intro exI [of _ "ev_now e"] exI [of _ "in_status inp"] exI [of _ old]) (simp add: r(4) work)
  with r have "task_change d d'"
    unfolding task_change_def
    by (intro conjI exI [of _ "?bump old"] exI [of _ r]) (simp_all add: work old(3) joined_def)
  with updated(6) show ?thesis by auto
qed auto

lemma insert_user_whole:
  assumes "insert_user now name email d = (d', r)"
  shows "same_tables d d' \<and> (\<exists>e. r = Inl e) \<or> whole_change d d' \<and> (\<exists>u. r = Inr u)"
proof (cases r)
  case (Inl e)
  then show ?thesis
    using assms by (auto simp: insert_user_def Let_def same_tables_def split: if_splits sum.splits)
next
  case (Inr u)
  then have "users d' = users d @ [u] \<and> projects d' = projects d \<and> tasks d' = tasks d \<and> outbox d' = outbox d"
    using assms by (auto simp: insert_user_def Let_def split: if_splits sum.splits)
  with Inr show ?thesis unfolding whole_change_def by blast
qed

lemma insert_project_whole:
  assumes "insert_project now name desc d = (d', r)"
  shows "same_tables d d' \<and> (\<exists>e. r = Inl e) \<or> whole_change d d' \<and> (\<exists>p. r = Inr p)"
proof (cases r)
  case (Inl e)
  then show ?thesis
    using assms by (auto simp: insert_project_def Let_def same_tables_def split: if_splits sum.splits)
next
  case (Inr p)
  then have "users d' = users d \<and> projects d' = projects d @ [p] \<and> tasks d' = tasks d \<and> outbox d' = outbox d"
    using assms by (auto simp: insert_project_def Let_def split: if_splits sum.splits)
  with Inr show ?thesis unfolding whole_change_def by blast
qed

lemma run_stmt_whole:
  assumes "run_stmt f stmt d = (w, r)"
    and "\<And>w r. stmt d = (w, r) \<Longrightarrow> same_tables d w \<and> (\<exists>e. r = Inl e) \<or> whole_change d w \<and> (\<exists>x. r = Inr x)"
  obtains (failed) err where "r = Inl err" "same_tables d w"
  | (lost) err where "r = Inl err" "f = LostAfter err" "whole_change d w"
  | (succeeded) x where "r = Inr x" "whole_change d w"
proof (cases f)
  case NoFault
  then show thesis using assms(1) assms(2) [of w r] that by (auto simp: run_stmt_def)
next
  case (Lost err)
  then show thesis using assms(1) failed [of err] by (auto simp: run_stmt_def)
next
  case (LostAfter err)
  obtain w' r' where "stmt d = (w', r')" by fastforce
  with LostAfter show thesis using assms(1) assms(2) failed lost by (auto simp: run_stmt_def)
qed

lemma create_user_whole:
  assumes call: "create_user e inpt d = (d', resp)"
    and "\<forall>err. ev_stmt e = LostAfter err \<longrightarrow> \<not> contains err ''users_email_key''"
  shows "same_tables d d' \<and> code (fst resp) \<in> {400, 409, 500} \<or> whole_change d d' \<and> code (fst resp) \<in> {201, 500}"
proof (cases "decode_json e user_fields inpt \<lparr>in_name = [], in_email = []\<rparr>")
  case (Inl r)
  then show ?thesis using call decode_json_Inl [OF Inl] by (auto simp: create_user_def)
next
  case (Inr inp)
  define name where "name = trim_space (in_name inp)"
  define email where "email = to_lower (ev_unicode_lower e) (trim_space (in_email inp))"
  obtain w r where stmt: "run_stmt (ev_stmt e) (insert_user (ev_now e) name email) d = (w, r)" by fastforce
  note handler = call [unfolded create_user_def Inr sum.case Let_def, folded name_def email_def, unfolded stmt prod.case]
  show ?thesis
    by (cases rule: run_stmt_whole [OF stmt insert_user_whole]) (use handler assms(2) in \<open>auto split: if_splits\<close>)
qed

lemma create_project_whole:
  assumes call: "create_project e inpt d = (d', resp)"
  shows "same_tables d d' \<and> code (fst resp) \<in> {400, 500} \<or> whole_change d d' \<and> code (fst resp) \<in> {201, 500}"
proof (cases "decode_json e project_fields inpt \<lparr>in_title = [], in_description = []\<rparr>")
  case (Inl r)
  then show ?thesis using call decode_json_Inl [OF Inl] by (auto simp: create_project_def)
next
  case (Inr inp)
  define name where "name = trim_space (in_title inp)"
  define desc where "desc = trim_space (in_description inp)"
  obtain w r where stmt: "run_stmt (ev_stmt e) (insert_project (ev_now e) name desc) d = (w, r)" by fastforce
  note handler = call [unfolded create_project_def Inr sum.case Let_def, folded name_def desc_def, unfolded stmt prod.case]
  show ?thesis
    by (cases rule: run_stmt_whole [OF stmt insert_project_whole]) (use handler in \<open>auto split: if_splits\<close>)
qed

lemma run_endpoint_whole:
  assumes "run_endpoint e subj ep wild inpt d = (d', resp)"
    and "\<forall>err. ev_stmt e = LostAfter err \<longrightarrow> \<not> contains err ''users_email_key''"
  shows "same_tables d d' \<or> whole_change d d' \<and> code (fst resp) \<in> {200, 201, 500}"
proof (cases ep)
  case CreateUser
  then show ?thesis using assms create_user_whole [of e inpt d d' resp] by (auto simp: run_endpoint_def)
next
  case CreateProject
  then show ?thesis using assms(1) create_project_whole [of e inpt d d' resp] by (auto simp: run_endpoint_def)
next
  case CreateTask
  then show ?thesis
    using assms(1) create_task_whole [of e subj wild inpt d d' resp] by (auto simp: run_endpoint_def whole_change_def)
next
  case UpdateTaskStatus
  then show ?thesis
    using assms(1) update_task_status_whole [of e subj wild inpt d d' resp]
    by (auto simp: run_endpoint_def whole_change_def)
qed (use assms(1) in \<open>auto simp: run_endpoint_def\<close>)

lemma serve_protected_whole:
  assumes "serve_protected e subj r d = (d', resp)"
    and "\<forall>err. ev_stmt e = LostAfter err \<longrightarrow> \<not> contains err ''users_email_key''"
  shows "same_tables d d' \<or> whole_change d d' \<and> code (fst resp) \<in> {200, 201, 500}"
  using assms(1) run_endpoint_whole [OF _ assms(2)]
  by (cases "mux_find protected (req_method r) (req_path r)") (auto simp: serve_protected_def)

lemma serve_http_whole:
  assumes "serve_http ver ui files ve e r (s, d) = ((s', d'), (reply, logs), obs)"
    and "\<forall>err. ev_stmt e = LostAfter err \<longrightarrow> \<not> contains err ''users_email_key''"
  shows "same_tables d d' \<or> whole_change d d' \<and> code reply \<in> {200, 201, 500}"
proof (cases "d' = d")
  case False
  obtain t vd where v: "ver ve (req_authorization r) s = (t, vd)" by fastforce
  obtain resp where auth: "authorize ver ve e r (s, d) = ((s', d'), resp)" "code reply = code (fst resp)"
    using assms(1) False
    by (auto simp: serve_http_def dispatch_def with_header_def Let_def split: prod.splits dispatch.splits area.splits)
  then have "\<exists>subj resp'. serve_protected e subj r d = (d', resp') \<and> code (fst resp) = code (fst resp')"
    using False v
    by (auto simp: authorize_def decide_def after_log_def split: prod.splits sum.splits if_splits) metis
  then show ?thesis using serve_protected_whole [OF _ assms(2)] auth(2) by metis
qed simp

section \<open>Reading\<close>

lemma list_tasks_result:
  assumes "no_faults e" and "path_id wild = Inr pid"
  obtains ts where "fst (list_tasks e wild d) = write_json 200 (array_json task_json ts)"
    "mset ts = image_mset (joined d) (mset (filter (\<lambda>t. tsk_project t = pid) (tasks d)))"
    "sorted (map created_at ts)"
proof -
  have "sorted (map created_at (select_tasks pid d))"
    using sorted_sort_key [of tsk_created "filter (\<lambda>t. tsk_project t = pid) (tasks d)"]
    by (simp add: select_tasks_def comp_def joined_def)
  moreover have "mset (select_tasks pid d)
      = image_mset (joined d) (mset (filter (\<lambda>t. tsk_project t = pid) (tasks d)))"
    unfolding select_tasks_def mset_map by (simp only: mset_sort)
  ultimately show thesis
    using that [of "select_tasks pid d"] assms
    by (simp add: list_tasks_def read_rows_def no_faults_def write_ok_def)
qed

section \<open>A sample board\<close>

definition sample_time :: instant where "sample_time = 1700000000 * second"

definition sample_board :: db where
  "sample_board =
     \<lparr>users = [\<lparr>usr_id = 1, usr_name = ''Ada'', usr_email = ''a@b'', usr_created = sample_time\<rparr>],
      projects = [\<lparr>prj_id = 1, prj_name = ''Lab'', prj_description = [], prj_created = sample_time\<rparr>],
      tasks = [\<lparr>tsk_id = 1, tsk_project = 1, tsk_assignee = Some 1, tsk_title = ''Ship'',
                tsk_description = [], tsk_status = ''todo'', tsk_version = 1,
                tsk_created = sample_time, tsk_updated = sample_time\<rparr>],
      outbox = [], users_seq = 1, projects_seq = 1, tasks_seq = 1, outbox_seq = 0\<rparr>"

lemma sample_board_ok: "board_ok sample_board"
proof -
  have "db_ok sample_board"
    by (simp add: sample_board_def db_ok_defs ids_ok_def task_row_ok_def not_blank_def pg_text_def no_nul_def
        known_status_def project_exists_def user_exists_def utf8_ok_ascii)
  moreover have "history_ok sample_board"
    by (simp add: history_ok_def task_history_ok_def events_of_def sample_board_def)
  ultimately show ?thesis by (simp add: board_ok_def)
qed

lemma sample_env_ready: "env_ready sample_env ''s'' sample_board"
  by (simp add: env_ready_def no_faults_def sample_env_def event_inputs_ok_def carrier_get_def no_nul_def
      writable_time_def sample_board_def utf8_ok_ascii duration_defs)

lemma sample_env_inputs: "event_inputs_ok sample_env ''s''"
  using sample_env_ready by (simp add: env_ready_def)

lemma sample_env_faultless: "no_faults sample_env"
  using sample_env_ready by (simp add: env_ready_def)

lemma decode_json_marshal:
  assumes "writable max_nesting v" and "length (marshal v) \<le> max_body" and "decode_struct True fs v r = Inr x"
  shows "decode_json e fs (marshal v) r = Inr x"
  using assms by (simp add: decode_json_def decode_first_marshal)

definition sample_new_task :: json where
  "sample_new_task = JObj [(''title'', JStr ''Test''), (''assignee_id'', JNum ''1'')]"

definition sample_new_input :: task_input where
  "sample_new_input =
     \<lparr>in_task_title = ''Test'', in_task_description = [], in_assignee = Some 1, in_task_status = []\<rparr>"

lemma sample_lengths:
  "length (marshal sample_new_task) \<le> 100" "length (marshal (JObj [(''status'', JStr ''done'')])) \<le> 100"
  unfolding sample_new_task_def by code_simp+

lemma parse_one: "parse_int64 ''1'' = Some 1" "parse_int64 ''7'' = Some 7"
  by code_simp+

lemma sample_new_decoded:
  "decode_json e task_input_fields (marshal sample_new_task) no_task_input = Inr sample_new_input"
proof (rule decode_json_marshal)
  have "format_int 10 1 = ''1''" by code_simp
  then have "int_literal ''1''" unfolding int_literal_def by metis
  then show "writable max_nesting sample_new_task"
    by (simp add: sample_new_task_def max_nesting_def utf8_ok_ascii)
  show "length (marshal sample_new_task) \<le> max_body" using sample_lengths(1) by (simp add: max_body_def)
  show "decode_struct True task_input_fields sample_new_task no_task_input = Inr sample_new_input"
    by (simp add: decode_struct_def sample_new_task_def task_input_fields_def no_task_input_def
        sample_new_input_def find_field_def field_def parse_one)
qed

lemma sample_status_decoded:
  "decode_json e status_fields (marshal (JObj [(''status'', JStr ''done'')])) \<lparr>in_status = []\<rparr>
    = Inr \<lparr>in_status = ''done''\<rparr>"
proof (rule decode_json_marshal)
  show "writable max_nesting (JObj [(''status'', JStr ''done'')])"
    by (simp add: max_nesting_def utf8_ok_ascii)
  show "length (marshal (JObj [(''status'', JStr ''done'')])) \<le> max_body"
    using sample_lengths(2) by (simp add: max_body_def)
  show "decode_struct True status_fields (JObj [(''status'', JStr ''done'')]) \<lparr>in_status = []\<rparr> = Inr \<lparr>in_status = ''done''\<rparr>"
    by (simp add: decode_struct_def status_fields_def find_field_def field_def)
qed

lemma sample_new_acceptable:
  "acceptable sample_new_input" "trim_space (in_task_title sample_new_input) = ''Test''"
  "trim_space (in_task_description sample_new_input) = []" "in_assignee sample_new_input = Some 1"
  by (simp_all add: acceptable_def sample_new_input_def chosen_status_def valid_status_def
      trim_space_visible visible_def)

lemma sample_times: "writable_time sample_time" "tsk_created (hd (tasks sample_board)) = sample_time"
  by (simp_all add: writable_time_def sample_time_def sample_board_def duration_defs)

section \<open>Properties\<close>

text \<open>C5. A creation that is answered 201 has appended exactly one task and exactly one outbox row:
  the task has the project of the path, the trimmed title and description, the given assignee and
  status (\<open>todo\<close> when none is given) and version 1, the outbox row carries a \<open>task.created\<close> event
  with that very task, and the body of the reply is that task.\<close>

theorem create_task_created:
  assumes "create_task e subj wild inpt d = (d', resp)" and "code (fst resp) = 201"
    and "board_ok d" and "event_inputs_ok e subj"
  shows "\<exists>pid inp row r ev. path_id wild = Inr pid
    \<and> decode_json e task_input_fields inpt no_task_input = Inr inp
    \<and> tasks d' = tasks d @ [row] \<and> outbox d' = outbox d @ [r] \<and> users d' = users d \<and> projects d' = projects d
    \<and> tsk_id row = tasks_seq d + 1 \<and> tsk_project row = pid \<and> tsk_assignee row = in_assignee inp
    \<and> tsk_title row = trim_space (in_task_title inp) \<and> tsk_title row \<noteq> []
    \<and> tsk_description row = trim_space (in_task_description inp)
    \<and> tsk_status row = (if in_task_status inp = [] then ''todo'' else in_task_status inp)
    \<and> tsk_status row \<in> {''todo'', ''in_progress'', ''done''} \<and> tsk_version row = 1
    \<and> carries r ev \<and> event_type ev = ''task.created'' \<and> event_task ev = joined d' row
    \<and> actor_subject ev = subj \<and> body (fst resp) = encode_line (task_json (joined d' row))"
proof -
  obtain pid inp row r ev where "path_id wild = Inr pid"
    "decode_json e task_input_fields inpt no_task_input = Inr inp" "acceptable inp"
    "row = fresh_task (ev_now e) pid (in_assignee inp) (trim_space (in_task_title inp))
      (trim_space (in_task_description inp)) (chosen_status inp) d"
    "tasks d' = tasks d @ [row]" "outbox d' = outbox d @ [r]" "users d' = users d" "projects d' = projects d"
    "carries r ev" "ev = the_event e task_created subj (joined d' row)"
    "body (fst resp) = encode_line (task_json (joined d' row))"
    by (rule create_task_result [OF assms])
  then show ?thesis
    by (intro exI [of _ pid] exI [of _ inp] exI [of _ row] exI [of _ r] exI [of _ ev])
      (simp add: fresh_task_def acceptable_def valid_status_def chosen_status_def task_created_def
        the_event_def new_task_event_def)
qed

theorem create_task_created_witness:
  "\<exists>d' resp row r. create_task sample_env ''s'' [''1''] (marshal sample_new_task) sample_board = (d', resp)
    \<and> code (fst resp) = 201 \<and> tasks d' = tasks sample_board @ [row] \<and> outbox d' = [r]
    \<and> tsk_title row = ''Test'' \<and> tsk_version row = 1"
proof -
  obtain d' resp where run: "create_task sample_env ''s'' [''1''] (marshal sample_new_task) sample_board = (d', resp)"
    by (rule prod.exhaust)
  have pid: "path_id [''1''] = Inr 1" by (simp add: path_id_def parse_one)
  have "code (fst (snd (create_task sample_env ''s'' [''1''] (marshal sample_new_task) sample_board))) = 201"
    by (rule create_task_runs [OF sample_board_ok sample_env_ready pid sample_new_decoded sample_new_acceptable(1)])
      (simp_all add: sample_new_acceptable sample_text pg_text_def no_nul_def utf8_ok_ascii,
        simp_all add: sample_board_def project_exists_def user_exists_def)
  then have made: "code (fst resp) = 201" by (simp add: run)
  from create_task_created [OF run made sample_board_ok sample_env_inputs] sample_new_decoded run made
  show ?thesis by (auto simp: sample_new_acceptable sample_board_def)
qed

text \<open>C28. When nothing outside the program fails, every well-formed creation succeeds: on a sound
  board, an existing project, an existing assignee or none, a title that is not blank, a known
  status and storable texts are enough for the reply 201.\<close>

theorem create_task_succeeds:
  assumes "board_ok d" and "env_ready e subj d" and "path_id wild = Inr pid"
    and "decode_json e task_input_fields inpt no_task_input = Inr inp" and "acceptable inp"
    and "pg_text (trim_space (in_task_title inp))" and "pg_text (trim_space (in_task_description inp))"
    and "project_exists d pid" and "case in_assignee inp of None \<Rightarrow> True | Some a \<Rightarrow> user_exists d a"
  shows "code (fst (snd (create_task e subj wild inpt d))) = 201"
  by (rule create_task_runs [OF assms])

theorem create_task_succeeds_witness:
  "code (fst (snd (create_task sample_env ''s'' [''1''] (marshal sample_new_task) sample_board))) = 201"
  by (rule create_task_succeeds [OF sample_board_ok sample_env_ready _ sample_new_decoded sample_new_acceptable(1)])
    (simp_all add: path_id_def parse_one sample_new_acceptable pg_text_def no_nul_def utf8_ok_ascii,
      simp_all add: sample_board_def project_exists_def user_exists_def)

text \<open>C30. A creation that names a project or an assignee that does not exist is answered 400 (the
  handler recognises the foreign-key error of the database) and leaves all tables as they were.\<close>

theorem create_task_bad_reference:
  assumes "board_ok d" and "no_faults e" and "path_id wild = Inr pid"
    and "decode_json e task_input_fields inpt no_task_input = Inr inp" and "acceptable inp"
    and "pg_text (trim_space (in_task_title inp))" and "pg_text (trim_space (in_task_description inp))"
    and "tasks_seq d + 1 < 2 ^ 63"
    and "\<not> project_exists d pid \<or> (\<exists>a. in_assignee inp = Some a \<and> \<not> user_exists d a)"
  shows "same_tables d (fst (create_task e subj wild inpt d))
    \<and> code (fst (snd (create_task e subj wild inpt d))) = 400"
  by (rule create_task_missing [OF assms])

theorem create_task_bad_reference_witness:
  "code (fst (snd (create_task sample_env ''s'' [''7''] (marshal sample_new_task) sample_board))) = 400"
proof -
  have "path_id [''7''] = Inr 7" by (simp add: path_id_def parse_one)
  from create_task_bad_reference
    [OF sample_board_ok sample_env_faultless this sample_new_decoded sample_new_acceptable(1)]
  show ?thesis
    by (simp add: sample_new_acceptable pg_text_def no_nul_def utf8_ok_ascii)
      (simp add: sample_board_def project_exists_def)
qed

text \<open>C12. A status change that is answered 200 has replaced exactly the row of the task in the path
  by the same row with the new status, the next version and a new update time, and appended exactly
  one outbox row, which carries a \<open>task.status_changed\<close> event with the changed task; all other rows
  are untouched.\<close>

theorem status_change_applied:
  assumes "update_task_status e subj wild inpt d = (d', resp)" and "code (fst resp) = 200"
    and "board_ok d" and "event_inputs_ok e subj"
  shows "\<exists>tid inp old r ev. path_id wild = Inr tid
    \<and> decode_json e status_fields inpt \<lparr>in_status = []\<rparr> = Inr inp
    \<and> in_status inp \<in> {''todo'', ''in_progress'', ''done''}
    \<and> old \<in> set (tasks d) \<and> tsk_id old = tid
    \<and> tasks d' = map (\<lambda>t. if tsk_id t = tid
          then t\<lparr>tsk_status := in_status inp, tsk_version := tsk_version t + 1, tsk_updated := ev_now e\<rparr> else t) (tasks d)
    \<and> outbox d' = outbox d @ [r] \<and> users d' = users d \<and> projects d' = projects d
    \<and> carries r ev \<and> event_type ev = ''task.status_changed'' \<and> actor_subject ev = subj
    \<and> task_version ev = tsk_version old + 1 \<and> status (event_task ev) = in_status inp
    \<and> body (fst resp) = encode_line (task_json (event_task ev))"
proof -
  obtain tid inp old r ev where "path_id wild = Inr tid"
    "decode_json e status_fields inpt \<lparr>in_status = []\<rparr> = Inr inp" "valid_status (in_status inp)"
    "old \<in> set (tasks d)" "tsk_id old = tid"
    "tasks d' = map (\<lambda>t. if tsk_id t = tid then bump (ev_now e) (in_status inp) t else t) (tasks d)"
    "outbox d' = outbox d @ [r]" "users d' = users d" "projects d' = projects d"
    "carries r ev" "ev = the_event e task_status_changed subj (joined d' (bump (ev_now e) (in_status inp) old))"
    "body (fst resp) = encode_line (task_json (joined d' (bump (ev_now e) (in_status inp) old)))"
    by (rule update_task_status_result [OF assms])
  then show ?thesis
    by (intro exI [of _ tid] exI [of _ inp] exI [of _ old] exI [of _ r] exI [of _ ev])
      (simp add: bump_def valid_status_def task_status_changed_def the_event_def new_task_event_def joined_def)
qed

lemma sample_change_runs:
  "code (fst (snd (update_task_status sample_env ''s'' [''1''] (marshal (JObj [(''status'', JStr ''done'')])) sample_board))) = 200"
  by (rule update_task_status_runs [OF sample_board_ok sample_env_ready _ sample_status_decoded, of _ 1 "hd (tasks sample_board)"])
    (simp_all add: path_id_def parse_one valid_status_def sample_times del: marshal.simps,
      simp_all add: sample_board_def)

theorem status_change_applied_witness:
  "\<exists>d' resp r. update_task_status sample_env ''s'' [''1''] (marshal (JObj [(''status'', JStr ''done'')])) sample_board
      = (d', resp) \<and> map tsk_version (tasks d') = [2] \<and> map tsk_status (tasks d') = [''done''] \<and> outbox d' = [r]"
proof -
  obtain d' resp where run:
    "update_task_status sample_env ''s'' [''1''] (marshal (JObj [(''status'', JStr ''done'')])) sample_board = (d', resp)"
    by (rule prod.exhaust)
  have "code (fst resp) = 200" using sample_change_runs run by (simp del: marshal.simps)
  from status_change_applied [OF run this sample_board_ok sample_env_inputs] sample_status_decoded run
  show ?thesis by (auto simp: sample_board_def path_id_def parse_one simp del: marshal.simps)
qed

text \<open>C29. When nothing outside the program fails, a well-formed status change of an existing task
  (whose version has not reached the end of 64 bits) is answered 200, and one of a task that does
  not exist is answered 404 and changes no table.\<close>

theorem status_change_answers:
  assumes "board_ok d" and "env_ready e subj d" and "path_id wild = Inr tid"
    and "decode_json e status_fields inpt \<lparr>in_status = []\<rparr> = Inr inp" and "valid_status (in_status inp)"
    and "\<forall>t \<in> set (tasks d). tsk_version t < 2 ^ 63 - 1 \<and> writable_time (tsk_created t)"
  shows "case update_task_status e subj wild inpt d of (d', resp) \<Rightarrow>
    if tid \<in> tsk_id ` set (tasks d) then code (fst resp) = 200
    else code (fst resp) = 404 \<and> same_tables d d'"
proof (cases "tid \<in> tsk_id ` set (tasks d)")
  case True
  then obtain t where "t \<in> set (tasks d)" "tsk_id t = tid" by blast
  with update_task_status_runs [OF assms(1-5)] assms(6) True show ?thesis by (simp add: split_beta)
next
  case False
  have "no_faults e" using assms(2) by (simp add: env_ready_def)
  from update_task_status_missing [OF this assms(3-5) False] False show ?thesis by (simp add: split_beta)
qed

theorem status_change_answers_witness:
  "code (fst (snd (update_task_status sample_env ''s'' [''1''] (marshal (JObj [(''status'', JStr ''done'')])) sample_board))) = 200
    \<and> code (fst (snd (update_task_status sample_env ''s'' [''7''] (marshal (JObj [(''status'', JStr ''done'')])) sample_board))) = 404"
proof -
  have pids: "path_id [''1''] = Inr 1" "path_id [''7''] = Inr 7" by (simp_all add: path_id_def parse_one)
  have "1 \<in> tsk_id ` set (tasks sample_board)" "7 \<notin> tsk_id ` set (tasks sample_board)"
    "\<forall>t \<in> set (tasks sample_board). tsk_version t < 2 ^ 63 - 1 \<and> writable_time (tsk_created t)"
    using sample_times(1) by (simp_all add: sample_board_def)
  with status_change_answers [OF sample_board_ok sample_env_ready pids(1) sample_status_decoded]
    status_change_answers [OF sample_board_ok sample_env_ready pids(2) sample_status_decoded]
  show ?thesis by (simp add: valid_status_def split_beta del: marshal.simps)
qed

text \<open>C31. A registration with a name and an address with an at sign is answered 409 and changes no table when the
  lowered address is taken, and otherwise stores exactly that user and is answered 201; no check
  constraint of the database is ever violated by input the handler lets through.\<close>

theorem create_user_outcome:
  assumes "db_ok d" and "no_faults e"
    and "decode_json e user_fields inpt \<lparr>in_name = [], in_email = []\<rparr> = Inr inp"
    and "trim_space (in_name inp) \<noteq> []" and "stored_email e inp \<noteq> []" and "contains (stored_email e inp) ''@''"
    and "pg_text (trim_space (in_name inp))" and "pg_text (stored_email e inp)" and "users_seq d + 1 < 2 ^ 63"
  shows "case create_user e inpt d of (d', resp) \<Rightarrow>
    if stored_email e inp \<in> usr_email ` set (users d) then code (fst resp) = 409 \<and> same_tables d d'
    else code (fst resp) = 201 \<and> users d' = users d @ [\<lparr>usr_id = users_seq d + 1,
        usr_name = trim_space (in_name inp), usr_email = stored_email e inp, usr_created = ev_now e\<rparr>]
      \<and> projects d' = projects d \<and> tasks d' = tasks d \<and> outbox d' = outbox d"
  by (rule create_user_result [OF assms])

definition sample_user :: json where
  "sample_user = JObj [(''name'', JStr ''Eve''), (''email'', JStr ''A@B'')]"

lemma sample_user_decoded:
  "decode_json e user_fields (marshal sample_user) \<lparr>in_name = [], in_email = []\<rparr>
    = Inr \<lparr>in_name = ''Eve'', in_email = ''A@B''\<rparr>"
proof (rule decode_json_marshal)
  show "writable max_nesting sample_user" by (simp add: sample_user_def max_nesting_def utf8_ok_ascii)
  have "length (marshal sample_user) \<le> 100" unfolding sample_user_def by code_simp
  then show "length (marshal sample_user) \<le> max_body" by (simp add: max_body_def)
  show "decode_struct True user_fields sample_user \<lparr>in_name = [], in_email = []\<rparr> = Inr \<lparr>in_name = ''Eve'', in_email = ''A@B''\<rparr>"
    by (simp add: decode_struct_def sample_user_def user_fields_def find_field_def field_def)
qed

theorem create_user_outcome_witness:
  "code (fst (snd (create_user sample_env (marshal sample_user) sample_board))) = 409
    \<and> code (fst (snd (create_user sample_env (marshal sample_user) empty_db))) = 201
    \<and> map usr_email (users (fst (create_user sample_env (marshal sample_user) empty_db))) = [''a@b'']"
proof -
  have email: "stored_email sample_env \<lparr>in_name = ''Eve'', in_email = ''A@B''\<rparr> = ''a@b''"
  proof -
    have "map ascii_lower ''A@B'' = ''a@b''" by code_simp
    then show ?thesis by (simp add: stored_email_def to_lower_def is_ascii_def trim_space_visible visible_def)
  qed
  have at: "contains ''a@b'' ''@''" using contains_middle [of "''a''" "''@''" "''b''"] by simp
  have db: "db_ok sample_board" using sample_board_ok by (simp add: board_ok_def)
  have none: "db_ok empty_db" by (rule empty_db_ok)
  from create_user_outcome [OF db sample_env_faultless sample_user_decoded] at
  have taken: "code (fst (snd (create_user sample_env (marshal sample_user) sample_board))) = 409"
    by (simp add: email trim_space_visible visible_def pg_text_def no_nul_def utf8_ok_ascii split_beta)
      (simp add: sample_board_def)
  from create_user_outcome [OF none sample_env_faultless sample_user_decoded] at
  have "code (fst (snd (create_user sample_env (marshal sample_user) empty_db))) = 201
    \<and> map usr_email (users (fst (create_user sample_env (marshal sample_user) empty_db))) = [''a@b'']"
    by (simp add: email trim_space_visible visible_def pg_text_def no_nul_def utf8_ok_ascii split_beta)
      (simp add: empty_db_def email)
  with taken show ?thesis by blast
qed

text \<open>C13. All or nothing: whatever the request and whatever fails on the way, after it the tables are
  either as before or changed by the complete effect of one operation (one user, one project, or
  one task row together with the outbox row of its new version); and they are changed only when the
  reply is 200, 201 or 500, so a reply that refuses the request means that nothing happened. The hypothesis
  rules out a network error whose text names the email constraint.\<close>

theorem request_all_or_nothing:
  assumes "serve_http ver ui files ve e r (s, d) = ((s', d'), (reply, logs), obs)"
    and "\<forall>err. ev_stmt e = LostAfter err \<longrightarrow> \<not> contains err ''users_email_key''"
  shows "same_tables d d' \<or> whole_change d d' \<and> code reply \<in> {200, 201, 500}"
  by (rule serve_http_whole [OF assms])

theorem request_all_or_nothing_witness:
  "\<exists>reply logs obs d'. serve_http (call_verify sample_crypto) sample_ui sample_files (sample_clock, NoReply) sample_env
      sample_request (sample_verifier, empty_db) = ((sample_verifier, d'), (reply, logs), obs)
    \<and> whole_change empty_db d'"
proof -
  obtain resp obs d' where run: "serve_http (call_verify sample_crypto) sample_ui sample_files (sample_clock, NoReply) sample_env
      sample_request (sample_verifier, empty_db) = ((sample_verifier, d'), resp, obs)" "length (projects d') = 1"
    using sample_served by blast
  obtain reply logs where resp: "resp = (reply, logs)" by (rule prod.exhaust)
  have "ev_stmt sample_env = NoFault" by (simp add: sample_env_def)
  with request_all_or_nothing [OF run(1) [unfolded resp]] run resp show ?thesis
    by (auto simp: same_tables_def empty_db_def)
qed

text \<open>C32. Listing the tasks of a project returns exactly the tasks of that project, each joined with
  the name of its assignee, oldest first.\<close>

theorem list_tasks_complete:
  assumes "no_faults e" and "path_id wild = Inr pid"
  shows "\<exists>ts. fst (list_tasks e wild d) = write_json 200 (array_json task_json ts)
    \<and> mset ts = image_mset (joined d) (mset (filter (\<lambda>t. tsk_project t = pid) (tasks d)))
    \<and> sorted (map created_at ts)"
  by (rule list_tasks_result [OF assms]) blast

theorem list_tasks_complete_witness:
  "\<exists>ts. fst (list_tasks sample_env [''1''] sample_board) = write_json 200 (array_json task_json ts) \<and> size (mset ts) = 1"
proof -
  have "path_id [''1''] = Inr 1" by (simp add: path_id_def parse_one)
  from list_tasks_complete [OF sample_env_faultless this, of sample_board] show ?thesis
    by (auto simp: sample_board_def)
qed

end
