(* ===== verification/Outbox_Rows.thy ===== *)
theory Outbox_Rows
  imports Outbox Api_Laws
begin

text \<open>
  The outbox table under the statements of the relay and of the API: what each statement leaves
  alone, which rows a claim takes, and the invariant of a row's life, from pending over claimed to
  published or dead.
\<close>

section \<open>Updating rows\<close>

lemma outbox_update_rows: "outbox (update_rows P f d) = map (\<lambda>r. if P r then f r else r) (outbox d)"
  by (simp add: update_rows_def)

lemma ball_updated:
  "(\<forall>r \<in> set (outbox (update_rows P f d)). Q r) \<longleftrightarrow> (\<forall>r \<in> set (outbox d). Q (if P r then f r else r))"
  by (simp only: outbox_update_rows set_map ball_simps)

lemma bex_updated:
  "(\<exists>r \<in> set (outbox (update_rows P f d)). Q r) \<longleftrightarrow> (\<exists>r \<in> set (outbox d). Q (if P r then f r else r))"
  by (simp only: outbox_update_rows set_map bex_simps)

lemma update_rows_fields [simp]:
  "users (update_rows P f d) = users d" "projects (update_rows P f d) = projects d"
  "tasks (update_rows P f d) = tasks d" "users_seq (update_rows P f d) = users_seq d"
  "projects_seq (update_rows P f d) = projects_seq d" "tasks_seq (update_rows P f d) = tasks_seq d"
  "outbox_seq (update_rows P f d) = outbox_seq d"
  by (simp_all add: update_rows_def)

text \<open>The columns no statement of the relay touches.\<close>

definition event_part :: "outbox_row \<Rightarrow> int64 \<times> string \<times> int64 \<times> int64 \<times> int64 \<times> string \<times> json \<times> instant" where
  "event_part r =
     (sequence_no r, ob_event_id r, ob_project r, aggregate_id r, aggregate_version r, ob_event_type r,
      payload r, ob_occurred_at r)"

lemma event_part_updates [simp]:
  "event_part (take_claim c now r) = event_part r"
  "event_part (set_published now r) = event_part r"
  "event_part (set_failed now next cause dead r) = event_part r"
  by (simp_all add: event_part_def take_claim_def set_published_def set_failed_def)

lemma event_part_eq:
  assumes "event_part r = event_part s"
  shows "sequence_no r = sequence_no s" "ob_event_id r = ob_event_id s" "ob_project r = ob_project s"
    "aggregate_id r = aggregate_id s" "aggregate_version r = aggregate_version s"
    "ob_event_type r = ob_event_type s" "payload r = payload s" "ob_occurred_at r = ob_occurred_at s"
  using assms by (simp_all add: event_part_def)

lemma carries_event_part: "event_part r = event_part s \<Longrightarrow> carries r e \<longleftrightarrow> carries s e"
  by (simp add: carries_def event_part_def)

lemma events_of_update:
  assumes "\<And>r. event_part (f r) = event_part r"
  shows "events_of (update_rows P f d) i = map (\<lambda>r. if P r then f r else r) (events_of d i)"
proof -
  have "aggregate_id (if P r then f r else r) = aggregate_id r" for r
    using event_part_eq(4) [OF assms] by simp
  then show ?thesis by (simp add: events_of_def outbox_update_rows filter_map comp_def)
qed

lemma board_ok_update_rows:
  assumes same: "\<And>r. event_part (f r) = event_part r" and "board_ok d"
  shows "board_ok (update_rows P f d)"
proof -
  let ?g = "\<lambda>r. if P r then f r else r" and ?d = "update_rows P f d"
  have part: "event_part (?g r) = event_part r" for r using same by simp
  note cols = event_part_eq [OF part]
  have keys: "map sequence_no (outbox ?d) = map sequence_no (outbox d)"
    "map ob_event_id (outbox ?d) = map ob_event_id (outbox d)"
    using cols(1,2) by (simp_all add: outbox_update_rows)
  have "\<forall>r \<in> set (outbox ?d). 1 \<le> aggregate_version r \<and> project_exists ?d (ob_project r)"
    unfolding ball_updated cols(3,5) using assms(2) by (simp add: board_ok_def db_ok_defs project_exists_def)
  then have "outbox_ok ?d"
    using assms(2) unfolding board_ok_def db_ok_def outbox_ok_def keys by simp
  moreover have "tasks_ok ?d"
    using assms(2) task_row_ok_mono [of d _ ?d] by (simp add: board_ok_def db_ok_def tasks_ok_def)
  ultimately have "db_ok ?d"
    using assms(2) by (simp add: board_ok_def db_ok_def users_ok_def projects_ok_def)
  moreover have "task_history_ok ?d t" if "t \<in> set (tasks d)" for t
  proof -
    have "joined ?d t = joined d t" by (rule joined_cong) simp
    moreover have "map aggregate_version (events_of ?d (tsk_id t)) = map aggregate_version (events_of d (tsk_id t))"
      using cols(5) by (simp add: events_of_update [OF same])
    moreover have "carries (last (events_of ?d (tsk_id t))) e = carries (last (events_of d (tsk_id t))) e"
      if "events_of d (tsk_id t) \<noteq> []" for e
      using carries_event_part [OF part] that by (simp add: events_of_update [OF same] last_map)
    moreover have "task_history_ok d t" using assms(2) that by (simp add: board_ok_def history_ok_def)
    ultimately show ?thesis
      unfolding task_history_ok_def by (metis (no_types, lifting) events_of_update [OF same] map_is_Nil_conv)
  qed
  moreover have "\<forall>r \<in> set (outbox ?d). (\<exists>e. carries r e) \<and> aggregate_id r \<in> tsk_id ` set (tasks ?d)"
    unfolding ball_updated carries_event_part [OF part] cols(4)
    using assms(2) by (simp add: board_ok_def history_ok_def)
  ultimately show ?thesis by (simp add: board_ok_def history_ok_def)
qed

section \<open>The life of a row\<close>

definition row_ok :: "int \<Rightarrow> outbox_row \<Rightarrow> bool" where
  "row_ok M r \<longleftrightarrow>
     0 \<le> attempt_count r \<and> attempt_count r \<le> M \<and> (dead_at r \<noteq> None \<longleftrightarrow> attempt_count r = M)
     \<and> (published_at r \<noteq> None \<or> dead_at r \<noteq> None \<longrightarrow> claimed_by r = None)
     \<and> (published_at r \<noteq> None \<longrightarrow> dead_at r = None)"

definition fresh_row :: "outbox_row \<Rightarrow> bool" where
  "fresh_row r \<longleftrightarrow> published_at r = None \<and> dead_at r = None \<and> claimed_by r = None \<and> claim_until r = None \<and> attempt_count r = 0"

lemma fresh_row_ok: "fresh_row r \<Longrightarrow> 1 \<le> M \<Longrightarrow> row_ok M r"
  by (simp add: fresh_row_def row_ok_def)

lemma take_claim_ok: "row_ok M r \<Longrightarrow> claimable now r \<Longrightarrow> row_ok M (take_claim c now' r)"
  by (simp add: row_ok_def claimable_def take_claim_def)

lemma set_published_ok: "row_ok M r \<Longrightarrow> claimed_by r = Some w \<Longrightarrow> row_ok M (set_published now r)"
  by (auto simp: row_ok_def set_published_def)

lemma set_failed_ok:
  "row_ok M r \<Longrightarrow> claimed_by r = Some w \<Longrightarrow> published_at r = None \<Longrightarrow>
   row_ok M (set_failed now next cause (M \<le> attempt_count r + 1) r)"
  by (auto simp: row_ok_def set_failed_def)

section \<open>What the API adds\<close>

lemma insert_outbox_fresh:
  assumes "insert_outbox now ev work = (d', Inr ())"
  shows "\<exists>r. outbox d' = outbox work @ [r] \<and> fresh_row r"
  using assms by (auto elim!: insert_outbox_cases simp: new_outbox_row_def fresh_row_def)

lemma run_endpoint_outbox:
  assumes "run_endpoint e subj ep wild inpt d = (d', resp)"
  shows "\<exists>rs. outbox d' = outbox d @ rs \<and> (\<forall>r \<in> set rs. fresh_row r)"
proof (cases ep)
  case CreateTask
  with assms have "create_task e subj wild inpt d = (d', resp)" by (simp add: run_endpoint_def)
  then show ?thesis
  proof (cases rule: create_task_cases)
    case (created pid inp work t)
    then have "outbox work = outbox d" by (auto elim!: insert_task_cases)
    with insert_outbox_fresh [OF created(5)] show ?thesis by fastforce
  qed (simp_all add: rolled_back_def)
next
  case UpdateTaskStatus
  with assms have "update_task_status e subj wild inpt d = (d', resp)" by (simp add: run_endpoint_def)
  then show ?thesis
  proof (cases rule: update_task_status_cases)
    case (updated tid inp work t)
    then have "outbox work = outbox d" by (auto elim!: update_status_cases)
    with insert_outbox_fresh [OF updated(5)] show ?thesis by fastforce
  qed (simp_all add: rolled_back_def)
qed (use assms create_user_tables(3) create_project_tables(3) in \<open>auto simp: run_endpoint_def\<close>)

lemma serve_http_outbox:
  assumes "serve_http ver ui files ve e r (s, d) = ((s', d'), resp, obs)"
  shows "\<exists>rs. outbox d' = outbox d @ rs \<and> (\<forall>r \<in> set rs. fresh_row r)"
proof (cases "d' = d")
  case False
  have auth: "fst (authorize ver ve e r (s, d)) = (s', d')"
    using assms False by (auto simp: serve_http_def dispatch_def Let_def split: prod.splits dispatch.splits area.splits)
  obtain t vd where v: "ver ve (req_authorization r) s = (t, vd)" by fastforce
  have "\<exists>subj. d' = fst (serve_protected e subj r d)"
  proof (cases vd)
    case (Inr p)
    then have "fst (authorize ver ve e r (s, d)) = (t, fst (serve_protected e (subject p) r d)) \<or>
        fst (authorize ver ve e r (s, d)) = (t, d)"
      using v by (auto simp: authorize_def decide_def split: prod.splits)
    with auth False show ?thesis by auto
  qed (use auth False v in \<open>auto simp: authorize_def decide_def\<close>)
  then obtain subj where d': "d' = fst (serve_protected e subj r d)" ..
  show ?thesis
  proof (cases "mux_find protected (req_method r) (req_path r)")
    case (Handler pat ep wild)
    obtain d1 resp1 where run: "run_endpoint e subj ep wild (req_body r) d = (d1, resp1)" by (rule prod.exhaust)
    with Handler d' have "d' = d1" by (simp add: serve_protected_def)
    with run_endpoint_outbox [OF run] show ?thesis by simp
  qed (use d' False in \<open>simp_all add: serve_protected_def\<close>)
qed simp

section \<open>Claims\<close>

lemma candidates_claimable:
  assumes "i \<in> set (candidates c now locked d)"
  shows "\<exists>r \<in> set (outbox d). sequence_no r = i \<and> claimable now r" "i \<notin> set locked"
  using assms by (auto simp: candidates_def dest!: in_set_takeD)

lemma distinct_candidates: "distinct (map sequence_no (outbox d)) \<Longrightarrow> distinct (candidates c now locked d)"
proof -
  assume "distinct (map sequence_no (outbox d))"
  then have "distinct (map sequence_no (filter P (outbox d)))" for P by (rule distinct_map_filter)
  then have "distinct (map sequence_no (sort_key sequence_no (filter P (outbox d))))" for P
    by (simp add: distinct_map)
  then show ?thesis by (simp add: candidates_def distinct_take)
qed

lemma unique_row:
  "distinct (map sequence_no (outbox d)) \<Longrightarrow> r \<in> set (outbox d) \<Longrightarrow> s \<in> set (outbox d) \<Longrightarrow>
   sequence_no r = sequence_no s \<Longrightarrow> r = s"
  by (auto simp: distinct_map dest: inj_onD)

lemma board_sequences: "board_ok d \<Longrightarrow> distinct (map sequence_no (outbox d))"
  by (simp add: board_ok_def db_ok_defs ids_ok_def)

end
