(* ===== verification/Outbox_Steps.thy ===== *)
theory Outbox_Steps
  imports Outbox_Rows
begin

text \<open>
  Any number of relay workers and API servers on one database and one Kafka topic. Every database
  statement and every publication of \<open>relay.go\<close> is a step of its own, so the steps of workers
  interleave freely; statements may fail or lose their answer, a broker may keep a record and report
  an error, and a worker may stop anywhere. The invariants of the reachable states follow by rule
  induction; the last section shows that \<open>runBatch\<close> is a run of such steps.
\<close>

section \<open>The step relation\<close>

text \<open>Where a worker is inside \<open>runBatch\<close>: \<open>Sent\<close> after a publication that went well, \<open>Failed\<close> when
  \<open>fail\<close> is due with its cause.\<close>

datatype phase =
  Ready "claimed_event list" | Sent claimed_event "claimed_event list" | Failed claimed_event string "claimed_event list"

fun items :: "phase \<Rightarrow> claimed_event list" where
  "items (Ready its) = its"
| "items (Sent it its) = it # its"
| "items (Failed it cause its) = it # its"

record world =
  w_db :: db
  w_kafka :: "message list"
  w_phase :: "string \<Rightarrow> phase"
  w_acked :: "int64 list"   \<comment> \<open>the sequences of the lines \<open>outbox event published\<close>\<close>

definition config_of :: "relay_config \<Rightarrow> string \<Rightarrow> relay_config" where
  "config_of c w = c\<lparr>worker_id := w\<rparr>"

definition acknowledged :: "int64 \<Rightarrow> nat result \<Rightarrow> int64 list \<Rightarrow> int64 list" where
  "acknowledged i r acked = (if r = Inr 1 then acked @ [i] else acked)"

inductive relay_step ::
    "(json \<Rightarrow> string) \<Rightarrow> relay_config \<Rightarrow> world \<Rightarrow> world \<Rightarrow> bool"
  for render c where
  claims: "w_phase s w = Ready [] \<Longrightarrow> (\<And>rs. mset (cl_order ce rs) = mset rs) \<Longrightarrow>
    claim render (config_of c w) ce (w_db s) = (d, Inr batch) \<Longrightarrow>
    relay_step render c s (s\<lparr>w_db := d, w_phase := (w_phase s)(w := Ready batch)\<rparr>)"
| claim_fails: "w_phase s w = Ready [] \<Longrightarrow> claim render (config_of c w) ce (w_db s) = (d, Inl err) \<Longrightarrow>
    relay_step render c s (s\<lparr>w_db := d\<rparr>)"
| rejects: "w_phase s w = Ready (it # its) \<Longrightarrow> decode_event (ce_payload it) = Inl err \<Longrightarrow>
    relay_step render c s (s\<lparr>w_phase := (w_phase s)(w := Failed it (decode_error_text explain err) its)\<rparr>)"
| sends: "w_phase s w = Ready (it # its) \<Longrightarrow> decode_event (ce_payload it) = Inr ev \<Longrightarrow>
    broker (it_publish ie) (message_for ie it ev) (w_kafka s) = (k, None) \<Longrightarrow>
    relay_step render c s (s\<lparr>w_kafka := k, w_phase := (w_phase s)(w := Sent it its)\<rparr>)"
| send_fails: "w_phase s w = Ready (it # its) \<Longrightarrow> decode_event (ce_payload it) = Inr ev \<Longrightarrow>
    broker (it_publish ie) (message_for ie it ev) (w_kafka s) = (k, Some err) \<Longrightarrow>
    relay_step render c s (s\<lparr>w_kafka := k, w_phase := (w_phase s)(w := Failed it err its)\<rparr>)"
| marks: "w_phase s w = Sent it its \<Longrightarrow>
    run_stmt f (mark_published now w (ce_sequence it)) (w_db s) = (d, r) \<Longrightarrow>
    relay_step render c s (s\<lparr>w_db := d, w_acked := acknowledged (ce_sequence it) r (w_acked s),
      w_phase := (w_phase s)(w := Ready its)\<rparr>)"
| records: "w_phase s w = Failed it cause its \<Longrightarrow>
    run_stmt f (record_failure now w (ce_sequence it) next cause (max_attempts c \<le> ce_attempt_count it + 1)) (w_db s)
      = (d, r) \<Longrightarrow>
    relay_step render c s (s\<lparr>w_db := d, w_phase := (w_phase s)(w := Ready its)\<rparr>)"
| stops: "relay_step render c s (s\<lparr>w_phase := (w_phase s)(w := Ready [])\<rparr>)"
| serves: "serve_http (call_verify cr) ui files ve e rq (v, w_db s) = ((v', d), resp, obs) \<Longrightarrow> env_text_ok e \<Longrightarrow>
    relay_step render c s (s\<lparr>w_db := d\<rparr>)"

abbreviation relay_runs :: "(json \<Rightarrow> string) \<Rightarrow> relay_config \<Rightarrow> world \<Rightarrow> world \<Rightarrow> bool" where
  "relay_runs render c \<equiv> (relay_step render c)\<^sup>*\<^sup>*"

text \<open>Any sound board whose outbox nobody has touched yet, as \<open>db/init.sql\<close> leaves it.\<close>

definition start :: "db \<Rightarrow> world" where
  "start d = \<lparr>w_db = d, w_kafka = [], w_phase = (\<lambda>w. Ready []), w_acked = []\<rparr>"

text \<open>The text PostgreSQL gives for a JSONB value denotes that value.\<close>

definition faithful :: "(json \<Rightarrow> string) \<Rightarrow> bool" where
  "faithful render \<longleftrightarrow> (\<forall>v. writable max_nesting v \<longrightarrow> unmarshal (render v) = Some v)"

lemma faithful_marshal: "faithful marshal"
  by (simp add: faithful_def unmarshal_marshal)

lemma carried_decodes:
  assumes "faithful render" and "carries r e"
  shows "decode_event (render (payload r)) = Inr e"
  using assms decode_event_value [of "render (payload r)" "payload r" e]
  by (simp add: faithful_def carries_def)

section \<open>Claims are leases\<close>

text \<open>
  What the relay needs of the table that hands out work: an acknowledgement of one row settles it and
  happens only while it is not settled, and no other statement ever makes a settled row unsettled.
  Whoever counts acknowledgements then counts every piece of work at most once, however many workers
  hold claims that ran out.
\<close>

definition log_ok :: "('i \<Rightarrow> 's \<Rightarrow> bool) \<Rightarrow> 'i list \<Rightarrow> 's \<Rightarrow> bool" where
  "log_ok settled acked s \<longleftrightarrow> distinct acked \<and> (\<forall>i \<in> set acked. settled i s)"

locale lease =
  fixes sane :: "'s \<Rightarrow> bool"
    and ack :: "'w \<Rightarrow> 'i \<Rightarrow> 's \<Rightarrow> 's \<times> nat"
    and other :: "'s \<Rightarrow> 's \<Rightarrow> bool"
    and settled :: "'i \<Rightarrow> 's \<Rightarrow> bool"
  assumes ack_settles: "sane s \<Longrightarrow> ack w i s = (s', 1) \<Longrightarrow> \<not> settled i s \<and> settled i s'"
    and ack_keeps: "ack w i s = (s', n) \<Longrightarrow> settled j s \<Longrightarrow> settled j s'"
    and other_keeps: "other s s' \<Longrightarrow> settled j s \<Longrightarrow> settled j s'"
begin

lemma log_ok_ack:
  assumes "log_ok settled acked s" and "sane s" and "ack w i s = (s', n)"
  shows "log_ok settled acked s'" and "n = 1 \<Longrightarrow> log_ok settled (acked @ [i]) s'"
  using assms ack_settles [of s w i s'] ack_keeps by (auto simp: log_ok_def)

lemma log_ok_other: "log_ok settled acked s \<Longrightarrow> other s s' \<Longrightarrow> log_ok settled acked s'"
  using other_keeps by (auto simp: log_ok_def)

end

definition settled :: "int64 \<Rightarrow> db \<Rightarrow> bool" where
  "settled i d \<longleftrightarrow> (\<exists>r \<in> set (outbox d). sequence_no r = i \<and> published_at r \<noteq> None)"

definition ack_row :: "instant \<times> string \<Rightarrow> int64 \<Rightarrow> db \<Rightarrow> db \<times> nat" where
  "ack_row nw i d =
     (case mark_published (fst nw) (snd nw) i d of (d', Inr n) \<Rightarrow> (d', n) | (d', Inl _) \<Rightarrow> (d', 0))"

definition other_statement :: "db \<Rightarrow> db \<Rightarrow> bool" where
  "other_statement d d' \<longleftrightarrow>
     (\<exists>c now locked. d' = claim_rows c now locked d)
     \<or> (\<exists>now wid i next cause dead. d' = fst (record_failure now wid i next cause dead d))
     \<or> (\<exists>rs. outbox d' = outbox d @ rs)"

lemma settled_update:
  assumes "settled i d" and "\<And>r. event_part (f r) = event_part r"
    and "\<And>r. published_at r \<noteq> None \<Longrightarrow> published_at (f r) \<noteq> None"
  shows "settled i (update_rows P f d)"
  using assms event_part_eq(1) [OF assms(2)] unfolding settled_def bex_updated by metis

lemma settled_published: "settled i d \<Longrightarrow> settled i (update_rows P (set_published now) d)"
  by (rule settled_update) (simp_all add: set_published_def event_part_def)

lemma settled_other:
  assumes "other_statement d d'" and "settled i d"
  shows "settled i d'"
proof -
  have "settled i (update_rows P (take_claim c now) d)" for P c now
    using assms(2) by (rule settled_update) (simp_all add: take_claim_def event_part_def)
  moreover have "settled i (update_rows P (set_failed now later cause dead) d)" for P now later cause dead
    using assms(2) by (rule settled_update) (simp_all add: set_failed_def event_part_def)
  ultimately show ?thesis
    using assms by (auto simp: other_statement_def claim_rows_def record_failure_def) (auto simp: settled_def)
qed

interpretation rows: lease "\<lambda>d. distinct (map sequence_no (outbox d))" ack_row other_statement settled
proof
  fix s s' :: db and w and i :: int64
  assume inj: "distinct (map sequence_no (outbox s))" and "ack_row w i s = (s', 1)"
  then have one: "affected (owned (snd w) i) s = 1" and s': "s' = update_rows (owned (snd w) i) (set_published (fst w)) s"
    by (simp_all add: ack_row_def mark_published_def)
  from one obtain r where r: "r \<in> set (outbox s)" "owned (snd w) i r"
    by (metis affected_def filter_False length_0_conv zero_neq_one)
  then have "\<not> settled i s" using unique_row [OF inj] by (auto simp: settled_def owned_def)
  moreover have "settled i s'"
    unfolding settled_def s' bex_updated using r by (auto simp: owned_def set_published_def intro!: bexI [of _ r])
  ultimately show "\<not> settled i s \<and> settled i s'" by blast
qed (auto simp: ack_row_def mark_published_def intro: settled_published settled_other)

section \<open>Invariants\<close>

definition message_of :: "(json \<Rightarrow> string) \<Rightarrow> outbox_row \<Rightarrow> message \<Rightarrow> bool" where
  "message_of render r m \<longleftrightarrow>
     msg_topic m = topic \<and> msg_key m = format_int 10 (ob_project r) \<and> msg_value m = render (payload r)"

definition table_ok :: "(json \<Rightarrow> string) \<Rightarrow> int \<Rightarrow> message list \<Rightarrow> db \<Rightarrow> bool" where
  "table_ok render M kafka d \<longleftrightarrow>
     board_ok d \<and> (\<forall>r \<in> set (outbox d). row_ok M r)
     \<and> (\<forall>r \<in> set (outbox d). published_at r \<noteq> None \<longrightarrow> (\<exists>m \<in> set kafka. message_of render r m))
     \<and> (\<forall>m \<in> set kafka. \<exists>r \<in> set (outbox d). message_of render r m)"

text \<open>An item in the hands of worker \<open>w\<close> is the row as it was claimed, and as long as \<open>w\<close> owns the
  row its attempts have not changed.\<close>

definition holds :: "(json \<Rightarrow> string) \<Rightarrow> db \<Rightarrow> string \<Rightarrow> claimed_event \<Rightarrow> bool" where
  "holds render d w it \<longleftrightarrow>
     (\<exists>r \<in> set (outbox d). \<exists>r0. it = claimed_item render r0 \<and> event_part r0 = event_part r
        \<and> (claimed_by r = Some w \<longrightarrow> attempt_count r0 = attempt_count r))"

definition sent_row :: "(json \<Rightarrow> string) \<Rightarrow> message list \<Rightarrow> db \<Rightarrow> int64 \<Rightarrow> bool" where
  "sent_row render kafka d i \<longleftrightarrow>
     (\<exists>r \<in> set (outbox d). sequence_no r = i \<and> (\<exists>m \<in> set kafka. message_of render r m))"

definition phase_ok :: "(json \<Rightarrow> string) \<Rightarrow> message list \<Rightarrow> db \<Rightarrow> string \<Rightarrow> phase \<Rightarrow> bool" where
  "phase_ok render kafka d w p \<longleftrightarrow>
     (\<forall>it \<in> set (items p). holds render d w it)
     \<and> (case p of Sent it its \<Rightarrow> sent_row render kafka d (ce_sequence it) | _ \<Rightarrow> True)"

definition world_ok :: "(json \<Rightarrow> string) \<Rightarrow> relay_config \<Rightarrow> world \<Rightarrow> bool" where
  "world_ok render c s \<longleftrightarrow>
     table_ok render (max_attempts c) (w_kafka s) (w_db s)
     \<and> (\<forall>w. phase_ok render (w_kafka s) (w_db s) w (w_phase s w))
     \<and> log_ok settled (w_acked s) (w_db s)"

lemma message_of_event_part: "event_part r = event_part s \<Longrightarrow> message_of render r m \<longleftrightarrow> message_of render s m"
  by (simp add: message_of_def event_part_def)

subsection \<open>An update of rows\<close>

lemma table_ok_update:
  assumes ok: "table_ok render M kafka d" and same: "\<And>r. event_part (f r) = event_part r"
    and rows: "\<And>r. r \<in> set (outbox d) \<Longrightarrow> P r \<Longrightarrow> row_ok M r \<Longrightarrow> row_ok M (f r)"
    and sent: "\<And>r. r \<in> set (outbox d) \<Longrightarrow> P r \<Longrightarrow> published_at (f r) \<noteq> None \<Longrightarrow> published_at r = None \<Longrightarrow>
      \<exists>m \<in> set kafka. message_of render r m"
  shows "table_ok render M kafka (update_rows P f d)"
proof -
  let ?g = "\<lambda>r. if P r then f r else r" and ?d = "update_rows P f d"
  have part: "event_part (?g r) = event_part r" for r using same by simp
  have msg: "message_of render (?g r) m = message_of render r m" for r m by (rule message_of_event_part [OF part])
  have "\<forall>r \<in> set (outbox ?d). row_ok M r"
    using ok rows by (simp add: table_ok_def ball_updated)
  moreover have "\<forall>r \<in> set (outbox ?d). published_at r \<noteq> None \<longrightarrow> (\<exists>m \<in> set kafka. message_of render r m)"
    unfolding ball_updated msg using ok sent unfolding table_ok_def by metis
  moreover have "\<forall>m \<in> set kafka. \<exists>r \<in> set (outbox ?d). message_of render r m"
    unfolding bex_updated msg using ok by (simp add: table_ok_def)
  ultimately show ?thesis
    using board_ok_update_rows [OF same] ok by (simp only: table_ok_def)
qed

lemma holds_update:
  assumes "holds render d w it" and same: "\<And>r. event_part (f r) = event_part r"
    and "\<And>r. r \<in> set (outbox d) \<Longrightarrow> P r \<Longrightarrow> claimed_by (f r) \<noteq> Some w"
  shows "holds render (update_rows P f d) w it"
proof -
  obtain r r0 where r: "r \<in> set (outbox d)" "it = claimed_item render r0" "event_part r0 = event_part r"
    "claimed_by r = Some w \<longrightarrow> attempt_count r0 = attempt_count r"
    using assms(1) by (auto simp: holds_def)
  show ?thesis
    unfolding holds_def bex_updated using r assms(3) same by (intro bexI [OF _ r(1)] exI [of _ r0]) auto
qed

lemma phase_ok_update:
  assumes ok: "phase_ok render kafka d w p" and same: "\<And>r. event_part (f r) = event_part r"
    and other: "\<And>r. r \<in> set (outbox d) \<Longrightarrow> P r \<Longrightarrow> claimed_by (f r) \<noteq> Some w"
  shows "phase_ok render kafka (update_rows P f d) w p"
proof -
  have part: "event_part (if P r then f r else r) = event_part r" for r using same by simp
  have "sent_row render kafka (update_rows P f d) i = sent_row render kafka d i" for i
    unfolding sent_row_def bex_updated message_of_event_part [OF part] event_part_eq(1) [OF part] ..
  then show ?thesis
    using ok holds_update [OF _ same other] by (cases p) (auto simp: phase_ok_def)
qed

lemma world_ok_update:
  assumes "world_ok render c s" and same: "\<And>r. event_part (f r) = event_part r"
    and rows: "\<And>r. r \<in> set (outbox (w_db s)) \<Longrightarrow> P r \<Longrightarrow> row_ok (max_attempts c) r \<Longrightarrow> row_ok (max_attempts c) (f r)"
    and sent: "\<And>r. r \<in> set (outbox (w_db s)) \<Longrightarrow> P r \<Longrightarrow> published_at (f r) \<noteq> None \<Longrightarrow> published_at r = None \<Longrightarrow>
      \<exists>m \<in> set (w_kafka s). message_of render r m"
    and others: "\<And>r u. r \<in> set (outbox (w_db s)) \<Longrightarrow> P r \<Longrightarrow> items (w_phase s u) \<noteq> [] \<Longrightarrow> claimed_by (f r) \<noteq> Some u"
    and log: "log_ok settled (w_acked s) (update_rows P f (w_db s))"
  shows "world_ok render c (s\<lparr>w_db := update_rows P f (w_db s)\<rparr>)"
proof -
  have "phase_ok render (w_kafka s) (update_rows P f (w_db s)) u (w_phase s u)" for u
  proof (cases "items (w_phase s u) = []")
    case True
    then show ?thesis by (cases "w_phase s u") (simp_all add: phase_ok_def)
  next
    case False
    have "phase_ok render (w_kafka s) (w_db s) u (w_phase s u)" using assms(1) by (simp add: world_ok_def)
    then show ?thesis by (rule phase_ok_update [OF _ same]) (use others False in blast)
  qed
  moreover have "table_ok render (max_attempts c) (w_kafka s) (update_rows P f (w_db s))"
    by (rule table_ok_update [OF _ same rows sent]) (use assms(1) in \<open>simp add: world_ok_def\<close>)
  ultimately show ?thesis using log by (simp add: world_ok_def)
qed

subsection \<open>Statements of the relay\<close>

lemma rolled_back_claim: "rolled_back d (claim_rows c now locked d) = d"
  by (simp add: rolled_back_def claim_rows_def update_rows_def)

lemma claim_result:
  assumes "claim render c ce d = (d', res)"
  shows "d' = d \<and> (\<exists>err. res = Inl err)
    \<or> d' = claim_rows c (cl_now ce) (cl_locked ce) d \<and> (\<exists>err. res = Inl err)
    \<or> d' = claim_rows c (cl_now ce) (cl_locked ce) d \<and> res = Inr (map (claimed_item render) (returned_rows c ce d))"
proof (cases "cl_begin ce = None \<and> cl_query ce = None")
  case False
  then show ?thesis using assms by (auto simp: claim_def split: option.splits)
next
  case True
  define work where "work = claim_rows c (cl_now ce) (cl_locked ce) d"
  define batch where "batch = map (claimed_item render) (returned_rows c ce d)"
  have undo: "rolled_back d work = d" unfolding work_def by (rule rolled_back_claim)
  show ?thesis
    using assms True undo unfolding work_def [symmetric] batch_def [symmetric]
    by (simp add: claim_def work_def [symmetric] batch_def [symmetric] commit_def split: option.splits fault.splits if_splits)
      auto
qed

lemma claimed_row:
  assumes "r \<in> set (outbox d)" and "sequence_no r \<in> set (candidates c now locked d)" and "distinct (map sequence_no (outbox d))"
  shows "claimable now r"
  using candidates_claimable(1) [OF assms(2)] unique_row [OF assms(3,1)] by metis

lemma other_claim: "other_statement d (claim_rows c now locked d)"
  unfolding other_statement_def by blast

lemma world_ok_claim:
  assumes ok: "world_ok render c s" and idle: "w_phase s w = Ready []"
  shows "world_ok render c (s\<lparr>w_db := claim_rows (config_of c w) now locked (w_db s)\<rparr>)"
proof -
  have inj: "distinct (map sequence_no (outbox (w_db s)))"
    using ok by (auto simp: world_ok_def table_ok_def intro: board_sequences)
  have "log_ok settled (w_acked s) (claim_rows (config_of c w) now locked (w_db s))"
    using rows.log_ok_other [OF _ other_claim] ok by (simp add: world_ok_def)
  then show ?thesis
    unfolding claim_rows_def
  proof (rule world_ok_update [OF ok, rotated 4])
    fix r assume r: "r \<in> set (outbox (w_db s))" "sequence_no r \<in> set (candidates (config_of c w) now locked (w_db s))"
    show "row_ok (max_attempts c) (take_claim (config_of c w) now r)" if "row_ok (max_attempts c) r"
      using take_claim_ok [OF that claimed_row [OF r inj]] .
    show "\<exists>m \<in> set (w_kafka s). message_of render r m"
      if "published_at (take_claim (config_of c w) now r) \<noteq> None" "published_at r = None"
      using that by (simp add: take_claim_def)
    show "claimed_by (take_claim (config_of c w) now r) \<noteq> Some u" if "items (w_phase s u) \<noteq> []" for u
      using that idle by (auto simp: take_claim_def config_of_def)
  qed simp
qed

lemma world_ok_phase:
  "world_ok render c s \<Longrightarrow> phase_ok render (w_kafka s) (w_db s) w p \<Longrightarrow> world_ok render c (s\<lparr>w_phase := (w_phase s)(w := p)\<rparr>)"
  by (simp add: world_ok_def)

lemma batch_phase_ok:
  assumes "\<And>rs. mset (cl_order ce rs) = mset rs"
  shows "phase_ok render kafka (claim_rows c (cl_now ce) (cl_locked ce) d) w
    (Ready (map (claimed_item render) (returned_rows c ce d)))"
proof -
  have "set (returned_rows c ce d) \<subseteq> set (outbox (claim_rows c (cl_now ce) (cl_locked ce) d))"
    unfolding returned_rows_def using mset_eq_setD [OF assms] by auto
  then show ?thesis by (auto simp: phase_ok_def holds_def)
qed

lemma held_row:
  assumes "world_ok render c s" and "it \<in> set (items (w_phase s w))"
  obtains r r0 where "r \<in> set (outbox (w_db s))" "it = claimed_item render r0" "event_part r0 = event_part r"
    "sequence_no r = ce_sequence it" "ce_payload it = render (payload r)"
    "claimed_by r = Some w \<Longrightarrow> ce_attempt_count it = attempt_count r"
proof -
  have "holds render (w_db s) w it" using assms by (auto simp: world_ok_def phase_ok_def)
  then obtain r r0 where r: "r \<in> set (outbox (w_db s))" "it = claimed_item render r0" "event_part r0 = event_part r"
    "claimed_by r = Some w \<longrightarrow> attempt_count r0 = attempt_count r"
    unfolding holds_def by blast
  show thesis
    by (rule that [OF r(1-3)]) (use r event_part_eq [OF r(3)] in \<open>simp_all add: claimed_item_def\<close>)
qed

lemma owned_unique:
  assumes "distinct (map sequence_no (outbox d))" and "r \<in> set (outbox d)" "sequence_no r = i"
    and "s \<in> set (outbox d)" "owned w i s"
  shows "s = r" "claimed_by r = Some w" "published_at r = None"
  using assms unique_row [OF assms(1,4,2)] by (auto simp: owned_def)

lemma world_ok_record:
  assumes ok: "world_ok render c s" and it: "it \<in> set (items (w_phase s w))"
  shows "world_ok render c (s\<lparr>w_db := fst (record_failure now w (ce_sequence it) later cause
    (max_attempts c \<le> ce_attempt_count it + 1) (w_db s))\<rparr>)" (is "world_ok render c (s\<lparr>w_db := ?d\<rparr>)")
proof (cases "?d = w_db s")
  case False
  let ?dead = "max_attempts c \<le> ce_attempt_count it + 1"
  have d: "?d = update_rows (owned w (ce_sequence it)) (set_failed now later cause ?dead) (w_db s)"
    using False by (auto simp: record_failure_def split: if_splits)
  obtain r r0 where r: "r \<in> set (outbox (w_db s))" "sequence_no r = ce_sequence it"
    "claimed_by r = Some w \<Longrightarrow> ce_attempt_count it = attempt_count r"
    using held_row [OF ok it] by metis
  have inj: "distinct (map sequence_no (outbox (w_db s)))"
    using ok by (auto simp: world_ok_def table_ok_def intro: board_sequences)
  have "other_statement (w_db s) ?d" unfolding other_statement_def by blast
  then have "log_ok settled (w_acked s) ?d" using rows.log_ok_other ok by (auto simp: world_ok_def)
  then show ?thesis
    unfolding d
  proof (rule world_ok_update [OF ok, rotated 4])
    fix q assume q: "q \<in> set (outbox (w_db s))" "owned w (ce_sequence it) q"
    note same = owned_unique [OF inj r(1,2) q]
    show "row_ok (max_attempts c) (set_failed now later cause ?dead q)" if "row_ok (max_attempts c) q"
      using set_failed_ok [of "max_attempts c" q w now later cause] that same r(3) by simp
    show "\<exists>m \<in> set (w_kafka s). message_of render q m"
      if "published_at (set_failed now later cause ?dead q) \<noteq> None" "published_at q = None"
      using that by (simp add: set_failed_def)
    show "claimed_by (set_failed now later cause ?dead q) \<noteq> Some u" for u by (simp add: set_failed_def)
  qed simp
qed (use ok in simp)

lemma world_ok_mark:
  assumes ok: "world_ok render c s" and p: "w_phase s w = Sent it its"
    and run: "run_stmt f (mark_published now w (ce_sequence it)) (w_db s) = (d, r)"
  shows "world_ok render c (s\<lparr>w_db := d, w_acked := acknowledged (ce_sequence it) r (w_acked s)\<rparr>)"
proof (cases "\<exists>e. f = Lost e")
  case True
  then have "d = w_db s" "r \<noteq> Inr 1" using run by (auto simp: run_stmt_def)
  with ok show ?thesis by (simp add: acknowledged_def)
next
  case False
  let ?i = "ce_sequence it"
  have d: "d = update_rows (owned w ?i) (set_published now) (w_db s)"
    and ack: "ack_row (now, w) ?i (w_db s) = (d, affected (owned w ?i) (w_db s))"
    and r: "r = Inr 1 \<Longrightarrow> affected (owned w ?i) (w_db s) = 1"
    using run False by (auto simp: run_stmt_def mark_published_def ack_row_def split: fault.splits)
  have inj: "distinct (map sequence_no (outbox (w_db s)))" and log: "log_ok settled (w_acked s) (w_db s)"
    using ok by (auto simp: world_ok_def table_ok_def intro: board_sequences)
  have sent: "sent_row render (w_kafka s) (w_db s) ?i"
    using ok p unfolding world_ok_def phase_ok_def by (metis phase.simps(11))
  have "world_ok render c (s\<lparr>w_db := update_rows (owned w ?i) (set_published now) (w_db s)\<rparr>)"
  proof (rule world_ok_update [OF ok])
    fix q assume q: "q \<in> set (outbox (w_db s))" "owned w ?i q"
    then have "claimed_by q = Some w" by (simp add: owned_def)
    then show "row_ok (max_attempts c) (set_published now q)" if "row_ok (max_attempts c) q"
      using set_published_ok that by blast
    show "\<exists>m \<in> set (w_kafka s). message_of render q m"
      using sent owned_unique(1) [OF inj _ _ q] by (auto simp: sent_row_def)
  qed (use rows.log_ok_ack(1) [OF log inj ack] in \<open>simp_all add: d set_published_def event_part_def\<close>)
  moreover have "log_ok settled (acknowledged ?i r (w_acked s)) d"
    using rows.log_ok_ack [OF log inj ack] r by (auto simp: acknowledged_def)
  ultimately show ?thesis by (simp add: world_ok_def d)
qed

subsection \<open>All steps\<close>

lemma world_ok_send:
  assumes ok: "world_ok render c s" and p: "w_phase s w = Ready (it # its)" and "faithful render"
    and ev: "decode_event (ce_payload it) = Inr ev" and k: "broker out (message_for ie it ev) (w_kafka s) = (k, err)"
  shows "world_ok render c (s\<lparr>w_kafka := k\<rparr>)"
    and "err = None \<Longrightarrow> sent_row render k (w_db s) (ce_sequence it)"
proof -
  let ?m = "message_for ie it ev"
  obtain r where r: "r \<in> set (outbox (w_db s))" "sequence_no r = ce_sequence it" "ce_payload it = render (payload r)"
    by (rule held_row [OF ok, of it w]) (auto simp: p)
  obtain e where e: "carries r e" using ok r(1) by (auto simp: world_ok_def table_ok_def board_ok_def history_ok_def)
  then have "ev = e" using carried_decodes [OF assms(3) e] ev r(3) by simp
  then have m: "message_of render r ?m"
    using e r(3) by (simp add: message_of_def message_for_def carries_def)
  have sets: "set (w_kafka s) \<subseteq> set k" "set k \<subseteq> insert ?m (set (w_kafka s))" "err = None \<Longrightarrow> ?m \<in> set k"
    using k by (auto simp: broker_def split: publish_outcome.splits)
  have grow: "sent_row render (w_kafka s) (w_db s) i \<Longrightarrow> sent_row render k (w_db s) i" for i
    using sets(1) unfolding sent_row_def by blast
  have "phase_ok render k (w_db s) u (w_phase s u)" for u
    using ok grow by (cases "w_phase s u") (auto simp: world_ok_def phase_ok_def, (metis phase.simps(11))+)
  moreover have "table_ok render (max_attempts c) k (w_db s)"
    using ok sets(1,2) m r(1) unfolding world_ok_def table_ok_def by blast
  ultimately show "world_ok render c (s\<lparr>w_kafka := k\<rparr>)" using ok by (simp add: world_ok_def)
  show "sent_row render k (w_db s) (ce_sequence it)" if "err = None"
    using r(1,2) m sets(3) [OF that] unfolding sent_row_def by blast
qed

lemma world_ok_append:
  assumes ok: "world_ok render c s" and d: "outbox d = outbox (w_db s) @ rs" "\<forall>r \<in> set rs. fresh_row r"
    and "board_ok d" and "1 \<le> max_attempts c"
  shows "world_ok render c (s\<lparr>w_db := d\<rparr>)"
proof -
  have "phase_ok render (w_kafka s) d u (w_phase s u)" for u
  proof -
    have "holds render (w_db s) u it \<Longrightarrow> holds render d u it" for it unfolding holds_def d(1) set_append by blast
    moreover have "sent_row render k (w_db s) i \<Longrightarrow> sent_row render k d i" for k i
      unfolding sent_row_def d(1) set_append by blast
    moreover have "phase_ok render (w_kafka s) (w_db s) u (w_phase s u)" using ok by (simp add: world_ok_def)
    ultimately show ?thesis by (cases "w_phase s u") (auto simp: phase_ok_def)
  qed
  moreover have "table_ok render (max_attempts c) (w_kafka s) d"
  proof -
    have "row_ok (max_attempts c) r \<and> published_at r = None" if "r \<in> set rs" for r
      using d(2) that fresh_row_ok [OF _ assms(5)] by (auto simp: fresh_row_def)
    then show ?thesis using ok assms(4) unfolding world_ok_def table_ok_def d(1) set_append by (metis UnE UnI1)
  qed
  moreover have "log_ok settled (w_acked s) d"
  proof -
    have "other_statement (w_db s) d" using d(1) unfolding other_statement_def by blast
    then show ?thesis using rows.log_ok_other ok by (auto simp: world_ok_def)
  qed
  ultimately show ?thesis by (simp add: world_ok_def)
qed

theorem relay_step_ok:
  assumes "relay_step render c s s'" and ok: "world_ok render c s" and "faithful render" and "1 \<le> max_attempts c"
  shows "world_ok render c s'"
  using assms(1)
proof cases
  case (claims w ce d batch)
  have claimed: "batch = map (claimed_item render) (returned_rows (config_of c w) ce (w_db s))"
    "d = claim_rows (config_of c w) (cl_now ce) (cl_locked ce) (w_db s)"
    using claim_result [OF claims(4)] by simp_all
  have "world_ok render c (s\<lparr>w_db := d\<rparr>)" using world_ok_claim [OF ok claims(2)] claimed(2) by simp
  from world_ok_phase [OF this, of w "Ready batch"] show ?thesis
    using claimed batch_phase_ok [OF claims(3)] claims(1) by simp
next
  case (claim_fails w ce d err)
  have "d = w_db s \<or> d = claim_rows (config_of c w) (cl_now ce) (cl_locked ce) (w_db s)"
    using claim_result [OF claim_fails(3)] by blast
  then show ?thesis using world_ok_claim [OF ok claim_fails(2)] claim_fails(1) ok by auto
next
  case (rejects w it its err explain)
  have "phase_ok render (w_kafka s) (w_db s) w (w_phase s w)" using ok by (simp add: world_ok_def)
  then show ?thesis using world_ok_phase [OF ok] rejects by (simp add: phase_ok_def)
next
  case (sends w it its ev ie k)
  note send = world_ok_send [OF ok sends(2) assms(3) sends(3,4)]
  have "phase_ok render k (w_db s) w (w_phase s w)" using send(1) by (simp add: world_ok_def)
  then have "phase_ok render k (w_db s) w (Sent it its)" using send(2) sends(2) by (simp add: phase_ok_def)
  with world_ok_phase [OF send(1)] sends(1) show ?thesis by simp
next
  case (send_fails w it its ev ie k err)
  note send = world_ok_send [OF ok send_fails(2) assms(3) send_fails(3,4)]
  have "phase_ok render k (w_db s) w (w_phase s w)" using send(1) by (simp add: world_ok_def)
  then have "phase_ok render k (w_db s) w (Failed it err its)" using send_fails(2) by (simp add: phase_ok_def)
  with world_ok_phase [OF send(1)] send_fails(1) show ?thesis by simp
next
  case (marks w it its f now d r)
  have after: "world_ok render c (s\<lparr>w_db := d, w_acked := acknowledged (ce_sequence it) r (w_acked s)\<rparr>)"
    by (rule world_ok_mark [OF ok marks(2,3)])
  then have "phase_ok render (w_kafka s) d w (w_phase s w)" by (simp add: world_ok_def)
  then have "phase_ok render (w_kafka s) d w (Ready its)" using marks(2) by (simp add: phase_ok_def)
  with world_ok_phase [OF after, of w "Ready its"] marks(1) show ?thesis by simp
next
  case (records w it cause its f now later d r)
  have "it \<in> set (items (w_phase s w))" using records(2) by simp
  from world_ok_record [OF ok this] have "world_ok render c (s\<lparr>w_db := d\<rparr>)"
    using records(3) ok by (auto simp: run_stmt_def split: fault.splits) (metis fst_conv)+
  moreover from this have "phase_ok render (w_kafka s) d w (Ready its)"
    using records(2) by (auto simp: world_ok_def phase_ok_def dest: spec [of _ w])
  ultimately show ?thesis using world_ok_phase records(1) by fastforce
next
  case (stops w)
  then show ?thesis using world_ok_phase [OF ok] by (simp add: phase_ok_def)
next
  case (serves cr ui files ve e rq v v' d resp obs)
  obtain rs where "outbox d = outbox (w_db s) @ rs" "\<forall>r \<in> set rs. fresh_row r"
    using serve_http_outbox [OF serves(2)] by blast
  moreover have "board_ok d"
    using jwt.serve_http_board [OF _ serves(3,2)] ok by (simp add: world_ok_def table_ok_def)
  ultimately show ?thesis using world_ok_append [OF ok _ _ _ assms(4)] serves(1) by simp
qed

lemma start_ok:
  assumes "board_ok d" and "\<forall>r \<in> set (outbox d). fresh_row r" and "1 \<le> max_attempts c"
  shows "world_ok render c (start d)"
  using assms fresh_row_ok [OF _ assms(3)]
  by (auto simp: world_ok_def start_def table_ok_def phase_ok_def log_ok_def fresh_row_def)

lemma relay_runs_ok:
  assumes "relay_runs render c (start d) s" and "board_ok d" and "\<forall>r \<in> set (outbox d). fresh_row r"
    and "faithful render" and "1 \<le> max_attempts c"
  shows "world_ok render c s"
  using assms(1) by induction (use relay_step_ok start_ok assms(2-5) in blast)+

end
