(* ===== verification/Outbox_Laws.thy ===== *)
theory Outbox_Laws
  imports Outbox_Steps
begin

text \<open>
  What the steps of the relay add up to: \<open>runBatch\<close> is a run of the step relation, settled rows never
  change again, a healthy relay empties the outbox, and the delay between attempts is bounded. The
  properties of the relay stand at the end.
\<close>

section \<open>A batch is a run of steps\<close>

definition mirrors :: "int \<Rightarrow> world \<Rightarrow> system \<Rightarrow> bool" where
  "mirrors n x s \<longleftrightarrow>
     w_db x = sys_db s \<and> w_kafka x = sys_kafka s
     \<and> int (length (w_acked x)) = n + int (published_count (sys_relay s))"

definition simulated :: "(json \<Rightarrow> string) \<Rightarrow> relay_config \<Rightarrow> int \<Rightarrow> string \<Rightarrow> world \<Rightarrow> system \<Rightarrow> claimed_event list \<Rightarrow> bool" where
  "simulated render c n w x s its \<longleftrightarrow>
     (\<exists>x'. relay_runs render c x x' \<and> mirrors n x' s \<and> w_phase x' = (w_phase x)(w := Ready its)
        \<and> r_config (sys_relay s) = config_of c w)"

lemma mirrors_log [simp]: "mirrors n x (log_line l msg s) = mirrors n x s" "sys_relay (log_line l msg s) = sys_relay s"
  by (simp_all add: mirrors_def log_line_def)

lemma relay_fail_simulated:
  assumes "mirrors n x s" and "w_phase x w = Failed it cause its" and cfg: "r_config (sys_relay s) = config_of c w"
    and call: "relay_fail ie it cause s = (s', err)"
  shows "simulated render c n w x s' its"
proof -
  let ?dead = "max_attempts c \<le> ce_attempt_count it + 1"
  obtain d r where upd: "run_stmt (it_fail ie) (record_failure (it_now ie) w (ce_sequence it)
      (it_clock ie + retry_delay (ce_attempt_count it + 1) (max_backoff c)) cause ?dead) (w_db x) = (d, r)"
    by (rule prod.exhaust)
  then have "relay_step render c x (x\<lparr>w_db := d, w_phase := (w_phase x)(w := Ready its)\<rparr>)"
    by (rule records [OF assms(2)])
  moreover have "mirrors n (x\<lparr>w_db := d, w_phase := (w_phase x)(w := Ready its)\<rparr>) s'"
    "r_config (sys_relay s') = config_of c w"
    using assms(1) call upd cfg
    by (auto simp: mirrors_def relay_fail_def Let_def config_of_def count_failure_def log_line_def split: if_splits)
  ultimately show ?thesis unfolding simulated_def by (auto intro!: exI [of _ "x\<lparr>w_db := d, w_phase := (w_phase x)(w := Ready its)\<rparr>"])
qed

lemma simulated_step:
  assumes "relay_step render c x y" and "simulated render c n w y s its" and "\<And>u. u \<noteq> w \<Longrightarrow> w_phase y u = w_phase x u"
  shows "simulated render c n w x s its"
proof -
  from assms(2) obtain x' where "relay_runs render c y x'" "mirrors n x' s" "w_phase x' = (w_phase y)(w := Ready its)"
    "r_config (sys_relay s) = config_of c w"
    unfolding simulated_def by blast
  moreover have "(w_phase y)(w := Ready its) = (w_phase x)(w := Ready its)" using assms(3) by auto
  ultimately show ?thesis
    unfolding simulated_def using converse_rtranclp_into_rtranclp [of "relay_step render c", OF assms(1)] by auto
qed

lemma publish_one_simulated:
  assumes m: "mirrors n x s" and p: "w_phase x w = Ready (it # its)" and cfg: "r_config (sys_relay s) = config_of c w"
    and call: "publish_one ie it s = (s', err)"
  shows "simulated render c n w x s' its"
proof (cases "decode_event (ce_payload it)")
  case (Inl e)
  define cause where "cause = decode_error_text (it_explain ie) e"
  let ?y = "x\<lparr>w_phase := (w_phase x)(w := Failed it cause its)\<rparr>"
  have "relay_step render c x ?y" unfolding cause_def by (rule rejects [OF p Inl])
  moreover have "simulated render c n w ?y s' its"
    by (rule relay_fail_simulated [of n _ s w it cause]) (use m cfg call Inl in \<open>simp_all add: mirrors_def publish_one_def cause_def\<close>)
  ultimately show ?thesis by (rule simulated_step) simp
next
  case (Inr ev)
  obtain k perr where k: "broker (it_publish ie) (message_for ie it ev) (sys_kafka s) = (k, perr)" by (rule prod.exhaust)
  then have k': "broker (it_publish ie) (message_for ie it ev) (w_kafka x) = (k, perr)" using m by (simp add: mirrors_def)
  show ?thesis
  proof (cases perr)
    case (Some cause)
    let ?y = "x\<lparr>w_kafka := k, w_phase := (w_phase x)(w := Failed it cause its)\<rparr>"
    have "relay_step render c x ?y" by (rule send_fails [OF p Inr k' [unfolded Some]])
    moreover have "simulated render c n w ?y s' its"
      by (rule relay_fail_simulated [of n _ "s\<lparr>sys_kafka := k\<rparr>" w it cause])
        (use m cfg call Inr k Some in \<open>simp_all add: mirrors_def publish_one_def\<close>)
    ultimately show ?thesis by (rule simulated_step) simp
  next
    case None
    let ?y = "x\<lparr>w_kafka := k, w_phase := (w_phase x)(w := Sent it its)\<rparr>"
    obtain d r where upd: "run_stmt (it_mark ie) (mark_published (it_now ie) w (ce_sequence it)) (w_db x) = (d, r)"
      by (rule prod.exhaust)
    let ?z = "?y\<lparr>w_db := d, w_acked := acknowledged (ce_sequence it) r (w_acked ?y), w_phase := (w_phase ?y)(w := Ready its)\<rparr>"
    have "relay_step render c ?y ?z" by (rule marks) (use upd in simp_all)
    moreover have "mirrors n ?z s'" "r_config (sys_relay s') = config_of c w"
      using m cfg call Inr k None upd
      by (auto simp: mirrors_def publish_one_def acknowledged_def config_of_def log_line_def Let_def split: sum.splits if_splits)
    ultimately have "simulated render c n w ?y s' its"
      unfolding simulated_def by (auto intro!: exI [of _ ?z])
    then show ?thesis by (rule simulated_step [OF sends [OF p Inr k' [unfolded None]]]) simp
  qed
qed

lemma simulated_trans:
  assumes "simulated render c n w x s its"
    and "\<And>y. mirrors n y s \<Longrightarrow> w_phase y w = Ready its \<Longrightarrow> r_config (sys_relay s) = config_of c w \<Longrightarrow>
      simulated render c n w y s' its'"
  shows "simulated render c n w x s' its'"
proof -
  obtain y where y: "relay_runs render c x y" "mirrors n y s" "w_phase y = (w_phase x)(w := Ready its)"
    "r_config (sys_relay s) = config_of c w"
    using assms(1) unfolding simulated_def by blast
  with assms(2) [of y] obtain z where "relay_runs render c y z" "mirrors n z s'"
    "w_phase z = (w_phase y)(w := Ready its')" "r_config (sys_relay s') = config_of c w"
    unfolding simulated_def by auto
  with y show ?thesis unfolding simulated_def by (auto intro: rtranclp_trans)
qed

lemma publish_all_simulated:
  assumes "mirrors n x s" and "w_phase x w = Ready its" and "r_config (sys_relay s) = config_of c w"
  shows "simulated render c n w x (publish_all ies k its s) []"
  using assms
proof (induction its arbitrary: k s x)
  case Nil
  then show ?case unfolding simulated_def by (auto intro!: exI [of _ x] simp: fun_upd_idem)
next
  case (Cons it its)
  obtain s' err where call: "publish_one (ies k) it s = (s', err)" by (rule prod.exhaust)
  have "simulated render c n w x s' its" by (rule publish_one_simulated [OF Cons.prems call])
  then show ?case
  proof (rule simulated_trans)
    fix y assume y: "mirrors n y s'" "w_phase y w = Ready its" "r_config (sys_relay s') = config_of c w"
    then show "simulated render c n w y (publish_all ies k (it # its) s) []"
      using Cons.IH [of y s' "Suc k"] Cons.IH [of y "log_line Warn ''outbox event publish failed'' s'" "Suc k"] call
      by (cases err) simp_all
  qed
qed

lemma run_batch_simulated:
  assumes m: "mirrors n x s" and p: "w_phase x w = Ready []" and cfg: "r_config (sys_relay s) = config_of c w"
    and order: "\<And>rs. mset (cl_order (be_claim be) rs) = mset rs" and call: "run_batch render be s = (s', err)"
  shows "simulated render c n w x s' []"
proof -
  obtain d res where cl: "claim render (config_of c w) (be_claim be) (w_db x) = (d, res)" by (rule prod.exhaust)
  then have cl': "claim render (r_config (sys_relay s)) (be_claim be) (sys_db s) = (d, res)"
    using m cfg by (simp add: mirrors_def)
  show ?thesis
  proof (cases res)
    case (Inl e)
    have "relay_step render c x (x\<lparr>w_db := d\<rparr>)" by (rule claim_fails [OF p]) (use cl Inl in simp)
    moreover have "simulated render c n w (x\<lparr>w_db := d\<rparr>) s' []"
      using call cl' Inl m p cfg
      by (auto simp: simulated_def run_batch_def mirrors_def fun_upd_idem intro!: exI [of _ "x\<lparr>w_db := d\<rparr>"])
    ultimately show ?thesis by (rule simulated_step) simp
  next
    case (Inr batch)
    let ?y = "x\<lparr>w_db := d, w_phase := (w_phase x)(w := Ready batch)\<rparr>"
    have "relay_step render c x ?y" by (rule claims [OF p order]) (use cl Inr in simp)
    moreover have "simulated render c n w ?y (publish_all (be_items be) 0 batch (s\<lparr>sys_db := d\<rparr>)) []"
      by (rule publish_all_simulated) (use m cfg in \<open>simp_all add: mirrors_def\<close>)
    then have "simulated render c n w ?y s' []"
      using call cl' Inr
      by (auto simp: simulated_def run_batch_def relay_pending_def mirrors_def Let_def split: option.splits)
    ultimately show ?thesis by (rule simulated_step) simp
  qed
qed

section \<open>Settled rows stay as they are\<close>

definition finished_row :: "outbox_row \<Rightarrow> bool" where
  "finished_row r \<longleftrightarrow> published_at r \<noteq> None \<or> dead_at r \<noteq> None"

lemma row_kept: "r \<in> set (outbox d) \<Longrightarrow> \<not> P r \<Longrightarrow> r \<in> set (outbox (update_rows P f d))"
  by (force simp: outbox_update_rows)

lemma finished_kept:
  assumes "relay_step render c s s'" and ok: "world_ok render c s"
    and r: "r \<in> set (outbox (w_db s))" "finished_row r"
  shows "r \<in> set (outbox (w_db s'))"
proof -
  have inj: "distinct (map sequence_no (outbox (w_db s)))"
    using ok by (auto simp: world_ok_def table_ok_def intro: board_sequences)
  have free: "claimed_by r = None" using ok r by (auto simp: world_ok_def table_ok_def row_ok_def finished_row_def)
  have claim: "r \<in> set (outbox (claim_rows cc now locked (w_db s)))" for cc now locked
    unfolding claim_rows_def
    using claimed_row [OF r(1) _ inj, of cc now locked] r(2)
    by (intro row_kept [OF r(1)]) (auto simp: claimable_def finished_row_def)
  have own: "r \<in> set (outbox (update_rows (owned w i) f (w_db s)))" for w i f
    by (rule row_kept [OF r(1)]) (use free in \<open>simp add: owned_def\<close>)
  have stmt: "r \<in> set (outbox d)" if "run_stmt f stmt (w_db s) = (d, res)"
    "r \<in> set (outbox (fst (stmt (w_db s))))" for f stmt d and res :: "nat result"
    using that r(1) by (auto simp: run_stmt_def split: fault.splits)
  show ?thesis
    using assms(1)
  proof cases
    case (claims w ce d batch)
    then show ?thesis using claim_result [OF claims(4)] claim r(1) by auto
  next
    case (claim_fails w ce d err)
    then show ?thesis using claim_result [OF claim_fails(3)] claim r(1) by auto
  next
    case (marks w it its f now d res)
    then show ?thesis using stmt [OF marks(3)] own by (simp add: mark_published_def)
  next
    case (records w it cause its f now later d res)
    then show ?thesis using stmt [OF records(3)] own r(1) by (simp add: record_failure_def)
  next
    case (serves cr ui files ve e rq v v' d resp obs)
    then show ?thesis using serve_http_outbox [OF serves(2)] r(1) by auto
  qed (use r(1) in simp_all)
qed

lemma finished_kept_runs:
  assumes "relay_runs render c s s'" and "world_ok render c s" and "faithful render" and "1 \<le> max_attempts c"
    and "r \<in> set (outbox (w_db s))" "finished_row r"
  shows "world_ok render c s' \<and> r \<in> set (outbox (w_db s'))"
  using assms(1)
proof induction
  case base
  show ?case using assms(2,5) by simp
next
  case (step y z)
  then show ?case using relay_step_ok [OF step(2) _ assms(3,4)] finished_kept [OF step(2) _ _ assms(6)] by simp
qed

section \<open>A healthy relay empties the outbox\<close>

definition pending_ids :: "db \<Rightarrow> int64 list" where
  "pending_ids d = map sequence_no (filter pending (outbox d))"

definition healthy :: "instant \<Rightarrow> batch_env \<Rightarrow> bool" where
  "healthy t be \<longleftrightarrow>
     (let ce = be_claim be in
        t \<le> cl_now ce \<and> cl_locked ce = [] \<and> (\<forall>rs. mset (cl_order ce rs) = mset rs) \<and> cl_begin ce = None \<and> cl_query ce = None
        \<and> cl_scan ce = None \<and> cl_rows ce = None \<and> cl_commit ce = NoFault)
     \<and> (\<forall>k. it_publish (be_items be k) = Accepted \<and> it_mark (be_items be k) = NoFault) \<and> be_pending be = None"

text \<open>The rows a healthy run leaves: those with the given sequences are published, the others untouched.\<close>

definition published_only :: "int64 set \<Rightarrow> db \<Rightarrow> db \<Rightarrow> bool" where
  "published_only S d d' \<longleftrightarrow>
     (\<exists>g. d' = update_rows (\<lambda>r. True) g d \<and> (\<forall>r. event_part (g r) = event_part r)
        \<and> (\<forall>r \<in> set (outbox d). (sequence_no r \<in> S \<longrightarrow> published_at (g r) \<noteq> None) \<and> (sequence_no r \<notin> S \<longrightarrow> g r = r)))"

lemma published_only_empty: "published_only {} d d"
  unfolding published_only_def by (rule exI [of _ id]) (simp add: update_rows_def)

lemma update_rows_twice:
  "update_rows (\<lambda>r. True) g (update_rows P f d) = update_rows (\<lambda>r. True) (\<lambda>r. g (if P r then f r else r)) d"
  by (simp add: update_rows_def comp_def)

lemma published_only_after:
  assumes "published_only S (update_rows P f d) d'" and f: "\<And>r. event_part (f r) = event_part r"
    and P: "\<And>r. r \<in> set (outbox d) \<Longrightarrow> P r \<longleftrightarrow> sequence_no r \<in> T"
    and T: "\<And>r. sequence_no r \<in> T \<Longrightarrow> sequence_no r \<in> S \<or> published_at (f r) \<noteq> None"
  shows "published_only (S \<union> T) d d'"
proof -
  let ?h = "\<lambda>r. if P r then f r else r"
  obtain g where after: "d' = update_rows (\<lambda>r. True) g (update_rows P f d)" "\<forall>r. event_part (g r) = event_part r"
    "\<forall>r \<in> set (outbox (update_rows P f d)). (sequence_no r \<in> S \<longrightarrow> published_at (g r) \<noteq> None) \<and> (sequence_no r \<notin> S \<longrightarrow> g r = r)"
    using assms(1) unfolding published_only_def by (elim exE conjE)
  have h: "event_part (?h r) = event_part r" for r using f by simp
  note each = after(3) [unfolded ball_updated event_part_eq(1) [OF h]]
  have "(sequence_no r \<in> S \<union> T \<longrightarrow> published_at (g (?h r)) \<noteq> None) \<and> (sequence_no r \<notin> S \<union> T \<longrightarrow> g (?h r) = r)"
    if r: "r \<in> set (outbox d)" for r
  proof (cases "sequence_no r \<in> S")
    case True
    with each r show ?thesis by blast
  next
    case False
    with each r have same: "g (?h r) = ?h r" by blast
    show ?thesis
    proof (cases "P r")
      case True
      then show ?thesis using same False P [OF r] T [of r] by simp
    next
      case not_P: False
      then show ?thesis using same False P [OF r] by simp
    qed
  qed
  moreover have "event_part (g (?h r)) = event_part r" for r using after(2) h by metis
  ultimately show ?thesis
    unfolding published_only_def after(1) update_rows_twice by (intro exI [of _ "\<lambda>r. g (?h r)"]) blast
qed

lemma published_only_board: "published_only S d d' \<Longrightarrow> board_ok d \<Longrightarrow> board_ok d'"
  unfolding published_only_def using board_ok_update_rows by blast

lemma published_only_rows:
  assumes "published_only S d d'" and "\<And>r. r \<in> set (outbox d) \<Longrightarrow> Q r" and "\<And>r. published_at r \<noteq> None \<Longrightarrow> Q r"
  shows "\<forall>r \<in> set (outbox d'). Q r"
proof -
  obtain g where g: "d' = update_rows (\<lambda>r. True) g d"
    "\<forall>r \<in> set (outbox d). (sequence_no r \<in> S \<longrightarrow> published_at (g r) \<noteq> None) \<and> (sequence_no r \<notin> S \<longrightarrow> g r = r)"
    using assms(1) unfolding published_only_def by (elim exE conjE)
  show ?thesis unfolding g(1) ball_updated using g(2) assms(2,3) by (metis (full_types))
qed

lemma published_only_pending:
  assumes "published_only S d d'"
  shows "pending_ids d' = filter (\<lambda>i. i \<notin> S) (pending_ids d)"
proof -
  obtain g where g: "d' = update_rows (\<lambda>r. True) g d" "\<forall>r. event_part (g r) = event_part r"
    "\<forall>r \<in> set (outbox d). (sequence_no r \<in> S \<longrightarrow> published_at (g r) \<noteq> None) \<and> (sequence_no r \<notin> S \<longrightarrow> g r = r)"
    using assms unfolding published_only_def by (elim exE conjE)
  have seq: "sequence_no (g r) = sequence_no r" for r using g(2) event_part_eq(1) by blast
  have "map sequence_no (filter pending (map g rs)) = filter (\<lambda>i. i \<notin> S) (map sequence_no (filter pending rs))"
    if "set rs \<subseteq> set (outbox d)" for rs
    using that
  proof (induction rs)
    case (Cons r rs)
    then have r: "r \<in> set (outbox d)" by simp
    have "pending (g r) \<longleftrightarrow> pending r \<and> sequence_no r \<notin> S"
      using bspec [OF g(3) r] by (cases "sequence_no r \<in> S") (auto simp: pending_def)
    with Cons seq show ?case by simp
  qed simp
  then show ?thesis by (simp add: pending_ids_def g(1) outbox_update_rows)
qed

text \<open>What a worker needs of an item to publish it: it owns the row and the payload is readable.\<close>

definition publishable :: "(json \<Rightarrow> string) \<Rightarrow> string \<Rightarrow> db \<Rightarrow> claimed_event \<Rightarrow> bool" where
  "publishable render w d it \<longleftrightarrow>
     (\<exists>r \<in> set (outbox d). owned w (ce_sequence it) r \<and> (\<exists>e. decode_event (ce_payload it) = Inr e))"

lemma affected_owned:
  assumes "distinct (map sequence_no (outbox d))" and "r \<in> set (outbox d)" and "owned w i r"
  shows "affected (owned w i) d = 1"
proof -
  have "distinct (outbox d)" using assms(1) by (simp add: distinct_map)
  moreover have "{r \<in> set (outbox d). owned w i r} = {r}"
    using assms unique_row [OF assms(1)] by (auto simp: owned_def)
  ultimately show ?thesis
    by (simp add: affected_def distinct_length_filter Int_def conj_commute)
qed

lemma publish_one_healthy:
  assumes inj: "distinct (map sequence_no (outbox (sys_db s)))" and it: "publishable render (worker_id (r_config (sys_relay s))) (sys_db s) it"
    and ie: "it_publish ie = Accepted" "it_mark ie = NoFault"
  obtains s' m where "publish_one ie it s = (s', None)" "msg_value m = ce_payload it" "msg_topic m = topic"
    "sys_kafka s' = sys_kafka s @ [m]" "r_config (sys_relay s') = r_config (sys_relay s)"
    "published_count (sys_relay s') = published_count (sys_relay s) + 1"
    "sys_db s' = update_rows (owned (worker_id (r_config (sys_relay s))) (ce_sequence it)) (set_published (it_now ie)) (sys_db s)"
proof -
  obtain r e where r: "r \<in> set (outbox (sys_db s))" "owned (worker_id (r_config (sys_relay s))) (ce_sequence it) r"
    and e: "decode_event (ce_payload it) = Inr e"
    using it by (auto simp: publishable_def)
  have "affected (owned (worker_id (r_config (sys_relay s))) (ce_sequence it)) (sys_db s) = 1"
    by (rule affected_owned [OF inj r])
  then show thesis
    using ie by (intro that [of "fst (publish_one ie it s)" "message_for ie it e"])
      (simp_all add: publish_one_def e broker_def run_stmt_def mark_published_def Let_def log_line_def message_for_def)
qed

lemma publish_all_healthy:
  assumes "distinct (map sequence_no (outbox (sys_db s)))" and "distinct (map ce_sequence its)"
    and "\<forall>it \<in> set its. publishable render (worker_id (r_config (sys_relay s))) (sys_db s) it"
    and "\<forall>k. it_publish (ies k) = Accepted \<and> it_mark (ies k) = NoFault"
  shows "published_only (ce_sequence ` set its) (sys_db s) (sys_db (publish_all ies k its s))
    \<and> (\<exists>ms. sys_kafka (publish_all ies k its s) = sys_kafka s @ ms \<and> map msg_value ms = map ce_payload its
         \<and> (\<forall>m \<in> set ms. msg_topic m = topic))
    \<and> r_config (sys_relay (publish_all ies k its s)) = r_config (sys_relay s)
    \<and> published_count (sys_relay (publish_all ies k its s)) = published_count (sys_relay s) + length its"
  using assms(1-3)
proof (induction its arbitrary: k s)
  case Nil
  then show ?case by (simp add: published_only_empty)
next
  case (Cons it its)
  let ?w = "worker_id (r_config (sys_relay s))"
  have "publishable render ?w (sys_db s) it" using Cons.prems(3) by simp
  then obtain s' m where one: "publish_one (ies k) it s = (s', None)" "msg_value m = ce_payload it" "msg_topic m = topic"
    "sys_kafka s' = sys_kafka s @ [m]" "r_config (sys_relay s') = r_config (sys_relay s)"
    "published_count (sys_relay s') = published_count (sys_relay s) + 1"
    "sys_db s' = update_rows (owned ?w (ce_sequence it)) (set_published (it_now (ies k))) (sys_db s)"
    using publish_one_healthy [OF Cons.prems(1) _ , of render it "ies k"] assms(4) by blast
  obtain r where r: "r \<in> set (outbox (sys_db s))" "owned ?w (ce_sequence it) r"
    using Cons.prems(3) by (auto simp: publishable_def)
  have seqs: "map sequence_no (outbox (sys_db s')) = map sequence_no (outbox (sys_db s))"
    by (simp add: one(7) outbox_update_rows set_published_def)
  have "publishable render ?w (sys_db s') it'" if "it' \<in> set its" for it'
  proof -
    have "publishable render ?w (sys_db s) it'" "ce_sequence it \<notin> ce_sequence ` set its"
      using Cons.prems(2,3) that by simp_all
    moreover from this that have "ce_sequence it' \<noteq> ce_sequence it" by (metis imageI)
    moreover obtain q where q: "q \<in> set (outbox (sys_db s))" "owned ?w (ce_sequence it') q"
      using \<open>publishable render ?w (sys_db s) it'\<close> by (auto simp: publishable_def)
    ultimately have "\<not> owned ?w (ce_sequence it) q" by (simp add: owned_def)
    with q show ?thesis
      using \<open>publishable render ?w (sys_db s) it'\<close> unfolding publishable_def one(7) bex_updated
      by (intro bexI [OF _ q(1)]) auto
  qed
  then have IH: "published_only (ce_sequence ` set its) (sys_db s') (sys_db (publish_all ies (Suc k) its s'))
    \<and> (\<exists>ms. sys_kafka (publish_all ies (Suc k) its s') = sys_kafka s' @ ms \<and> map msg_value ms = map ce_payload its
         \<and> (\<forall>m \<in> set ms. msg_topic m = topic))
    \<and> r_config (sys_relay (publish_all ies (Suc k) its s')) = r_config (sys_relay s')
    \<and> published_count (sys_relay (publish_all ies (Suc k) its s')) = published_count (sys_relay s') + length its"
    using Cons.IH [of s' "Suc k"] Cons.prems seqs one(5) by simp
  have "published_only (ce_sequence ` set its \<union> {ce_sequence it}) (sys_db s) (sys_db (publish_all ies (Suc k) its s'))"
  proof (rule published_only_after)
    show "published_only (ce_sequence ` set its) (update_rows (owned ?w (ce_sequence it)) (set_published (it_now (ies k))) (sys_db s))
        (sys_db (publish_all ies (Suc k) its s'))"
      using IH one(7) by simp
    show "owned ?w (ce_sequence it) q \<longleftrightarrow> sequence_no q \<in> {ce_sequence it}" if "q \<in> set (outbox (sys_db s))" for q
      using that r unique_row [OF Cons.prems(1) r(1) that] by (auto simp: owned_def)
  qed (simp_all add: set_published_def event_part_def)
  then have "published_only (insert (ce_sequence it) (ce_sequence ` set its)) (sys_db s) (sys_db (publish_all ies (Suc k) its s'))"
    by (simp add: Un_commute)
  moreover obtain ms where "sys_kafka (publish_all ies (Suc k) its s') = sys_kafka s' @ ms" "map msg_value ms = map ce_payload its"
    "\<forall>m \<in> set ms. msg_topic m = topic"
    using IH by blast
  then have "\<exists>ms. sys_kafka (publish_all ies (Suc k) its s') = sys_kafka s @ ms \<and> map msg_value ms = map ce_payload (it # its)
      \<and> (\<forall>m \<in> set ms. msg_topic m = topic)"
    using one(2-4) by (intro exI [of _ "m # ms"]) simp
  ultimately show ?case using IH one(1,5,6) by simp
qed

lemma claimable_mono: "claimable t r \<Longrightarrow> t \<le> t' \<Longrightarrow> claimable t' r"
  by (auto simp: claimable_def split: option.splits)

definition all_due :: "instant \<Rightarrow> db \<Rightarrow> bool" where
  "all_due t d \<longleftrightarrow> (\<forall>r \<in> set (outbox d). pending r \<longrightarrow> claimable t r)"

lemma candidates_due:
  assumes "all_due t d" and "t \<le> now" and "distinct (map sequence_no (outbox d))"
  shows "set (candidates c now [] d) \<subseteq> set (pending_ids d)"
    and "length (candidates c now [] d) = min (nat (batch_size c)) (length (pending_ids d))"
proof -
  have "filter (claimable now) (outbox d) = filter pending (outbox d)"
    by (rule filter_cong) (use assms(1,2) claimable_mono in \<open>auto simp: all_due_def pending_def claimable_def\<close>)
  then have c: "candidates c now [] d = take (nat (batch_size c)) (map sequence_no (sort_key sequence_no (filter pending (outbox d))))"
    by (simp add: candidates_def)
  show "set (candidates c now [] d) \<subseteq> set (pending_ids d)"
    unfolding c pending_ids_def by (auto dest!: in_set_takeD)
  show "length (candidates c now [] d) = min (nat (batch_size c)) (length (pending_ids d))"
    by (simp add: c pending_ids_def min.commute)
qed

lemma claimed_batch:
  fixes c :: relay_config
  assumes "board_ok d" and "faithful render" and order: "\<forall>rs. mset (cl_order ce rs) = mset rs"
  defines "cs \<equiv> candidates c (cl_now ce) (cl_locked ce) d" and "work \<equiv> claim_rows c (cl_now ce) (cl_locked ce) d"
    and "batch \<equiv> map (claimed_item render) (returned_rows c ce d)"
  shows "distinct (map ce_sequence batch)" and "ce_sequence ` set batch = set cs" and "length batch = length cs"
    and "\<forall>it \<in> set batch. publishable render (worker_id c) work it"
proof -
  have inj: "distinct (map sequence_no (outbox d))" by (rule board_sequences [OF assms(1)])
  have work: "board_ok work" unfolding work_def claim_rows_def by (rule board_ok_update_rows [OF _ assms(1)]) simp
  let ?rows = "filter (\<lambda>r. sequence_no r \<in> set cs) (outbox work)"
  have rows: "mset (returned_rows c ce d) = mset ?rows"
    using order by (simp add: returned_rows_def cs_def work_def)
  have seqs: "map ce_sequence batch = map sequence_no (returned_rows c ce d)"
    by (simp add: batch_def claimed_item_def)
  have "distinct (map sequence_no ?rows)" using board_sequences [OF work] by (rule distinct_map_filter)
  then show dist: "distinct (map ce_sequence batch)"
    unfolding seqs using rows by (metis mset_eq_imp_distinct_iff mset_map)
  have "set cs \<subseteq> sequence_no ` set (outbox d)"
    using candidates_claimable(1) [of _ c "cl_now ce" "cl_locked ce" d] by (auto simp: cs_def)
  moreover have "map sequence_no (outbox work) = map sequence_no (outbox d)"
    by (simp add: work_def claim_rows_def outbox_update_rows take_claim_def)
  then have "sequence_no ` set (outbox work) = sequence_no ` set (outbox d)" by (metis set_map)
  ultimately have "sequence_no ` set ?rows = set cs" by auto
  then have "set (map sequence_no (returned_rows c ce d)) = set cs" using mset_eq_setD [OF rows] by simp
  then show set_eq: "ce_sequence ` set batch = set cs" using seqs by (metis set_map)
  have "length (map ce_sequence batch) = length cs"
    using distinct_card [OF dist] distinct_card [OF distinct_candidates [OF inj], of c "cl_now ce" "cl_locked ce"] set_eq
    by (simp add: cs_def)
  then show "length batch = length cs" by simp
  show "\<forall>it \<in> set batch. publishable render (worker_id c) work it"
  proof
    fix it assume "it \<in> set batch"
    then obtain r where "r \<in> set (returned_rows c ce d)" and it: "it = claimed_item render r" by (auto simp: batch_def)
    then have r: "r \<in> set (outbox work)" "sequence_no r \<in> set cs" using mset_eq_setD [OF rows] by auto
    have "owned (worker_id c) (sequence_no r) r"
    proof -
      obtain q where q: "q \<in> set (outbox d)" "r = (if sequence_no q \<in> set cs then take_claim c (cl_now ce) q else q)"
        using r(1) by (auto simp: work_def claim_rows_def outbox_update_rows cs_def split: if_splits)
      then have "sequence_no q \<in> set cs" using r(2) by (auto split: if_splits)
      with q claimed_row [OF q(1) _ inj] show ?thesis
        by (auto simp: cs_def owned_def take_claim_def claimable_def)
    qed
    moreover obtain e where "carries r e" using work r(1) by (auto simp: board_ok_def history_ok_def)
    ultimately show "publishable render (worker_id c) work it"
      using r(1) carried_decodes [OF assms(2)] by (auto simp: publishable_def it claimed_item_def)
  qed
qed

lemma run_batch_healthy:
  assumes "board_ok (sys_db s)" and "faithful render" and h: "healthy t be"
    and call: "run_batch render be s = (s', err)"
  defines "c \<equiv> r_config (sys_relay s)"
  defines "cs \<equiv> candidates c (cl_now (be_claim be)) [] (sys_db s)"
  shows "err = None" and "published_only (set cs) (sys_db s) (sys_db s')" and "r_config (sys_relay s') = c"
    and "published_count (sys_relay s') = published_count (sys_relay s) + length cs"
    and "backlog (sys_relay s') = int (length (pending_ids (sys_db s')))"
proof -
  let ?ce = "be_claim be" and ?d = "sys_db s"
  have env: "cl_begin ?ce = None" "cl_query ?ce = None" "cl_scan ?ce = None" "cl_rows ?ce = None" "cl_commit ?ce = NoFault"
    "cl_locked ?ce = []" "\<forall>rs. mset (cl_order ?ce rs) = mset rs" "be_pending be = None"
    "\<forall>k. it_publish (be_items be k) = Accepted \<and> it_mark (be_items be k) = NoFault"
    using h by (auto simp: healthy_def Let_def)
  define work where "work = claim_rows c (cl_now ?ce) [] ?d"
  define batch where "batch = map (claimed_item render) (returned_rows c ?ce ?d)"
  note b = claimed_batch [OF assms(1,2) env(7), of c, unfolded env(6), folded cs_def work_def batch_def]
  have claim: "claim render c ?ce ?d = (work, Inr batch)"
    using env by (simp add: claim_def work_def batch_def commit_def Let_def)
  let ?s1 = "s\<lparr>sys_db := work\<rparr>"
  have "board_ok work" unfolding work_def claim_rows_def by (rule board_ok_update_rows [OF _ assms(1)]) simp
  then have "distinct (map sequence_no (outbox (sys_db ?s1)))" by (simp add: board_sequences)
  from publish_all_healthy [OF this b(1), of render "be_items be" 0] b(4) env(9)
  have all: "published_only (set cs) work (sys_db (publish_all (be_items be) 0 batch ?s1))"
    "r_config (sys_relay (publish_all (be_items be) 0 batch ?s1)) = c"
    "published_count (sys_relay (publish_all (be_items be) 0 batch ?s1)) = published_count (sys_relay s) + length cs"
    by (simp_all add: c_def b(2,3))
  have run: "err = None \<and> s' = (publish_all (be_items be) 0 batch ?s1)
      \<lparr>sys_relay := (sys_relay (publish_all (be_items be) 0 batch ?s1))
        \<lparr>backlog := int (affected pending (sys_db (publish_all (be_items be) 0 batch ?s1)))\<rparr>\<rparr>"
    using call claim env(8) by (auto simp: run_batch_def relay_pending_def error_of_def Let_def c_def)
  have "published_only (set cs) (update_rows (\<lambda>r. sequence_no r \<in> set cs) (take_claim c (cl_now ?ce)) ?d)
      (sys_db (publish_all (be_items be) 0 batch ?s1))"
    using all(1) by (simp add: work_def claim_rows_def cs_def)
  from published_only_after [OF this, of "set cs"]
  have "published_only (set cs) ?d (sys_db (publish_all (be_items be) 0 batch ?s1))" by simp
  then show "err = None" "published_only (set cs) (sys_db s) (sys_db s')" "r_config (sys_relay s') = c"
    "published_count (sys_relay s') = published_count (sys_relay s) + length cs"
    "backlog (sys_relay s') = int (length (pending_ids (sys_db s')))"
    using run all(2,3) by (simp_all add: affected_def pending_ids_def)
qed

lemma relay_run_drains:
  assumes "board_ok (sys_db s)" and "faithful render" and "all_due t (sys_db s)" and "\<forall>be \<in> set bes. healthy t be"
  shows "length (pending_ids (sys_db (fst (relay_run render bes s)))) =
      length (pending_ids (sys_db s)) - length bes * nat (batch_size (r_config (sys_relay s)))
    \<and> board_ok (sys_db (fst (relay_run render bes s)))
    \<and> int (published_count (sys_relay (fst (relay_run render bes s)))) - int (published_count (sys_relay s)) =
        int (length (pending_ids (sys_db s))) - int (length (pending_ids (sys_db (fst (relay_run render bes s)))))"
  using assms
proof (induction bes arbitrary: s)
  case (Cons be bes)
  let ?c = "r_config (sys_relay s)"
  let ?cs = "candidates ?c (cl_now (be_claim be)) [] (sys_db s)"
  obtain s' err where call: "run_batch render be s = (s', err)" by (rule prod.exhaust)
  have h: "healthy t be" using Cons.prems(4) by simp
  note batch = run_batch_healthy [OF Cons.prems(1,2) h call]
  have inj: "distinct (map sequence_no (outbox (sys_db s)))" by (rule board_sequences [OF Cons.prems(1)])
  have now: "t \<le> cl_now (be_claim be)" using h by (simp add: healthy_def Let_def)
  note cands = candidates_due [OF Cons.prems(3) now inj, of ?c]
  have dist: "distinct (pending_ids (sys_db s))" unfolding pending_ids_def by (rule distinct_map_filter [OF inj])
  have "length (filter (\<lambda>i. i \<in> set ?cs) (pending_ids (sys_db s))) = length ?cs"
    using distinct_card [OF distinct_filter [OF dist, of "\<lambda>i. i \<in> set ?cs"]] distinct_card [OF distinct_candidates [OF inj]] cands(1)
    by (simp add: Int_absorb2 Collect_conj_eq [symmetric] Int_def [symmetric]) (metis Int_absorb1 Int_def inf_commute)
  then have left: "length (pending_ids (sys_db s')) = length (pending_ids (sys_db s)) - length ?cs"
    using published_only_pending [OF batch(2)] sum_length_filter_compl [of "\<lambda>i. i \<in> set ?cs" "pending_ids (sys_db s)"]
    by simp
  have "all_due t (sys_db s')"
    unfolding all_due_def
    by (rule published_only_rows [OF batch(2)]) (use Cons.prems(3) in \<open>auto simp: all_due_def pending_def\<close>)
  moreover have "board_ok (sys_db s')" using published_only_board [OF batch(2) Cons.prems(1)] .
  ultimately have IH: "length (pending_ids (sys_db (fst (relay_run render bes s')))) =
      length (pending_ids (sys_db s')) - length bes * nat (batch_size ?c)
    \<and> board_ok (sys_db (fst (relay_run render bes s')))
    \<and> int (published_count (sys_relay (fst (relay_run render bes s')))) - int (published_count (sys_relay s')) =
        int (length (pending_ids (sys_db s'))) - int (length (pending_ids (sys_db (fst (relay_run render bes s')))))"
    using Cons.IH [of s'] Cons.prems(2,4) batch(3) by simp
  have "length ?cs \<le> length (pending_ids (sys_db s))" using cands(2) by simp
  then show ?case
    using IH left batch(1,4) cands(2) call by (auto simp: min_def)
qed simp

section \<open>A sample run\<close>

lemma sample_created: "\<exists>d r. board_ok d \<and> outbox d = [r] \<and> fresh_row r"
proof -
  obtain d' resp where run: "create_task sample_env ''s'' [''1''] (marshal sample_new_task) sample_board = (d', resp)"
    by (rule prod.exhaust)
  then have ep: "run_endpoint sample_env ''s'' CreateTask [''1''] (marshal sample_new_task) sample_board = (d', resp)"
    by (simp add: run_endpoint_def)
  have pid: "path_id [''1''] = Inr 1" by (simp add: path_id_def parse_one)
  have "code (fst (snd (create_task sample_env ''s'' [''1''] (marshal sample_new_task) sample_board))) = 201"
    by (rule create_task_runs [OF sample_board_ok sample_env_ready pid sample_new_decoded sample_new_acceptable(1)])
      (simp_all add: sample_new_acceptable sample_text pg_text_def no_nul_def utf8_ok_ascii,
        simp_all add: sample_board_def project_exists_def user_exists_def)
  then have made: "code (fst resp) = 201" by (simp add: run)
  obtain r where "outbox d' = outbox sample_board @ [r]"
    by (rule create_task_result [OF run made sample_board_ok sample_env_inputs])
  then have "outbox d' = [r]" by (simp add: sample_board_def)
  moreover have "fresh_row r" using run_endpoint_outbox [OF ep] calculation by (auto simp: sample_board_def)
  moreover have "board_ok d'" by (rule run_endpoint_board [OF sample_board_ok sample_env_inputs ep])
  ultimately show ?thesis by blast
qed

definition sample_config :: relay_config where
  "sample_config = \<lparr>worker_id = ''w'', batch_size = 100, poll_every = 250 * millisecond, claim_for = 30 * second,
     max_backoff = minute, max_attempts = 20\<rparr>"

definition sample_item_env :: item_env where
  "sample_item_env = \<lparr>it_inject = id, it_explain = (\<lambda>_. []), it_publish = Accepted, it_now = 0, it_clock = 0,
     it_mark = NoFault, it_fail = NoFault\<rparr>"

definition sample_batch :: "instant \<Rightarrow> batch_env" where
  "sample_batch t =
     \<lparr>be_claim = \<lparr>cl_now = t, cl_locked = [], cl_order = id, cl_begin = None, cl_query = None, cl_scan = None, cl_rows = None,
        cl_commit = NoFault\<rparr>, be_items = (\<lambda>k. sample_item_env), be_pending = None, be_canceled = False\<rparr>"

definition sample_system :: "db \<Rightarrow> system" where
  "sample_system d =
     \<lparr>sys_db = d, sys_kafka = [],
      sys_relay = \<lparr>r_config = sample_config, backlog = 0, published_count = 0, failed_count = 0, dead_count = 0\<rparr>,
      sys_log = []\<rparr>"

lemma sample_config_new: "new_relay (sample_config\<lparr>batch_size := 0, poll_every := 0, claim_for := 0, max_backoff := 0, max_attempts := 0\<rparr>)
    = Inr (sys_relay (sample_system d))"
  by (simp add: new_relay_def sample_config_def sample_system_def)

lemma sample_healthy: "t \<le> u \<Longrightarrow> healthy t (sample_batch u)"
  by (simp add: healthy_def sample_batch_def sample_item_env_def)

lemma sample_due: "outbox d = [r] \<Longrightarrow> fresh_row r \<Longrightarrow> all_due (next_attempt_at r) d"
  by (simp add: all_due_def claimable_def fresh_row_def)

lemma sample_published:
  "\<exists>d s. board_ok d \<and> (\<forall>r \<in> set (outbox d). fresh_row r) \<and> relay_runs marshal sample_config (start d) s
    \<and> (\<exists>r \<in> set (outbox (w_db s)). published_at r \<noteq> None) \<and> w_acked s \<noteq> []"
proof -
  obtain d r where d: "board_ok d" "outbox d = [r]" "fresh_row r" using sample_created by blast
  let ?be = "sample_batch (next_attempt_at r)"
  obtain s' err where call: "run_batch marshal ?be (sample_system d) = (s', err)" by (rule prod.exhaust)
  have "simulated marshal sample_config 0 ''w'' (start d) s' []"
    by (rule run_batch_simulated [OF _ _ _ _ call])
      (simp_all add: mirrors_def start_def sample_system_def config_of_def sample_config_def sample_batch_def)
  then obtain x where x: "relay_runs marshal sample_config (start d) x" "w_db x = sys_db s'"
    "length (w_acked x) = published_count (sys_relay s')"
    by (auto simp: simulated_def mirrors_def)
  have cands: "candidates sample_config (next_attempt_at r) [] d = [sequence_no r]"
    using d(2,3) by (simp add: candidates_def claimable_def fresh_row_def sample_config_def)
  note batch = run_batch_healthy [OF _ faithful_marshal sample_healthy [of "next_attempt_at r"] call]
  have "published_only {sequence_no r} d (sys_db s')"
    using batch(2) cands d(1) by (simp add: sample_system_def sample_batch_def)
  moreover have "w_acked x \<noteq> []"
    using batch(4) cands d(1) x(3) by (auto simp: sample_system_def sample_batch_def)
  ultimately obtain g where "outbox (sys_db s') = [g r]" "published_at (g r) \<noteq> None" "w_acked x \<noteq> []"
    using d(2) by (auto simp: published_only_def outbox_update_rows)
  with x d show ?thesis by (intro exI [of _ d] exI [of _ x]) auto
qed

section \<open>Properties\<close>

text \<open>C4. At least once: however the workers and the API servers interleave, whichever statements fail or
  lose their answers and whenever workers stop, a row is marked published only after Kafka has
  accepted a record with its payload, on the board topic and under its project as the key; and every
  record in Kafka is such a record of a stored row and decodes to exactly the event that row carries.\<close>

theorem relay_at_least_once:
  assumes "relay_runs render c (start d) s" and "board_ok d" and "\<forall>r \<in> set (outbox d). fresh_row r"
    and "faithful render" and "1 \<le> max_attempts c"
  shows "(\<forall>r \<in> set (outbox (w_db s)). published_at r \<noteq> None \<longrightarrow>
      (\<exists>m \<in> set (w_kafka s). msg_topic m = ''noapp.board-events.v1'' \<and> msg_key m = format_int 10 (ob_project r)
         \<and> msg_value m = render (payload r)))
    \<and> (\<forall>m \<in> set (w_kafka s). \<exists>r \<in> set (outbox (w_db s)). \<exists>e. carries r e \<and> decode_event (msg_value m) = Inr e
         \<and> msg_topic m = ''noapp.board-events.v1'' \<and> msg_key m = format_int 10 (event_project e))"
proof -
  have ok: "table_ok render (max_attempts c) (w_kafka s) (w_db s)"
    using relay_runs_ok [OF assms] by (simp add: world_ok_def)
  have "\<exists>e. carries r e \<and> decode_event (msg_value m) = Inr e \<and> msg_topic m = ''noapp.board-events.v1''
      \<and> msg_key m = format_int 10 (event_project e)" if r: "r \<in> set (outbox (w_db s))" "message_of render r m" for r m
  proof -
    obtain e where "carries r e" using ok r(1) unfolding table_ok_def board_ok_def history_ok_def by blast
    then show ?thesis
      using carried_decodes [OF assms(4)] r(2) by (auto simp: message_of_def topic_def carries_def)
  qed
  then have "\<forall>m \<in> set (w_kafka s). \<exists>r \<in> set (outbox (w_db s)). \<exists>e. carries r e \<and> decode_event (msg_value m) = Inr e
      \<and> msg_topic m = ''noapp.board-events.v1'' \<and> msg_key m = format_int 10 (event_project e)"
    using ok unfolding table_ok_def by metis
  moreover have "\<forall>r \<in> set (outbox (w_db s)). published_at r \<noteq> None \<longrightarrow>
      (\<exists>m \<in> set (w_kafka s). msg_topic m = ''noapp.board-events.v1'' \<and> msg_key m = format_int 10 (ob_project r)
         \<and> msg_value m = render (payload r))"
    using ok unfolding table_ok_def message_of_def topic_def by (elim conjE)
  ultimately show ?thesis by (intro conjI)
qed

theorem relay_at_least_once_witness:
  "\<exists>d s r m. relay_runs marshal sample_config (start d) s \<and> r \<in> set (outbox (w_db s)) \<and> m \<in> set (w_kafka s)
    \<and> msg_value m = marshal (payload r)"
proof -
  obtain d s r where d: "board_ok d" "\<forall>r \<in> set (outbox d). fresh_row r" "relay_runs marshal sample_config (start d) s"
    and r: "r \<in> set (outbox (w_db s))" "published_at r \<noteq> None"
    using sample_published by blast
  have "1 \<le> max_attempts sample_config" by (simp add: sample_config_def)
  from relay_at_least_once [OF d(3,1,2) faithful_marshal this] r d(3) show ?thesis by blast
qed

text \<open>C26. The life of a row in every reachable state: its attempts stay between 0 and the maximum, it is
  dead exactly when they have reached it, a published row is not dead, and a published or dead row
  belongs to no worker.\<close>

theorem relay_row_life:
  assumes "relay_runs render c (start d) s" and "board_ok d" and "\<forall>r \<in> set (outbox d). fresh_row r"
    and "faithful render" and "1 \<le> max_attempts c" and "r \<in> set (outbox (w_db s))"
  shows "0 \<le> attempt_count r \<and> attempt_count r \<le> max_attempts c
    \<and> (dead_at r \<noteq> None \<longleftrightarrow> attempt_count r = max_attempts c)
    \<and> (published_at r \<noteq> None \<longrightarrow> dead_at r = None)
    \<and> (published_at r \<noteq> None \<or> dead_at r \<noteq> None \<longrightarrow> claimed_by r = None)"
  using relay_runs_ok [OF assms(1-5)] assms(6) by (simp add: world_ok_def table_ok_def row_ok_def)

theorem relay_row_life_witness:
  "\<exists>d s r. relay_runs marshal sample_config (start d) s \<and> r \<in> set (outbox (w_db s)) \<and> published_at r \<noteq> None
    \<and> attempt_count r < 20"
proof -
  obtain d s r where d: "board_ok d" "\<forall>r \<in> set (outbox d). fresh_row r" "relay_runs marshal sample_config (start d) s"
    and r: "r \<in> set (outbox (w_db s))" "published_at r \<noteq> None"
    using sample_published by blast
  have "1 \<le> max_attempts sample_config" by (simp add: sample_config_def)
  from relay_row_life [OF d(3,1,2) faithful_marshal this r(1)] r d(3)
  have "attempt_count r < 20" by (auto simp: sample_config_def le_less)
  with r d(3) show ?thesis by blast
qed

text \<open>C16. No event is counted twice: over all workers together, the lines \<open>outbox event published\<close> (and
  with them the metric) name every sequence at most once, and only sequences that are published.\<close>

theorem relay_counts_once:
  assumes "relay_runs render c (start d) s" and "board_ok d" and "\<forall>r \<in> set (outbox d). fresh_row r"
    and "faithful render" and "1 \<le> max_attempts c"
  shows "distinct (w_acked s)
    \<and> (\<forall>i \<in> set (w_acked s). \<exists>r \<in> set (outbox (w_db s)). sequence_no r = i \<and> published_at r \<noteq> None)"
  using relay_runs_ok [OF assms] by (simp add: world_ok_def log_ok_def settled_def)

theorem relay_counts_once_witness:
  "\<exists>d s r. relay_runs marshal sample_config (start d) s \<and> distinct (w_acked s) \<and> w_acked s \<noteq> []
    \<and> r \<in> set (outbox (w_db s)) \<and> sequence_no r = hd (w_acked s) \<and> published_at r \<noteq> None"
proof -
  obtain d s where d: "board_ok d" "\<forall>r \<in> set (outbox d). fresh_row r" "relay_runs marshal sample_config (start d) s"
    "w_acked s \<noteq> []"
    using sample_published by blast
  have "1 \<le> max_attempts sample_config" by (simp add: sample_config_def)
  from relay_counts_once [OF d(3,1,2) faithful_marshal this] d(3,4) show ?thesis by (metis hd_in_set)
qed

text \<open>C27. Published and dead are final: once a row is published or dead, it is in the outbox with every
  column unchanged in every later state.\<close>

theorem relay_final_rows:
  assumes "relay_runs render c (start d) s" and "board_ok d" and "\<forall>r \<in> set (outbox d). fresh_row r"
    and "faithful render" and "1 \<le> max_attempts c"
    and "r \<in> set (outbox (w_db s))" and "published_at r \<noteq> None \<or> dead_at r \<noteq> None"
    and "relay_runs render c s s'"
  shows "r \<in> set (outbox (w_db s'))"
  using finished_kept_runs [OF assms(8) relay_runs_ok [OF assms(1-5)] assms(4,5,6)] assms(7) by (simp add: finished_row_def)

theorem relay_final_rows_witness:
  "\<exists>d s s' r. relay_runs marshal sample_config (start d) s \<and> relay_step marshal sample_config s s'
    \<and> published_at r \<noteq> None \<and> r \<in> set (outbox (w_db s')) \<and> claimed_by r = None"
proof -
  obtain d s r where d: "board_ok d" "\<forall>r \<in> set (outbox d). fresh_row r" "relay_runs marshal sample_config (start d) s"
    and r: "r \<in> set (outbox (w_db s))" "published_at r \<noteq> None"
    using sample_published by blast
  have one: "1 \<le> max_attempts sample_config" by (simp add: sample_config_def)
  have step: "relay_step marshal sample_config s (s\<lparr>w_phase := (w_phase s)(w := Ready [])\<rparr>)" for w by (rule stops)
  have "r \<in> set (outbox (w_db (s\<lparr>w_phase := (w_phase s)(''w'' := Ready [])\<rparr>)))"
    using relay_final_rows [OF d(3,1,2) faithful_marshal one r(1) _ r_into_rtranclp [of "relay_step _ _", OF step]] r(2)
    by blast
  moreover have "claimed_by r = None"
    using relay_runs_ok [OF d(3,1,2) faithful_marshal one] r by (simp add: world_ok_def table_ok_def row_ok_def)
  ultimately show ?thesis using d(3) step r(2) by blast
qed

text \<open>C8. \<open>runBatch\<close> implements the step relation: whatever goes wrong on the way, one batch of a worker that
  is between batches is a run of its steps to a state with the same database and the same topic, the
  worker between batches again and the other workers where they were, and the metric of published
  events has grown by the number of acknowledgements.\<close>

theorem run_batch_refines:
  assumes "run_batch render be s = (s', err)" and "r_config (sys_relay s) = config_of c w"
    and "\<forall>rs. mset (cl_order (be_claim be) rs) = mset rs"
    and "w_db x = sys_db s" and "w_kafka x = sys_kafka s" and "w_phase x w = Ready []"
  shows "\<exists>x'. relay_runs render c x x' \<and> w_db x' = sys_db s' \<and> w_kafka x' = sys_kafka s' \<and> w_phase x' = w_phase x
    \<and> length (w_acked x') + published_count (sys_relay s) = length (w_acked x) + published_count (sys_relay s')"
proof -
  define n where "n = int (length (w_acked x)) - int (published_count (sys_relay s))"
  have "simulated render c n w x s' []"
    by (rule run_batch_simulated [OF _ assms(6,2) _ assms(1)]) (use assms(3-5) in \<open>simp_all add: mirrors_def n_def\<close>)
  then obtain x' where x': "relay_runs render c x x'" "mirrors n x' s'" "w_phase x' = (w_phase x)(w := Ready [])"
    unfolding simulated_def by blast
  have "w_phase x' = w_phase x" using x'(3) assms(6) by (simp add: fun_upd_idem)
  moreover have "length (w_acked x') + published_count (sys_relay s) = length (w_acked x) + published_count (sys_relay s')"
    using x'(2) by (simp add: mirrors_def n_def)
  ultimately show ?thesis using x'(1,2) by (auto simp: mirrors_def)
qed

theorem run_batch_refines_witness:
  "\<exists>d x'. outbox d \<noteq> [] \<and> relay_runs marshal sample_config (start d) x'
    \<and> w_db x' = sys_db (fst (run_batch marshal (sample_batch 0) (sample_system d)))"
proof -
  obtain d r where "board_ok d" and d: "outbox d = [r]" using sample_created by blast
  obtain s' err where call: "run_batch marshal (sample_batch 0) (sample_system d) = (s', err)" by (rule prod.exhaust)
  have "\<exists>x'. relay_runs marshal sample_config (start d) x' \<and> w_db x' = sys_db s' \<and> w_kafka x' = sys_kafka s'
      \<and> w_phase x' = w_phase (start d)
      \<and> length (w_acked x') + published_count (sys_relay (sample_system d)) = length (w_acked (start d)) + published_count (sys_relay s')"
    by (rule run_batch_refines [OF call, of sample_config "''w''"])
      (simp_all add: start_def sample_system_def config_of_def sample_config_def sample_batch_def)
  then obtain x' where "relay_runs marshal sample_config (start d) x'" "w_db x' = sys_db s'" by blast
  with d call show ?thesis by (intro exI [of _ d] exI [of _ x']) simp
qed

text \<open>C18. A healthy relay empties the outbox: if every pending row is due and nothing fails, every batch
  publishes as many pending rows as its size allows, so after enough batches none is left; the
  metric of published events grows by exactly the rows that are no longer pending.\<close>

theorem relay_drains:
  assumes "board_ok (sys_db s)" and "faithful render" and "all_due t (sys_db s)" and "\<forall>be \<in> set bes. healthy t be"
    and "relay_run render bes s = (s', out)"
  shows "length (pending_ids (sys_db s')) = length (pending_ids (sys_db s)) - length bes * nat (batch_size (r_config (sys_relay s)))
    \<and> published_count (sys_relay s') + length (pending_ids (sys_db s')) =
        published_count (sys_relay s) + length (pending_ids (sys_db s))"
proof -
  note drain = relay_run_drains [OF assms(1-4), unfolded assms(5) fst_conv]
  then have "int (published_count (sys_relay s') + length (pending_ids (sys_db s'))) =
      int (published_count (sys_relay s) + length (pending_ids (sys_db s)))"
    by (simp only: of_nat_add) arith
  then have "published_count (sys_relay s') + length (pending_ids (sys_db s')) =
      published_count (sys_relay s) + length (pending_ids (sys_db s))"
    by (simp only: of_nat_eq_iff)
  with drain show ?thesis by blast
qed

theorem relay_drains_witness:
  "\<exists>d t s' out. pending_ids d \<noteq> [] \<and> relay_run marshal [sample_batch t] (sample_system d) = (s', out)
     \<and> pending_ids (sys_db s') = []"
proof -
  obtain d r where d: "board_ok d" "outbox d = [r]" "fresh_row r" using sample_created by blast
  let ?bes = "[sample_batch (next_attempt_at r)]"
  obtain s' out where run: "relay_run marshal ?bes (sample_system d) = (s', out)" by (rule prod.exhaust)
  have ids: "length (pending_ids d) = 1" using d(2,3) by (simp add: pending_ids_def pending_def fresh_row_def)
  have "board_ok (sys_db (sample_system d))" "all_due (next_attempt_at r) (sys_db (sample_system d))"
    using d sample_due by (simp_all add: sample_system_def)
  from relay_drains [OF this(1) faithful_marshal this(2) _ run] ids have "length (pending_ids (sys_db s')) = 0"
    by (simp add: sample_healthy sample_system_def sample_config_def)
  with run ids show ?thesis by (metis length_0_conv zero_neq_one)
qed

text \<open>C38. The delay before the next attempt: positive, at most the configured maximum, growing with the
  attempts, and exactly one second doubled per attempt until the maximum or the eleventh attempt.\<close>

theorem retry_delay_bounds:
  assumes "0 < m"
  shows "0 < retry_delay a m \<and> retry_delay a m \<le> m \<and> retry_delay a m \<le> 1024 * second
    \<and> (a \<le> b \<longrightarrow> retry_delay a m \<le> retry_delay b m)
    \<and> (1 \<le> a \<and> a \<le> 11 \<longrightarrow> retry_delay a m = min m (2 ^ nat (a - 1) * second))"
proof -
  define e :: "int \<Rightarrow> nat" where "e = (\<lambda>a. nat (min ((if a < 1 then 1 else a) - 1) 10))"
  have d: "retry_delay a m = min m (2 ^ e a * second)" for a
    by (simp add: retry_delay_def Let_def e_def min_def)
  have "e a \<le> 10" for a by (simp add: e_def)
  then have "2 ^ e a \<le> (2 ^ 10 :: int)" for a by (rule power_increasing) simp
  then have top: "2 ^ e a * second \<le> 1024 * second" for a by (simp add: duration_defs)
  have pos: "0 < 2 ^ e a * second" for a by (simp add: duration_defs)
  have mono: "2 ^ e a * second \<le> 2 ^ e b * second" if "a \<le> b"
  proof -
    have "e a \<le> e b" using that by (auto simp: e_def)
    then show ?thesis by (simp add: duration_defs power_increasing)
  qed
  have exact: "e a = nat (a - 1)" if "1 \<le> a" "a \<le> 11" using that by (simp add: e_def)
  have "a \<le> b \<longrightarrow> retry_delay a m \<le> retry_delay b m" unfolding d using min.mono [OF order_refl mono] by blast
  moreover have "1 \<le> a \<and> a \<le> 11 \<longrightarrow> retry_delay a m = min m (2 ^ nat (a - 1) * second)" unfolding d using exact by simp
  moreover have "0 < retry_delay a m \<and> retry_delay a m \<le> m \<and> retry_delay a m \<le> 1024 * second"
    unfolding d using assms pos [of a] min.coboundedI2 [OF top] by simp
  ultimately show ?thesis by blast
qed

theorem retry_delay_bounds_witness:
  "retry_delay 3 minute = 4 * second \<and> retry_delay 30 minute = minute"
proof -
  have "0 < minute" by (simp add: duration_defs)
  from retry_delay_bounds [OF this, of 3 3] retry_delay_bounds [OF this, of 11 30] retry_delay_bounds [OF this, of 30 30]
  show ?thesis by (auto simp: duration_defs intro: antisym)
qed

text \<open>C37. A failure on a row the worker owns: one more attempt, the row free again and due after the retry
  delay (in the microseconds of the table), the error kept up to 2000 characters, dead exactly at the
  last attempt; no other row changes and the cause is returned. On a row the worker no longer owns
  the table does not change at all, and yet the failure is counted, and at the last attempt a dead
  letter is counted and logged.\<close>

theorem relay_fail_effect:
  assumes "relay_fail ie it cause s = (s', err)" and "it_fail ie = NoFault" and "pg_text cause"
    and "\<forall>r \<in> set (outbox (sys_db s)). attempt_count r < 2 ^ 31 - 1"
  defines "c \<equiv> r_config (sys_relay s)"
  defines "dead \<equiv> max_attempts c \<le> ce_attempt_count it + 1"
  defines "mine \<equiv> (\<lambda>r. sequence_no r = ce_sequence it \<and> claimed_by r = Some (worker_id c) \<and> published_at r = None)"
  shows "outbox (sys_db s') = map (\<lambda>r. if mine r
        then r\<lparr>attempt_count := attempt_count r + 1, claimed_by := None, claim_until := None,
            next_attempt_at := micros (it_clock ie + retry_delay (ce_attempt_count it + 1) (max_backoff c)),
            last_error := Some (left_chars 2000 cause), dead_at := (if dead then Some (it_now ie) else dead_at r)\<rparr>
        else r) (outbox (sys_db s))
    \<and> err = Some cause \<and> sys_kafka s' = sys_kafka s
    \<and> failed_count (sys_relay s') = failed_count (sys_relay s) + 1
    \<and> dead_count (sys_relay s') = dead_count (sys_relay s) + (if dead then 1 else 0)
    \<and> ((\<forall>r \<in> set (outbox (sys_db s)). \<not> mine r) \<longrightarrow> sys_db s' = sys_db s)"
proof -
  let ?f = "set_failed (it_now ie) (it_clock ie + retry_delay (ce_attempt_count it + 1) (max_backoff c)) cause dead"
  have mine: "mine = owned (worker_id c) (ce_sequence it)" by (auto simp: mine_def owned_def fun_eq_iff)
  have stmt: "record_failure (it_now ie) (worker_id c) (ce_sequence it) later cause dead (sys_db s)
      = (update_rows mine (set_failed (it_now ie) later cause dead) (sys_db s), Inr (affected mine (sys_db s)))" for later
    using assms(3,4) unfolding record_failure_def mine by fastforce
  have s': "s' = (if dead then log_line Error ''outbox event moved to dead-letter state'' else id)
      (s\<lparr>sys_db := update_rows mine ?f (sys_db s), sys_relay := count_failure dead (sys_relay s)\<rparr>) \<and> err = Some cause"
    using assms(1,2) stmt
    by (simp add: relay_fail_def run_stmt_def Let_def dead_def [symmetric] c_def [symmetric] split: if_splits)
  have "update_rows mine ?f (sys_db s) = sys_db s" if "\<forall>r \<in> set (outbox (sys_db s)). \<not> mine r"
    using that by (simp add: update_rows_def map_idI)
  then show ?thesis
    using s' by (simp add: log_line_def count_failure_def outbox_update_rows set_failed_def)
qed

theorem relay_fail_effect_witness:
  "\<exists>s'. relay_fail sample_item_env (claimed_item marshal \<lparr>sequence_no = 1, ob_event_id = [], ob_project = 1, aggregate_id = 1,
      aggregate_version = 1, ob_event_type = [], payload = JNull, ob_occurred_at = 0, published_at = None, attempt_count = 19,
      next_attempt_at = 0, claimed_by = None, claim_until = None, last_error = None, dead_at = None\<rparr>) ''down''
      (sample_system sample_board) = (s', Some ''down'') \<and> sys_db s' = sample_board \<and> dead_count (sys_relay s') = 1"
proof -
  let ?it = "claimed_item marshal \<lparr>sequence_no = 1, ob_event_id = [], ob_project = 1, aggregate_id = 1,
      aggregate_version = 1, ob_event_type = [], payload = JNull, ob_occurred_at = 0, published_at = None, attempt_count = 19,
      next_attempt_at = 0, claimed_by = None, claim_until = None, last_error = None, dead_at = None\<rparr>"
  obtain s' err where run: "relay_fail sample_item_env ?it ''down'' (sample_system sample_board) = (s', err)" by (rule prod.exhaust)
  have "pg_text ''down''" by (simp add: pg_text_def no_nul_def utf8_ok_ascii)
  from relay_fail_effect [OF run _ this] run show ?thesis
    by (auto simp: sample_item_env_def sample_system_def sample_board_def sample_config_def claimed_item_def)
qed

end
