(* ===== verification/Replies.thy ===== *)
theory Replies
  imports Api_Laws
begin

text \<open>
  The types of what the API answers: every endpoint replies with JSON, and a client that decodes the
  body finds an object with an error message or the members, of the types, that the endpoint promises.
\<close>

section \<open>Types of JSON values\<close>

fun is_text :: "json \<Rightarrow> bool" where
  "is_text (JStr s) = utf8_ok s"
| "is_text v = False"

fun is_moment :: "json \<Rightarrow> bool" where
  "is_moment (JStr s) = (parse_time s \<noteq> None)"
| "is_moment v = False"

fun is_integer :: "json \<Rightarrow> bool" where
  "is_integer (JNum s) = (parse_int64 s \<noteq> None)"
| "is_integer v = False"

fun is_status :: "json \<Rightarrow> bool" where
  "is_status (JStr s) = valid_status s"
| "is_status v = False"

text \<open>Members in order, each with its name and type, and whether it may be missing.\<close>

fun members_typed :: "(string \<times> bool \<times> (json \<Rightarrow> bool)) list \<Rightarrow> (string \<times> json) list \<Rightarrow> bool" where
  "members_typed [] ms = (ms = [])"
| "members_typed ((k, opt, p) # fs) [] = (opt \<and> members_typed fs [])"
| "members_typed ((k, opt, p) # fs) ((k', v) # ms) =
     (if k' = k then p v \<and> members_typed fs ms else opt \<and> members_typed fs ((k', v) # ms))"

fun object_of :: "(string \<times> bool \<times> (json \<Rightarrow> bool)) list \<Rightarrow> json \<Rightarrow> bool" where
  "object_of fs (JObj ms) = members_typed fs ms"
| "object_of fs v = False"

fun array_of :: "(json \<Rightarrow> bool) \<Rightarrow> json \<Rightarrow> bool" where
  "array_of p (JArr vs) = list_all p vs"
| "array_of p v = False"

definition error_type :: "json \<Rightarrow> bool" where
  "error_type = object_of [(''error'', False, is_text)]"

definition user_type :: "json \<Rightarrow> bool" where
  "user_type = object_of
     [(''id'', False, is_integer), (''name'', False, is_text), (''email'', False, is_text), (''created_at'', False, is_moment)]"

definition project_type :: "json \<Rightarrow> bool" where
  "project_type = object_of
     [(''id'', False, is_integer), (''name'', False, is_text), (''description'', False, is_text),
      (''created_at'', False, is_moment), (''task_count'', False, is_integer)]"

definition task_type :: "json \<Rightarrow> bool" where
  "task_type = object_of
     [(''id'', False, is_integer), (''project_id'', False, is_integer), (''assignee_id'', True, is_integer),
      (''assignee_name'', True, is_text), (''title'', False, is_text), (''description'', False, is_text),
      (''status'', False, is_status), (''version'', False, is_integer), (''created_at'', False, is_moment),
      (''updated_at'', False, is_moment)]"

definition reply_type :: "endpoint \<Rightarrow> json \<Rightarrow> bool" where
  "reply_type ep =
     (case ep of
        ListUsers \<Rightarrow> array_of user_type | CreateUser \<Rightarrow> user_type
      | ListProjects \<Rightarrow> array_of project_type | CreateProject \<Rightarrow> project_type
      | ListTasks \<Rightarrow> array_of task_type | CreateTask \<Rightarrow> task_type | UpdateTaskStatus \<Rightarrow> task_type)"

definition success_code :: "endpoint \<Rightarrow> nat" where
  "success_code ep = (if ep \<in> {CreateUser, CreateProject, CreateTask} then 201 else 200)"

section \<open>Values the handlers encode\<close>

lemma is_integer_json_int: "in_int64 i \<Longrightarrow> is_integer (json_int i)"
  by (simp add: json_int_def parse_format_int)

lemma is_moment_format: "format_time t = Some s \<Longrightarrow> is_moment (JStr s)"
  by (simp add: parse_format_time)

lemma is_text_ascii: "list_all (\<lambda>c. byte c < 128) s \<Longrightarrow> is_text (JStr s)"
  by (simp add: utf8_ok_ascii)

lemma writable_format: "writable_time t \<Longrightarrow> \<exists>s. format_time t = Some s"
  by (simp add: writable_time_def format_time_defined)

lemma user_typed:
  assumes "in_int64 (usr_id u)" "utf8_ok (usr_name u)" "utf8_ok (usr_email u)" "writable_time (usr_created u)" and "0 < n"
  shows "\<exists>v. user_json u = Some v \<and> user_type v \<and> writable n v"
proof -
  obtain s where s: "format_time (usr_created u) = Some s"
    using writable_format [OF assms(4)] by blast
  with assms is_moment_format [OF s] is_integer_json_int show ?thesis
    by (simp add: user_json_def user_type_def json_int_writable utf8_ok_ascii format_time_ascii)
qed

lemma project_typed:
  assumes "in_int64 (prj_id p)" "utf8_ok (prj_name p)" "utf8_ok (prj_description p)" "writable_time (prj_created p)"
    and "in_int64 k" and "0 < n"
  shows "\<exists>v. project_json (p, k) = Some v \<and> project_type v \<and> writable n v"
proof -
  obtain s where s: "format_time (prj_created p) = Some s"
    using writable_format [OF assms(4)] by blast
  with assms is_moment_format [OF s] is_integer_json_int show ?thesis
    by (simp add: project_json_def project_type_def json_int_writable utf8_ok_ascii format_time_ascii)
qed

lemma task_json_typed:
  assumes "task_typed t" "valid_status (status t)" "writable_time (created_at t)" "writable_time (updated_at t)" and "0 < n"
  shows "\<exists>v. task_json t = Some v \<and> task_type v \<and> writable n v"
proof -
  obtain c u where s: "format_time (created_at t) = Some c" "format_time (updated_at t) = Some u"
    using writable_format [OF assms(3)] writable_format [OF assms(4)] by blast
  then obtain ms where ms: "task_members t = Some ms" by (simp add: task_members_def)
  have "members_typed
     [(''id'', False, is_integer), (''project_id'', False, is_integer), (''assignee_id'', True, is_integer),
      (''assignee_name'', True, is_text), (''title'', False, is_text), (''description'', False, is_text),
      (''status'', False, is_status), (''version'', False, is_integer), (''created_at'', False, is_moment),
      (''updated_at'', False, is_moment)] ms"
    using assms ms s is_moment_format [OF s(1)] is_moment_format [OF s(2)] is_integer_json_int
    by (auto simp: task_members_def task_typed_def omit_nil_def omit_empty_def split: option.splits)
  then show ?thesis
    using ms task_members_writable [OF assms(1) ms, of "n - 1"] assms(5) by (simp add: task_json_def task_type_def)
qed

lemma all_json_typed:
  "\<forall>x \<in> set xs. \<exists>v. f x = Some v \<and> p v \<and> writable n v \<Longrightarrow>
    \<exists>vs. all_json f xs = Some vs \<and> list_all p vs \<and> (\<forall>v \<in> set vs. writable n v)"
  by (induction xs) auto

lemma array_typed:
  assumes "\<forall>x \<in> set xs. \<exists>v. f x = Some v \<and> p v \<and> writable (n - 1) v" and "0 < n"
  shows "\<exists>v. array_json f xs = Some v \<and> array_of p v \<and> writable n v"
  using all_json_typed [OF assms(1)] assms(2) by (auto simp: array_json_def)

section \<open>Replies\<close>

definition answers :: "nat \<Rightarrow> (json \<Rightarrow> bool) \<Rightarrow> response \<Rightarrow> bool" where
  "answers c p resp \<longleftrightarrow>
     headers (fst resp) = [(''Content-Type'', ''application/json; charset=utf-8'')]
     \<and> (\<exists>v. body (fst resp) = encode_line (Some v) \<and> writable max_nesting v
         \<and> (if code (fst resp) = c then p v else code (fst resp) \<in> {400, 404, 409, 500, 503} \<and> error_type v))"

lemma answers_error:
  "utf8_ok m \<Longrightarrow> c' \<in> {400, 404, 409, 500, 503} \<Longrightarrow> c \<in> {200, 201} \<Longrightarrow> answers c p (write_error c' m)"
  by (auto simp: answers_def write_error_def write_json_def json_reply_def max_nesting_def error_type_def utf8_ok_ascii)

lemma answers_ok:
  "\<exists>v. j = Some v \<and> p v \<and> writable max_nesting v \<Longrightarrow> answers c p (write_ok c m j)"
  by (auto simp: answers_def write_ok_def write_json_def json_reply_def)

lemma answers_path: "path_id wild = Inl r \<Longrightarrow> c \<in> {200, 201} \<Longrightarrow> answers c p r"
  by (auto simp: path_id_def utf8_ok_ascii intro!: answers_error split: option.splits if_splits)

lemma answers_input:
  assumes "decode_json e fs inpt z = Inl r" and "\<forall>err. utf8_ok (ev_explain e err)" and "c \<in> {200, 201}"
  shows "answers c p r"
proof -
  obtain err where r: "r = write_error 400 (''invalid JSON: '' @ ev_explain e err)"
    using assms(1) by (auto simp: decode_json_def split: sum.splits)
  have "utf8_ok (''invalid JSON: '' @ ev_explain e err)"
    using assms(2) by (intro utf8_ok_append) (simp_all add: utf8_ok_ascii)
  with assms(3) show ?thesis unfolding r by (intro answers_error) simp_all
qed

lemma answers_recorded:
  assumes "answers c p good" and "utf8_ok msg" and "c \<in> {200, 201}"
  shows "answers c p (snd (record_event e etype subj t msg good start work))"
  using assms answers_error [of msg 500] answers_error [of "''could not record task event''" 500]
  by (auto simp: record_event_def utf8_ok_ascii split: sum.splits prod.splits)

section \<open>Endpoints\<close>

text \<open>Every time on the board has a year of four digits.\<close>

definition times_ok :: "db \<Rightarrow> bool" where
  "times_ok d \<longleftrightarrow>
     list_all writable_time (map usr_created (users d) @ map prj_created (projects d) @ map tsk_created (tasks d)
       @ map tsk_updated (tasks d))"

lemma length_ids: "ids_ok is n \<Longrightarrow> int (length is) \<le> n"
proof -
  assume ok: "ids_ok is n"
  then have "set is \<subseteq> {1..n}" "distinct is" by (auto simp: ids_ok_def)
  then have "length is \<le> card {1..n}" using card_mono [of "{1..n}" "set is"] distinct_card [of "is"] by simp
  then show ?thesis using ok by (simp add: ids_ok_def le_nat_iff)
qed

lemma row_task_typed:
  assumes "db_ok d" and "t \<in> set (tasks d)" and "writable_time (tsk_created t)" "writable_time (tsk_updated t)" and "0 < n"
  shows "\<exists>v. task_json (joined d t) = Some v \<and> task_type v \<and> writable n v"
proof (rule task_json_typed)
  show "task_typed (joined d t)" by (rule joined_typed [OF assms(1,2)])
  show "valid_status (status (joined d t))"
    using assms(1,2) by (auto simp: db_ok_defs task_row_ok_def valid_status_known joined_def)
qed (use assms in \<open>simp_all add: joined_def\<close>)

lemma list_users_answers:
  assumes "db_ok d" and "times_ok d"
  shows "answers 200 (array_of user_type) (list_users e d)"
proof -
  have "\<forall>u \<in> set (select_users (ev_collate e) d). \<exists>v. user_json u = Some v \<and> user_type v \<and> writable (max_nesting - 1) v"
    using assms ids_ok_int64 [of "map usr_id (users d)" "users_seq d"]
    by (intro ballI user_typed) (auto simp: select_users_def db_ok_defs pg_text_def times_ok_def list_all_iff max_nesting_def)
  from answers_ok [OF array_typed [OF this]] show ?thesis
    by (auto simp: list_users_def read_rows_def max_nesting_def utf8_ok_ascii intro!: answers_error split: query_fault.splits)
qed

lemma list_projects_answers:
  assumes "db_ok d" and "times_ok d"
  shows "answers 200 (array_of project_type) (list_projects e d)"
proof -
  have "int (length (tasks d)) < 2 ^ 63"
    using assms(1) length_ids [of "map tsk_id (tasks d)" "tasks_seq d"] by (simp add: db_ok_defs ids_ok_def)
  then have "in_int64 (int (length (filter P (tasks d))))" for P
    by (simp add: in_int64_def le_less_trans [OF length_filter_le])
  then have "\<forall>x \<in> set (select_projects d). \<exists>v. project_json x = Some v \<and> project_type v \<and> writable (max_nesting - 1) v"
    using assms ids_ok_int64 [of "map prj_id (projects d)" "projects_seq d"]
    by (auto simp: select_projects_def db_ok_defs pg_text_def times_ok_def list_all_iff max_nesting_def intro!: project_typed)
  from answers_ok [OF array_typed [OF this]] show ?thesis
    by (auto simp: list_projects_def read_rows_def max_nesting_def utf8_ok_ascii intro!: answers_error split: query_fault.splits)
qed

lemma list_tasks_answers:
  assumes "db_ok d" and "times_ok d"
  shows "answers 200 (array_of task_type) (list_tasks e wild d)"
proof (cases "path_id wild")
  case (Inr pid)
  have "\<forall>t \<in> set (select_tasks pid d). \<exists>v. task_json t = Some v \<and> task_type v \<and> writable (max_nesting - 1) v"
    using assms(2) by (auto simp: select_tasks_def times_ok_def list_all_iff max_nesting_def intro!: row_task_typed [OF assms(1)])
  from answers_ok [OF array_typed [OF this]] Inr show ?thesis
    by (auto simp: list_tasks_def read_rows_def max_nesting_def utf8_ok_ascii intro!: answers_error split: query_fault.splits)
qed (simp add: list_tasks_def answers_path)

lemma create_user_answers:
  assumes "db_ok d" and "writable_time (ev_now e)" and "\<forall>err. utf8_ok (ev_explain e err)"
  shows "answers 201 user_type (snd (create_user e inpt d))"
proof (cases "decode_json e user_fields inpt \<lparr>in_name = [], in_email = []\<rparr>")
  case (Inl r)
  then show ?thesis using answers_input [OF Inl assms(3)] by (simp add: create_user_def)
next
  case (Inr inp)
  have made: "answers 201 user_type (write_ok 201 ''user created'' (user_json u))"
    if "insert_user (ev_now e) name email d = (d', Inr u)" for name email d' u
  proof -
    have "in_int64 (usr_id u)" "utf8_ok (usr_name u)" "utf8_ok (usr_email u)" "usr_created u = ev_now e"
      using that assms(1)
      by (auto simp: insert_user_def Let_def next_value_Inr pg_text_def db_ok_defs ids_ok_def in_int64_def split: if_splits sum.splits)
    with assms(2) show ?thesis by (intro answers_ok user_typed) (simp_all add: max_nesting_def)
  qed
  then show ?thesis
    by (auto simp: create_user_def Inr Let_def utf8_ok_ascii split: prod.splits sum.splits
        intro!: answers_error made dest!: run_stmt_Inr)
qed

lemma create_project_answers:
  assumes "db_ok d" and "writable_time (ev_now e)" and "\<forall>err. utf8_ok (ev_explain e err)"
  shows "answers 201 project_type (snd (create_project e inpt d))"
proof (cases "decode_json e project_fields inpt \<lparr>in_title = [], in_description = []\<rparr>")
  case (Inl r)
  then show ?thesis using answers_input [OF Inl assms(3)] by (simp add: create_project_def)
next
  case (Inr inp)
  have made: "answers 201 project_type (write_ok 201 ''project created'' (project_json (p, 0)))"
    if "insert_project (ev_now e) name desc d = (d', Inr p)" for name desc d' p
  proof -
    have "in_int64 (prj_id p)" "utf8_ok (prj_name p)" "utf8_ok (prj_description p)" "prj_created p = ev_now e"
      using that assms(1)
      by (auto simp: insert_project_def Let_def next_value_Inr pg_text_def db_ok_defs ids_ok_def in_int64_def split: if_splits sum.splits)
    with assms(2) show ?thesis by (intro answers_ok project_typed) (simp_all add: max_nesting_def in_int64_def)
  qed
  then show ?thesis
    by (auto simp: create_project_def Inr Let_def utf8_ok_ascii split: prod.splits sum.splits
        intro!: answers_error made dest!: run_stmt_Inr)
qed

lemma create_task_answers:
  assumes "db_ok d" and "writable_time (ev_now e)" and "\<forall>err. utf8_ok (ev_explain e err)"
  shows "answers 201 task_type (snd (create_task e subj wild inpt d))"
proof -
  have made: "answers 201 task_type (snd (record_event e task_created subj t ''could not commit task creation''
      (write_ok 201 ''task created'' (task_json t)) d work))"
    if ins: "insert_task (ev_now e) pid a titl desc st d = (work, Inr t)" for pid a titl desc st work t
  proof -
    let ?row = "fresh_task (ev_now e) pid a titl desc st d"
    have "t = joined work ?row" "?row \<in> set (tasks work)"
      using ins by (auto elim!: insert_task_cases intro: joined_cong)
    moreover have "db_ok work" using insert_task_ok [OF assms(1) ins] by simp
    ultimately have "\<exists>v. task_json t = Some v \<and> task_type v \<and> writable max_nesting v"
      using row_task_typed [of work ?row max_nesting] assms(2) by (simp add: fresh_task_def max_nesting_def)
    then show ?thesis by (intro answers_recorded answers_ok) (simp_all add: utf8_ok_ascii)
  qed
  show ?thesis
    using answers_path [of wild _ 201 task_type] answers_input [of e task_input_fields inpt _ _ 201 task_type] assms(3)
    by (auto simp: create_task_def Let_def utf8_ok_ascii split: prod.splits sum.splits
        intro!: answers_error made dest!: run_stmt_Inr)
qed

lemma update_task_status_answers:
  assumes "db_ok d" and "times_ok d" and "writable_time (ev_now e)" and "\<forall>err. utf8_ok (ev_explain e err)"
  shows "answers 200 task_type (snd (update_task_status e subj wild inpt d))"
proof -
  have made: "answers 200 task_type (snd (record_event e task_status_changed subj t ''could not commit task status change''
      (write_ok 200 ''task status changed'' (task_json t)) d work))"
    if ch: "update_status (ev_now e) st tid d = (work, Inr (Some t))" for st tid work t
  proof -
    obtain r where r: "r \<in> set (tasks d)" "tsk_id r = tid" "t = joined d (bump (ev_now e) st r)"
      "work = d\<lparr>tasks := map (\<lambda>t. if tsk_id t = tid then bump (ev_now e) st t else t) (tasks d)\<rparr>"
      using ch by (auto elim!: update_status_cases)
    then have "t = joined work (bump (ev_now e) st r)" "bump (ev_now e) st r \<in> set (tasks work)"
      by (auto intro: joined_cong)
    moreover have "db_ok work" using update_status_ok [OF assms(1) ch] by simp
    moreover have "writable_time (tsk_created r)" using assms(2) r(1) by (simp add: times_ok_def list_all_iff)
    ultimately have "\<exists>v. task_json t = Some v \<and> task_type v \<and> writable max_nesting v"
      using row_task_typed [of work "bump (ev_now e) st r" max_nesting] assms(3) by (simp add: bump_def max_nesting_def)
    then show ?thesis by (intro answers_recorded answers_ok) (simp_all add: utf8_ok_ascii)
  qed
  show ?thesis
    using answers_path [of wild _ 200 task_type] answers_input [of e status_fields inpt _ _ 200 task_type] assms(4)
    by (auto simp: update_task_status_def Let_def utf8_ok_ascii split: prod.splits sum.splits option.splits
        intro!: answers_error made dest!: run_stmt_Inr)
qed

lemma run_endpoint_answers:
  assumes "db_ok d" and "times_ok d" and "writable_time (ev_now e)" and "\<forall>err. utf8_ok (ev_explain e err)"
  shows "answers (success_code ep) (reply_type ep) (snd (run_endpoint e subj ep wild inpt d))"
  using assms
  by (cases ep)
    (simp_all add: run_endpoint_def success_code_def reply_type_def list_users_answers list_projects_answers
      list_tasks_answers create_user_answers create_project_answers create_task_answers update_task_status_answers)

lemma decode_first_line:
  assumes "writable max_nesting v"
  shows "decode_first (encode_line (Some v)) = Some v"
proof -
  have "number_end [CHR 0x0A]" by (simp add: number_end_def is_digit_def byte_in_def)
  with assms
  have "parse_value (Suc (2 * length (marshal v @ [CHR 0x0A]))) max_nesting (marshal v @ [CHR 0x0A]) = Some (v, [CHR 0x0A])"
    by (rule parse_marshal) simp
  then show ?thesis unfolding decode_first_def parse_first_def encode_line_def option.case by simp
qed

section \<open>Property\<close>

text \<open>C14. The API keeps the types it promises: on a sound board whose times have years of four digits,
  whatever the request and whatever fails, the reply of an endpoint is declared to be JSON and its body
  decodes; with the success code of the endpoint it is a value of the type of the endpoint (an array of users, of
  projects or of tasks, or one of them, each with exactly its members, integers of 64 bits, times
  that can be read back and one of the three statuses), and with any other code, which is 400, 404, 409,
  500 or 503, an object with an error message.\<close>

theorem api_replies_typed:
  assumes "board_ok d" and "times_ok d" and "writable_time (ev_now e)" and "\<forall>err. utf8_ok (ev_explain e err)"
    and "run_endpoint e subj ep wild inpt d = (d', reply, logs)"
  shows "headers reply = [(''Content-Type'', ''application/json; charset=utf-8'')]
    \<and> (\<exists>v. decode_first (body reply) = Some v
        \<and> (if code reply = success_code ep then reply_type ep v
           else code reply \<in> {400, 404, 409, 500, 503} \<and> error_type v))"
proof -
  have "db_ok d" using assms(1) by (simp add: board_ok_def)
  from run_endpoint_answers [OF this assms(2-4), of ep subj wild inpt] decode_first_line
  show ?thesis by (auto simp: assms(5) answers_def)
qed

theorem api_replies_typed_witness:
  "\<exists>d' reply logs v. run_endpoint sample_env ''s'' UpdateTaskStatus [''1''] (marshal (JObj [(''status'', JStr ''done'')])) sample_board
    = (d', reply, logs) \<and> code reply = 200 \<and> decode_first (body reply) = Some v \<and> task_type v"
proof -
  obtain d' reply logs where run:
    "update_task_status sample_env ''s'' [''1''] (marshal (JObj [(''status'', JStr ''done'')])) sample_board = (d', reply, logs)"
    by (rule prod_cases3)
  then have made: "code reply = 200" using sample_change_runs by simp
  have ep: "run_endpoint sample_env ''s'' UpdateTaskStatus [''1''] (marshal (JObj [(''status'', JStr ''done'')])) sample_board
    = (d', reply, logs)" using run by (simp add: run_endpoint_def)
  have "times_ok sample_board" "writable_time (ev_now sample_env)" "\<forall>err. utf8_ok (ev_explain sample_env err)"
    using sample_times(1) sample_env_ready
    by (simp_all add: times_ok_def sample_board_def env_ready_def) (simp add: sample_env_def utf8_ok_ascii)
  from api_replies_typed [OF sample_board_ok this ep] ep made show ?thesis
    by (auto simp: success_code_def reply_type_def)
qed

end
