(* ===== verification/Realtime.thy ===== *)
theory Realtime
  imports Auth Http
begin

text \<open>
  \<open>internal/realtime/hub.go\<close>: the WebSocket hub. A connection has a reader (\<open>ServeHTTP\<close>) and a writer
  (\<open>writeLoop\<close>) that share a queue of at most 64 payloads; \<open>Broadcast\<close> runs beside them. Clients live
  in a store under their address, as the pointers of the code do, and the hub keeps the list of the
  registered addresses. The verifier, what the connection reads and whether a write or a ping
  succeeds are arguments. What the library does by itself to the connection is left out.
\<close>

section \<open>Clients and the hub\<close>

definition maximum_message_size :: nat where "maximum_message_size = 64 * 1024"
definition queue_size :: nat where "queue_size = 64"

text \<open>Where the reader of a connection is: before the first message, with an answer to put into the
  queue, waiting for the next message, or gone.\<close>

datatype stage = Unused | Opening | Answering "json option" | Serving | Closed

record client =
  stage_of :: stage
  send :: "string list"
  written :: "string list"            \<comment> \<open>what the connection has taken\<close>
  canceled :: bool
  principal_of_client :: principal
  subscriptions :: "int64 set"
  expires_unix :: int64
  close_reason :: "string option"

definition zero_principal :: principal where
  "zero_principal = \<lparr>subject = [], username = [], roles = [], expires_at = zero_time\<rparr>"

definition unused_client :: client where
  "unused_client =
     \<lparr>stage_of = Unused, send = [], written = [], canceled = False, principal_of_client = zero_principal,
      subscriptions = {}, expires_unix = 0, close_reason = None\<rparr>"

record client_message =
  cm_type :: string
  access_token :: string
  cm_project :: int64

definition no_message :: client_message where
  "no_message = \<lparr>cm_type = [], access_token = [], cm_project = 0\<rparr>"

definition client_message_fields :: "client_message fields" where
  "client_message_fields =
     [(''type'', field as_string cm_type_update), (''access_token'', field as_string access_token_update),
      (''project_id'', field as_int64 cm_project_update)]"

record 's hub =
  hub_verifier :: 's
  registered :: "nat list"
  store :: "nat \<Rightarrow> client"
  connections :: int
  auth_allowed :: nat
  auth_denied :: nat
  deliveries :: nat
  dropped :: nat
  consumed :: nat
  hub_log :: "log list"

definition new_hub :: "'s \<Rightarrow> 's hub" where
  "new_hub v =
     \<lparr>hub_verifier = v, registered = [], store = (\<lambda>i. unused_client), connections = 0, auth_allowed = 0,
      auth_denied = 0, deliveries = 0, dropped = 0, consumed = 0, hub_log = []\<rparr>"

definition update_client :: "nat \<Rightarrow> (client \<Rightarrow> client) \<Rightarrow> 's hub \<Rightarrow> 's hub" where
  "update_client i f h = h\<lparr>store := (store h)(i := f (store h i))\<rparr>"

definition hub_line :: "level \<Rightarrow> string \<Rightarrow> 's hub \<Rightarrow> 's hub" where
  "hub_line l msg h = h\<lparr>hub_log := hub_log h @ [(l, msg)]\<rparr>"

definition client_count :: "'s hub \<Rightarrow> nat" where
  "client_count h = length (registered h)"

section \<open>Operations of the hub\<close>

definition cancel :: "nat \<Rightarrow> 's hub \<Rightarrow> 's hub" where
  "cancel i = update_client i (\<lambda>c. c\<lparr>canceled := True\<rparr>)"

definition close_connection :: "string \<Rightarrow> nat \<Rightarrow> 's hub \<Rightarrow> 's hub" where
  "close_connection reason i =
     update_client i (\<lambda>c. c\<lparr>close_reason := (case close_reason c of None \<Rightarrow> Some reason | Some r \<Rightarrow> Some r)\<rparr>)"

definition add_client :: "nat \<Rightarrow> 's hub \<Rightarrow> 's hub" where
  "add_client i h = h\<lparr>registered := List.insert i (registered h), connections := connections h + 1\<rparr>"

definition remove_client :: "nat \<Rightarrow> 's hub \<Rightarrow> 's hub" where
  "remove_client i h =
     (if i \<in> set (registered h)
      then hub_line Info ''WebSocket disconnected''
        (h\<lparr>registered := filter (\<lambda>j. j \<noteq> i) (registered h), connections := connections h - 1\<rparr>)
      else h)"

definition subscribe :: "nat \<Rightarrow> int64 \<Rightarrow> 's hub \<Rightarrow> 's hub" where
  "subscribe i pid h =
     hub_line Info ''WebSocket project subscribed'' (update_client i (\<lambda>c. c\<lparr>subscriptions := {pid}\<rparr>) h)"

definition unsubscribe :: "nat \<Rightarrow> int64 \<Rightarrow> 's hub \<Rightarrow> 's hub" where
  "unsubscribe i pid = update_client i (\<lambda>c. c\<lparr>subscriptions := subscriptions c - {pid}\<rparr>)"

text \<open>A send that does not block: into the queue if it has room.\<close>

definition enqueue :: "nat \<Rightarrow> string \<Rightarrow> 's hub \<Rightarrow> ('s hub) option" where
  "enqueue i p h =
     (if length (send (store h i)) < queue_size then Some (update_client i (\<lambda>c. c\<lparr>send := send c @ [p]\<rparr>) h)
      else None)"

definition send_json :: "nat \<Rightarrow> json option \<Rightarrow> 's hub \<Rightarrow> 's hub" where
  "send_json i v h =
     (case v of
        None \<Rightarrow> h
      | Some j \<Rightarrow> (case enqueue i (marshal j) h of Some h' \<Rightarrow> h' | None \<Rightarrow> cancel i h))"

definition authenticate :: "('e, 's) verify_fun \<Rightarrow> 'e \<Rightarrow> nat \<Rightarrow> string \<Rightarrow> 's hub \<Rightarrow> 's hub \<times> bool" where
  "authenticate ver ve i token h =
     (case ver ve (''Bearer '' @ token) (hub_verifier h) of
        (v, verdict) \<Rightarrow>
          let h = h\<lparr>hub_verifier := v\<rparr>;
              denied = (hub_line Warn ''WebSocket authentication denied'' (h\<lparr>auth_denied := auth_denied h + 1\<rparr>), False) in
          (case verdict of
             Inl err \<Rightarrow> denied
           | Inr p \<Rightarrow>
               if \<not> has_role p ''noapp-viewer'' then denied
               else (hub_line Info ''WebSocket authenticated''
                       ((update_client i (\<lambda>c. c\<lparr>principal_of_client := p, expires_unix := unix_seconds (expires_at p)\<rparr>) h)
                         \<lparr>auth_allowed := auth_allowed h + 1\<rparr>), True)))"

text \<open>The loop over the clients of a broadcast, and then the loop over the dropped ones. Go ranges over the
  map of the clients in no fixed order; here it is the order of registration.\<close>

fun offer :: "int64 \<Rightarrow> string \<Rightarrow> nat list \<Rightarrow> 's hub \<Rightarrow> 's hub \<times> nat \<times> nat list" where
  "offer pid p [] h = (h, 0, [])"
| "offer pid p (i # is) h =
     (if pid \<notin> subscriptions (store h i) then offer pid p is h
      else case enqueue i p h of
          Some h' \<Rightarrow> (case offer pid p is h' of (h'', n, drops) \<Rightarrow> (h'', Suc n, drops))
        | None \<Rightarrow> (case offer pid p is h of (h'', n, drops) \<Rightarrow> (h'', n, i # drops)))"

fun drop_clients :: "nat list \<Rightarrow> 's hub \<Rightarrow> 's hub" where
  "drop_clients [] h = h"
| "drop_clients (i # is) h =
     drop_clients is (cancel i (hub_line Warn ''dropping slow WebSocket client'' (h\<lparr>dropped := dropped h + 1\<rparr>)))"

definition broadcast :: "envelope \<Rightarrow> string \<Rightarrow> 's hub \<Rightarrow> 's hub" where
  "broadcast ev p h =
     (case offer (event_project ev) p (registered h) (h\<lparr>consumed := consumed h + 1\<rparr>) of
        (h', n, drops) \<Rightarrow>
          hub_line Info ''board event broadcast'' (drop_clients drops (h'\<lparr>deliveries := deliveries h' + n\<rparr>)))"

section \<open>The reader of a connection\<close>

text \<open>What a read of the connection comes to: an error or a text frame.\<close>

datatype frame = Broken string | Frame string

definition read_message :: "client \<Rightarrow> frame \<Rightarrow> string + client_message" where
  "read_message c f =
     (case f of
        Broken err \<Rightarrow> Inl err
      | Frame s \<Rightarrow>
          if canceled c then Inl ''context canceled''
          else if maximum_message_size < length s then Inl ''read limited''
          else case unmarshal s of
              None \<Rightarrow> Inl ''failed to unmarshal JSON''
            | Some v \<Rightarrow>
                (case decode_struct False client_message_fields v no_message of
                   Inl e \<Rightarrow> Inl ''failed to unmarshal JSON''
                 | Inr m \<Rightarrow> Inr m))"

datatype outcome = Answer "json option" | Continue | Return

definition set_stage :: "nat \<Rightarrow> stage \<Rightarrow> 's hub \<Rightarrow> 's hub" where
  "set_stage i st = update_client i (\<lambda>c. c\<lparr>stage_of := st\<rparr>)"

text \<open>The deferred part of \<open>ServeHTTP\<close>.\<close>

definition finish :: "nat \<Rightarrow> 's hub \<Rightarrow> 's hub" where
  "finish i h = set_stage i Closed (remove_client i (cancel i h))"

definition accept :: "nat \<Rightarrow> 's hub \<Rightarrow> 's hub" where
  "accept i = update_client i (\<lambda>c. unused_client\<lparr>stage_of := Opening\<rparr>)"

definition until_json :: "principal \<Rightarrow> json option" where
  "until_json p = map_option JStr (format_time (expires_at p))"

text \<open>The keys of a Go map are encoded in order.\<close>

definition ready_json :: "principal \<Rightarrow> json option" where
  "ready_json p =
     map_option (\<lambda>t. JObj [(''authenticated_until'', t), (''subject'', JStr (subject p)), (''type'', JStr ''ready'')])
       (until_json p)"

definition authenticated_json :: "principal \<Rightarrow> json option" where
  "authenticated_json p =
     map_option (\<lambda>t. JObj [(''authenticated_until'', t), (''type'', JStr ''authenticated'')]) (until_json p)"

definition error_json :: "string \<Rightarrow> json option" where
  "error_json msg = Some (JObj [(''error'', JStr msg), (''type'', JStr ''error'')])"

definition subscribed_json :: "int64 \<Rightarrow> json option" where
  "subscribed_json pid = Some (JObj [(''project_id'', json_int pid), (''type'', JStr ''subscribed'')])"

definition first_message ::
    "('e, 's) verify_fun \<Rightarrow> 'e \<Rightarrow> nat \<Rightarrow> string + client_message \<Rightarrow> 's hub \<Rightarrow> 's hub \<times> outcome" where
  "first_message ver ve i m h =
     (let refuse = (\<lambda>h. (close_connection ''authentication required'' i h, Return)) in
      case m of
        Inl err \<Rightarrow> refuse h
      | Inr msg \<Rightarrow>
          if cm_type msg \<noteq> ''authenticate'' then refuse h
          else (case authenticate ver ve i (access_token msg) h of
                  (h', False) \<Rightarrow> refuse h'
                | (h', True) \<Rightarrow> (add_client i h', Answer (ready_json (principal_of_client (store h' i))))))"

definition next_message ::
    "('e, 's) verify_fun \<Rightarrow> 'e \<Rightarrow> nat \<Rightarrow> string + client_message \<Rightarrow> 's hub \<Rightarrow> 's hub \<times> outcome" where
  "next_message ver ve i m h =
     (case m of
        Inl err \<Rightarrow> (h, Return)
      | Inr msg \<Rightarrow>
          if cm_type msg = ''authenticate'' then
            (case authenticate ver ve i (access_token msg) h of
               (h', False) \<Rightarrow> (close_connection ''authentication failed'' i h', Return)
             | (h', True) \<Rightarrow> (h', Answer (authenticated_json (principal_of_client (store h' i)))))
          else if cm_type msg = ''subscribe'' then
            (if cm_project msg < 1 then (h, Answer (error_json ''a valid project_id is required''))
             else (subscribe i (cm_project msg) h, Answer (subscribed_json (cm_project msg))))
          else if cm_type msg = ''unsubscribe'' then (unsubscribe i (cm_project msg) h, Continue)
          else (h, Answer (error_json ''unsupported message type'')))"

definition proceed :: "nat \<Rightarrow> 's hub \<times> outcome \<Rightarrow> 's hub" where
  "proceed i r =
     (case r of
        (h, Answer v) \<Rightarrow> set_stage i (Answering v) h
      | (h, Continue) \<Rightarrow> set_stage i Serving h
      | (h, Return) \<Rightarrow> finish i h)"

text \<open>One step of \<open>ServeHTTP\<close>; between a change of the hub and the answer to it others may run.\<close>

definition reader_step :: "('e, 's) verify_fun \<Rightarrow> 'e \<Rightarrow> nat \<Rightarrow> frame \<Rightarrow> 's hub \<Rightarrow> 's hub" where
  "reader_step ver ve i f h =
     (case stage_of (store h i) of
        Opening \<Rightarrow> proceed i (first_message ver ve i (read_message (store h i) f) h)
      | Serving \<Rightarrow> proceed i (next_message ver ve i (read_message (store h i) f) h)
      | Answering v \<Rightarrow> set_stage i Serving (send_json i v h)
      | _ \<Rightarrow> h)"

section \<open>The writer of a connection\<close>

datatype writer_event =
  Write "string option"               \<comment> \<open>the next payload, and the error of the write\<close>
| Tick instant "string option"        \<comment> \<open>a tick of the ping timer, and the error of the ping\<close>

text \<open>One turn of \<open>writeLoop\<close>. Once the context is done, the \<open>select\<close> of the loop may still pick a waiting
  payload or tick, but a write or a ping under a done context fails and the loop ends; the model ends
  it at once.\<close>

definition writer_step :: "nat \<Rightarrow> writer_event \<Rightarrow> 's hub \<Rightarrow> 's hub" where
  "writer_step i e h =
     (let c = store h i in
      if canceled c \<or> stage_of c = Unused then h
      else case e of
          Write res \<Rightarrow>
            (case send c of
               [] \<Rightarrow> h
             | p # ps \<Rightarrow>
                 (case res of
                    Some err \<Rightarrow> cancel i (update_client i (\<lambda>c. c\<lparr>send := ps\<rparr>) h)
                  | None \<Rightarrow> update_client i (\<lambda>c. c\<lparr>send := ps, written := written c @ [p]\<rparr>) h))
        | Tick now res \<Rightarrow>
            if 0 < expires_unix c \<and> expires_unix c \<le> unix_seconds now
            then cancel i (close_connection ''access token expired'' i h)
            else (case res of Some err \<Rightarrow> cancel i h | None \<Rightarrow> h))"

end
