(* ===== verification/Realtime_Laws.thy ===== *)
theory Realtime_Laws
  imports Realtime
begin

text \<open>
  The hub under any interleaving of connections, readers, writers and broadcasts: its invariant, what
  one broadcast does to every client, the order in which a client sees payloads, and how slow,
  canceled and expired connections end. The lemmas about authentication use the verifier only
  through the interface \<^theory_text>\<open>authenticator\<close>.
\<close>

section \<open>What the operations change\<close>

lemma update_client_simps [simp]:
  "store (update_client i f h) j = (if j = i then f (store h i) else store h j)"
  "registered (update_client i f h) = registered h" "connections (update_client i f h) = connections h"
  "hub_verifier (update_client i f h) = hub_verifier h" "deliveries (update_client i f h) = deliveries h"
  "dropped (update_client i f h) = dropped h" "consumed (update_client i f h) = consumed h"
  "hub_log (update_client i f h) = hub_log h" "auth_allowed (update_client i f h) = auth_allowed h"
  by (simp_all add: update_client_def)

lemma hub_line_simps [simp]:
  "store (hub_line l msg h) = store h" "registered (hub_line l msg h) = registered h"
  "connections (hub_line l msg h) = connections h" "hub_verifier (hub_line l msg h) = hub_verifier h"
  "deliveries (hub_line l msg h) = deliveries h" "dropped (hub_line l msg h) = dropped h"
  "consumed (hub_line l msg h) = consumed h"
  by (simp_all add: hub_line_def)

lemma cancel_simps [simp]:
  "store (cancel i h) j = (if j = i then (store h i)\<lparr>canceled := True\<rparr> else store h j)"
  "registered (cancel i h) = registered h" "connections (cancel i h) = connections h"
  "deliveries (cancel i h) = deliveries h" "dropped (cancel i h) = dropped h" "consumed (cancel i h) = consumed h"
  by (simp_all add: cancel_def)

definition has_room :: "client \<Rightarrow> bool" where
  "has_room c \<longleftrightarrow> length (send c) < queue_size"

definition push :: "string \<Rightarrow> client \<Rightarrow> client" where
  "push p c = c\<lparr>send := send c @ [p]\<rparr>"

lemma enqueue_cases: "enqueue i p h = (if has_room (store h i) then Some (update_client i (push p) h) else None)"
  by (simp add: enqueue_def has_room_def push_def update_client_def)

lemma offer_effect:
  assumes "distinct is"
  shows "offer pid p is h =
    (h\<lparr>store := (\<lambda>j. if j \<in> set is \<and> pid \<in> subscriptions (store h j) \<and> has_room (store h j)
         then push p (store h j) else store h j)\<rparr>,
     length (filter (\<lambda>i. pid \<in> subscriptions (store h i) \<and> has_room (store h i)) is),
     filter (\<lambda>i. pid \<in> subscriptions (store h i) \<and> \<not> has_room (store h i)) is)"
  using assms
proof (induction "is" arbitrary: h)
  case (Cons i "is")
  let ?takes = "\<lambda>h j. pid \<in> subscriptions (store h j) \<and> has_room (store h j)"
  show ?case
  proof (cases "?takes h i")
    case True
    let ?h = "update_client i (push p) h"
    have new: "i \<notin> set is" using Cons.prems by simp
    have "filter (?takes ?h) is = filter (?takes h) is"
      "filter (\<lambda>i. pid \<in> subscriptions (store ?h i) \<and> \<not> has_room (store ?h i)) is =
       filter (\<lambda>i. pid \<in> subscriptions (store h i) \<and> \<not> has_room (store h i)) is"
      by (intro filter_cong refl, use new in auto)+
    moreover have "(\<lambda>j. if j \<in> set is \<and> ?takes ?h j then push p (store ?h j) else store ?h j) =
      (\<lambda>j. if j \<in> set (i # is) \<and> ?takes h j then push p (store h j) else store h j)"
      using True new by (auto simp: fun_eq_iff)
    ultimately show ?thesis
      using Cons True by (simp add: enqueue_cases) (simp add: update_client_def)
  next
    case False
    have "(\<lambda>j. if j \<in> set is \<and> ?takes h j then push p (store h j) else store h j) =
      (\<lambda>j. if j \<in> set (i # is) \<and> ?takes h j then push p (store h j) else store h j)"
      using False by (auto simp: fun_eq_iff)
    then show ?thesis using Cons False by (auto simp: enqueue_cases)
  qed
qed simp

lemma drop_clients_simps [simp]:
  "store (drop_clients is h) j = (if j \<in> set is then (store h j)\<lparr>canceled := True\<rparr> else store h j)"
  "registered (drop_clients is h) = registered h" "connections (drop_clients is h) = connections h"
  "deliveries (drop_clients is h) = deliveries h" "dropped (drop_clients is h) = dropped h + length is"
  "consumed (drop_clients is h) = consumed h"
  by (induction "is" arbitrary: h) auto

text \<open>One broadcast, client by client.\<close>

definition receives :: "envelope \<Rightarrow> 's hub \<Rightarrow> nat \<Rightarrow> bool" where
  "receives ev h i \<longleftrightarrow> i \<in> set (registered h) \<and> event_project ev \<in> subscriptions (store h i)"

lemma broadcast_store:
  assumes "distinct (registered h)"
  shows "store (broadcast ev p h) i =
    (if receives ev h i
     then if has_room (store h i) then push p (store h i) else (store h i)\<lparr>canceled := True\<rparr>
     else store h i)"
  by (simp add: broadcast_def offer_effect [OF assms] receives_def)

lemma broadcast_counts:
  assumes "distinct (registered h)"
  shows "registered (broadcast ev p h) = registered h" "connections (broadcast ev p h) = connections h"
    "deliveries (broadcast ev p h) =
      deliveries h + length (filter (\<lambda>i. receives ev h i \<and> has_room (store h i)) (registered h))"
    "dropped (broadcast ev p h) =
      dropped h + length (filter (\<lambda>i. receives ev h i \<and> \<not> has_room (store h i)) (registered h))"
    "consumed (broadcast ev p h) = consumed h + 1"
proof -
  have "filter (\<lambda>i. receives ev h i \<and> Q i) (registered h) =
      filter (\<lambda>i. event_project ev \<in> subscriptions (store h i) \<and> Q i) (registered h)" for Q
    by (rule filter_cong) (auto simp: receives_def)
  then show "registered (broadcast ev p h) = registered h" "connections (broadcast ev p h) = connections h"
    "deliveries (broadcast ev p h) =
      deliveries h + length (filter (\<lambda>i. receives ev h i \<and> has_room (store h i)) (registered h))"
    "dropped (broadcast ev p h) =
      dropped h + length (filter (\<lambda>i. receives ev h i \<and> \<not> has_room (store h i)) (registered h))"
    "consumed (broadcast ev p h) = consumed h + 1"
    by (simp_all add: broadcast_def offer_effect [OF assms])
qed

section \<open>The step relation\<close>

inductive hub_step :: "('e, 's) verify_fun \<Rightarrow> 's hub \<Rightarrow> 's hub \<Rightarrow> bool" for ver where
  accepts: "stage_of (store h i) = Unused \<Longrightarrow> hub_step ver h (accept i h)"
| reads: "hub_step ver h (reader_step ver ve i f h)"
| writes: "hub_step ver h (writer_step i e h)"
| broadcasts: "hub_step ver h (broadcast ev p h)"

abbreviation hub_runs :: "('e, 's) verify_fun \<Rightarrow> 's hub \<Rightarrow> 's hub \<Rightarrow> bool" where
  "hub_runs ver \<equiv> (hub_step ver)\<^sup>*\<^sup>*"

definition one_project :: "int64 set \<Rightarrow> bool" where
  "one_project S \<longleftrightarrow> (\<exists>pid. S \<subseteq> {pid}) \<and> (\<forall>pid \<in> S. 1 \<le> pid)"

lemma one_project_simps [simp]:
  "one_project {}" "one_project {pid} \<longleftrightarrow> 1 \<le> pid" "one_project S \<Longrightarrow> one_project (S - T)"
  by (auto simp: one_project_def)

text \<open>The life of a client: what holds of it in each stage, registered or not.\<close>

definition client_ok :: "bool \<Rightarrow> client \<Rightarrow> bool" where
  "client_ok reg c \<longleftrightarrow>
     length (send c) \<le> queue_size \<and> one_project (subscriptions c)
     \<and> (case stage_of c of
          Unused \<Rightarrow> \<not> reg \<and> send c = [] \<and> written c = [] \<and> subscriptions c = {}
        | Opening \<Rightarrow> \<not> reg \<and> send c = [] \<and> written c = [] \<and> subscriptions c = {}
        | Answering v \<Rightarrow> reg \<and> has_role (principal_of_client c) ''noapp-viewer''
        | Serving \<Rightarrow> reg \<and> has_role (principal_of_client c) ''noapp-viewer''
        | Closed \<Rightarrow> \<not> reg \<and> canceled c)"

definition hub_ok :: "'s hub \<Rightarrow> bool" where
  "hub_ok h \<longleftrightarrow>
     distinct (registered h) \<and> connections h = int (client_count h)
     \<and> (\<forall>i. client_ok (i \<in> set (registered h)) (store h i))"

lemma new_hub_ok: "hub_ok (new_hub v)"
  by (simp add: hub_ok_def new_hub_def client_count_def client_ok_def unused_client_def)

lemma hub_okD: "hub_ok h \<Longrightarrow> client_ok (i \<in> set (registered h)) (store h i)"
  by (simp add: hub_ok_def)

lemma hub_ok_update:
  assumes "hub_ok h" and "client_ok (i \<in> set (registered h)) (f (store h i))"
  shows "hub_ok (update_client i f h)"
  using assms by (simp add: hub_ok_def client_count_def)

lemma hub_ok_line [simp]: "hub_ok (hub_line l msg h) = hub_ok h"
  by (simp add: hub_ok_def client_count_def)

lemma cancel_ok: "hub_ok h \<Longrightarrow> hub_ok (cancel i h)"
  unfolding cancel_def by (rule hub_ok_update) (auto simp: hub_ok_def client_ok_def split: stage.splits dest: spec [of _ i])

lemma remove_client_simps [simp]:
  "store (remove_client i h) = store h" "set (registered (remove_client i h)) = set (registered h) - {i}"
  by (auto simp: remove_client_def)

lemma finish_ok: "hub_ok h \<Longrightarrow> hub_ok (finish i h)"
proof -
  assume h: "hub_ok h"
  let ?h = "remove_client i (cancel i h)"
  have "distinct (registered ?h) \<and> connections ?h = int (client_count ?h)"
  proof (cases "i \<in> set (registered h)")
    case True
    then obtain n where n: "length (registered h) = Suc n" by (cases "registered h") auto
    have "filter (\<lambda>j. j \<noteq> i) (registered h) = remove1 i (registered h)"
      using h by (simp add: hub_ok_def distinct_remove1_removeAll removeAll_filter_not_eq) (metis (no_types, lifting) filter_cong)
    then have "length (filter (\<lambda>j. j \<noteq> i) (registered h)) = length (registered h) - 1"
      using True by (simp add: length_remove1)
    then show ?thesis using h True n by (simp add: hub_ok_def remove_client_def client_count_def)
  qed (use h in \<open>simp add: hub_ok_def remove_client_def client_count_def\<close>)
  moreover have "client_ok (j \<in> set (registered (finish i h))) (store (finish i h) j)" for j
    using hub_okD [OF h, of j] by (auto simp: finish_def set_stage_def client_ok_def split: stage.splits)
  ultimately show "hub_ok (finish i h)"
    by (simp add: hub_ok_def finish_def set_stage_def client_count_def)
qed

lemma close_connection_ok: "hub_ok h \<Longrightarrow> hub_ok (close_connection reason i h)"
  unfolding close_connection_def by (rule hub_ok_update) (auto simp: hub_ok_def client_ok_def split: stage.splits dest: spec [of _ i])

lemma send_json_ok: "hub_ok h \<Longrightarrow> stage_of (store h i) \<in> {Answering v, Serving} \<Longrightarrow> hub_ok (send_json i w h)"
  using hub_okD [of h i] cancel_ok
  by (auto simp: send_json_def enqueue_cases has_room_def push_def client_ok_def intro!: hub_ok_update split: option.split)

lemma authenticate_cases:
  assumes "authenticate ver ve i token h = (h', b)"
  obtains (denied) "\<not> b" "store h' = store h" "registered h' = registered h" "connections h' = connections h"
      "auth_allowed h' = auth_allowed h" "auth_denied h' = auth_denied h + 1"
  | (allowed) p where "b" "ver ve (''Bearer '' @ token) (hub_verifier h) = (hub_verifier h', Inr p)" "has_role p ''noapp-viewer''"
      "store h' = (store h)(i := (store h i)\<lparr>principal_of_client := p, expires_unix := unix_seconds (expires_at p)\<rparr>)"
      "registered h' = registered h" "connections h' = connections h"
proof -
  obtain v verdict where v: "ver ve (''Bearer '' @ token) (hub_verifier h) = (v, verdict)" by (rule prod.exhaust)
  show thesis
  proof (cases "\<exists>p. verdict = Inr p \<and> has_role p ''noapp-viewer''")
    case True
    then obtain p where "verdict = Inr p" "has_role p ''noapp-viewer''" by blast
    with assms v show thesis by (intro allowed [of p]) (auto simp: authenticate_def update_client_def hub_line_def Let_def)
  next
    case False
    with assms v show thesis
      by (intro denied) (auto simp: authenticate_def hub_line_def Let_def split: sum.splits if_splits)
  qed
qed

lemma authenticate_ok:
  assumes "hub_ok h" and "authenticate ver ve i token h = (h', b)"
  shows "hub_ok h'"
  using assms(2)
proof (cases rule: authenticate_cases)
  case denied
  then show ?thesis using assms(1) by (simp add: hub_ok_def client_count_def)
next
  case (allowed p)
  then have "hub_ok h' = hub_ok (update_client i (\<lambda>c. c\<lparr>principal_of_client := p, expires_unix := unix_seconds (expires_at p)\<rparr>) h)"
    by (simp add: hub_ok_def client_count_def update_client_def)
  moreover have "hub_ok (update_client i (\<lambda>c. c\<lparr>principal_of_client := p, expires_unix := unix_seconds (expires_at p)\<rparr>) h)"
    using hub_okD [OF assms(1), of i] allowed(3)
    by (intro hub_ok_update [OF assms(1)]) (auto simp: client_ok_def split: stage.splits)
  ultimately show ?thesis by simp
qed

lemma first_message_ok:
  assumes "hub_ok h" and "stage_of (store h i) = Opening"
  shows "hub_ok (proceed i (first_message ver ve i m h))"
proof -
  have refuse: "hub_ok (proceed i (close_connection r i h', Return))" if "hub_ok h'" for r h'
    using finish_ok [OF close_connection_ok [OF that]] by (simp add: proceed_def)
  show ?thesis
  proof (cases "\<exists>msg. m = Inr msg \<and> cm_type msg = ''authenticate''")
    case False
    then show ?thesis using refuse [OF assms(1)] by (auto simp: first_message_def Let_def split: sum.splits)
  next
    case True
    then obtain msg where msg: "m = Inr msg" "cm_type msg = ''authenticate''" by blast
    obtain h' b where a: "authenticate ver ve i (access_token msg) h = (h', b)" by (rule prod.exhaust)
    have h': "hub_ok h'" by (rule authenticate_ok [OF assms(1) a])
    show ?thesis
      using a
    proof (cases rule: authenticate_cases)
      case denied
      then show ?thesis using refuse [OF h'] a msg by (simp add: first_message_def Let_def)
    next
      case (allowed p)
      let ?v = "ready_json (principal_of_client (store h' i))"
      have out: "i \<notin> set (registered h')" using hub_okD [OF h', of i] allowed(4) assms(2) by (simp add: client_ok_def)
      have "client_ok True (store h' i\<lparr>stage_of := Answering ?v\<rparr>)"
        using hub_okD [OF h', of i] allowed(3,4) assms(2) by (auto simp: client_ok_def)
      then have "hub_ok (set_stage i (Answering ?v) (add_client i h'))"
        using h' out by (auto simp: hub_ok_def set_stage_def add_client_def client_count_def List.insert_def)
      then show ?thesis using a msg allowed(1) by (simp add: first_message_def Let_def proceed_def)
    qed
  qed
qed

lemma next_message_ok:
  assumes "hub_ok h" and "stage_of (store h i) = Serving"
  shows "hub_ok (proceed i (next_message ver ve i m h))"
proof -
  have stay: "hub_ok (set_stage i st h')" if "hub_ok h'" "stage_of (store h' i) = Serving" "st = Serving \<or> (\<exists>v. st = Answering v)" for st h'
    using that hub_okD [OF that(1), of i] unfolding set_stage_def by (intro hub_ok_update) (auto simp: client_ok_def)
  have subs: "hub_ok (update_client i (\<lambda>c. c\<lparr>subscriptions := S (subscriptions c)\<rparr>) h)"
    if "one_project (S (subscriptions (store h i)))" for S
    using that assms hub_okD [OF assms(1), of i] by (intro hub_ok_update) (auto simp: client_ok_def)
  show ?thesis
  proof (cases m)
    case (Inl err)
    then show ?thesis using finish_ok [OF assms(1)] by (simp add: next_message_def proceed_def)
  next
    case (Inr msg)
    consider "cm_type msg = ''authenticate''" | "cm_type msg = ''subscribe''" | "cm_type msg = ''unsubscribe''"
      | "cm_type msg \<notin> {''authenticate'', ''subscribe'', ''unsubscribe''}" by blast
    then show ?thesis
    proof cases
      case 1
      obtain h' b where a: "authenticate ver ve i (access_token msg) h = (h', b)" by (rule prod.exhaust)
      have h': "hub_ok h'" by (rule authenticate_ok [OF assms(1) a])
      have "stage_of (store h' i) = Serving" using a assms(2) by (cases rule: authenticate_cases) auto
      then show ?thesis
        using a Inr 1 finish_ok [OF close_connection_ok [OF h']] stay [OF h']
        by (cases b) (simp_all add: next_message_def proceed_def)
    next
      case 2
      show ?thesis
      proof (cases "cm_project msg < 1")
        case True
        then show ?thesis using 2 Inr stay [OF assms] by (simp add: next_message_def proceed_def)
      next
        case False
        have "hub_ok (subscribe i (cm_project msg) h)"
          using subs [of "\<lambda>_. {cm_project msg}"] False by (auto simp: subscribe_def)
        moreover have "stage_of (store (subscribe i (cm_project msg) h) i) = Serving" using assms(2) by (simp add: subscribe_def)
        ultimately have "hub_ok (set_stage i (Answering (subscribed_json (cm_project msg))) (subscribe i (cm_project msg) h))"
          by (intro stay) blast+
        then show ?thesis using 2 Inr False by (simp add: next_message_def proceed_def)
      qed
    next
      case 3
      have "hub_ok (unsubscribe i (cm_project msg) h)"
        using subs [of "\<lambda>s. s - {cm_project msg}"] hub_okD [OF assms(1), of i] by (auto simp: unsubscribe_def client_ok_def)
      moreover have "stage_of (store (unsubscribe i (cm_project msg) h) i) = Serving" using assms(2) by (simp add: unsubscribe_def)
      ultimately have "hub_ok (set_stage i Serving (unsubscribe i (cm_project msg) h))" by (intro stay) blast+
      then show ?thesis using 3 Inr by (simp add: next_message_def proceed_def)
    next
      case 4
      then show ?thesis using Inr stay [OF assms] by (simp add: next_message_def proceed_def)
    qed
  qed
qed

lemma reader_step_ok: "hub_ok h \<Longrightarrow> hub_ok (reader_step ver ve i f h)"
proof (cases "stage_of (store h i)")
  case (Answering v)
  assume h: "hub_ok h"
  have "hub_ok (send_json i v h)" using send_json_ok [OF h] Answering by blast
  moreover have "client_ok (i \<in> set (registered (send_json i v h))) (store (send_json i v h) i\<lparr>stage_of := Serving\<rparr>)"
    using hub_okD [OF calculation, of i] Answering
    by (auto simp: client_ok_def send_json_def enqueue_cases push_def split: option.splits if_splits)
  ultimately show ?thesis using Answering by (simp add: reader_step_def set_stage_def hub_ok_update)
qed (simp_all add: reader_step_def first_message_ok next_message_ok)

lemma writer_step_ok: "hub_ok h \<Longrightarrow> hub_ok (writer_step i e h)"
proof -
  assume h: "hub_ok h"
  have queue: "hub_ok (update_client i (\<lambda>c. c\<lparr>send := ps, written := ws c\<rparr>) h)"
    "hub_ok (update_client i (\<lambda>c. c\<lparr>send := ps\<rparr>) h)"
    if "send (store h i) = p # ps" for p ps ws
    using h that hub_okD [OF h, of i] by (auto intro!: hub_ok_update simp: client_ok_def split: stage.splits)
  show ?thesis
    using h queue cancel_ok [OF h] cancel_ok [OF close_connection_ok [OF h]] cancel_ok [OF queue(2)]
    by (auto simp: writer_step_def Let_def split: writer_event.split list.split option.split)
qed

lemma broadcast_ok: "hub_ok h \<Longrightarrow> hub_ok (broadcast ev p h)"
proof -
  assume h: "hub_ok h"
  then have d: "distinct (registered h)" by (simp add: hub_ok_def)
  have "client_ok (i \<in> set (registered h)) (store (broadcast ev p h) i)" for i
    using hub_okD [OF h, of i]
    by (auto simp: broadcast_store [OF d] client_ok_def has_room_def push_def receives_def split: stage.splits)
  then show ?thesis using h by (simp add: hub_ok_def client_count_def broadcast_counts [OF d])
qed

lemma accept_ok: "hub_ok h \<Longrightarrow> stage_of (store h i) = Unused \<Longrightarrow> hub_ok (accept i h)"
  using hub_okD [of h i] unfolding accept_def by (intro hub_ok_update) (auto simp: client_ok_def unused_client_def)

lemma hub_step_ok: "hub_step ver h h' \<Longrightarrow> hub_ok h \<Longrightarrow> hub_ok h'"
  by (induction rule: hub_step.induct) (simp_all add: accept_ok reader_step_ok writer_step_ok broadcast_ok)

lemma hub_runs_ok: "hub_runs ver h h' \<Longrightarrow> hub_ok h \<Longrightarrow> hub_ok h'"
  by (induction rule: rtranclp_induct) (auto intro: hub_step_ok)

section \<open>What a client gets, in order\<close>

text \<open>The reader touches only its own client and puts at most one payload into its queue.\<close>

definition quiet :: "client \<Rightarrow> client \<Rightarrow> bool" where
  "quiet c c' \<longleftrightarrow>
     written c' = written c \<and> (send c' = send c \<or> (\<exists>p. send c' = send c @ [p])) \<and> (canceled c \<longrightarrow> canceled c')
     \<and> (stage_of c \<noteq> Unused \<longrightarrow> stage_of c' \<noteq> Unused)"

lemma authenticate_quiet:
  assumes "authenticate ver ve i token h = (h', b)"
  shows "j \<noteq> i \<Longrightarrow> store h' j = store h j" and "send (store h' i) = send (store h i)"
    and "written (store h' i) = written (store h i)" and "canceled (store h' i) = canceled (store h i)"
    and "stage_of (store h' i) = stage_of (store h i)"
  using assms by (cases rule: authenticate_cases; simp)+

lemma proceed_quiet:
  assumes "\<And>j. j \<noteq> i \<Longrightarrow> store (fst r) j = store h j" and "send (store (fst r) i) = send (store h i)"
    and "written (store (fst r) i) = written (store h i)" and "canceled (store (fst r) i) = canceled (store h i)"
  shows "(j \<noteq> i \<longrightarrow> store (proceed i r) j = store h j) \<and> quiet (store h i) (store (proceed i r) i)"
  using assms
  by (cases r; cases "snd r") (auto simp: proceed_def set_stage_def finish_def quiet_def)

lemma reader_step_quiet:
  "(j \<noteq> i \<longrightarrow> store (reader_step ver ve i f h) j = store h j) \<and> quiet (store h i) (store (reader_step ver ve i f h) i)"
proof (cases "stage_of (store h i)")
  case Opening
  let ?m = "read_message (store h i) f"
  have "\<forall>j. j \<noteq> i \<longrightarrow> store (fst (first_message ver ve i ?m h)) j = store h j"
    "send (store (fst (first_message ver ve i ?m h)) i) = send (store h i)"
    "written (store (fst (first_message ver ve i ?m h)) i) = written (store h i)"
    "canceled (store (fst (first_message ver ve i ?m h)) i) = canceled (store h i)"
    by (auto simp: first_message_def close_connection_def add_client_def Let_def authenticate_quiet
        split: sum.split prod.split bool.split)
  then show ?thesis using Opening proceed_quiet [of i "first_message ver ve i ?m h" h j] by (simp add: reader_step_def)
next
  case Serving
  let ?m = "read_message (store h i) f"
  have "\<forall>j. j \<noteq> i \<longrightarrow> store (fst (next_message ver ve i ?m h)) j = store h j"
    "send (store (fst (next_message ver ve i ?m h)) i) = send (store h i)"
    "written (store (fst (next_message ver ve i ?m h)) i) = written (store h i)"
    "canceled (store (fst (next_message ver ve i ?m h)) i) = canceled (store h i)"
    by (auto simp: next_message_def close_connection_def subscribe_def unsubscribe_def authenticate_quiet
        split: sum.split prod.split bool.split)
  then show ?thesis using Serving proceed_quiet [of i "next_message ver ve i ?m h" h j] by (simp add: reader_step_def)
next
  case (Answering v)
  then show ?thesis
    by (auto simp: reader_step_def set_stage_def send_json_def enqueue_cases quiet_def push_def split: option.split)
qed (simp_all add: reader_step_def quiet_def)

definition flows :: "client \<Rightarrow> client \<Rightarrow> bool" where
  "flows c c' \<longleftrightarrow>
     (\<exists>ps k. k \<le> length (send c @ ps) \<and> written c' = written c @ take k (send c @ ps)
        \<and> (\<not> canceled c' \<longrightarrow> send c' = drop k (send c @ ps)))
     \<and> (canceled c \<longrightarrow> canceled c' \<and> written c' = written c) \<and> (stage_of c \<noteq> Unused \<longrightarrow> stage_of c' \<noteq> Unused)"

lemma flows_trans:
  assumes "flows c d" and "flows d e"
  shows "flows c e"
proof -
  obtain ps k where c: "k \<le> length (send c @ ps)" "written d = written c @ take k (send c @ ps)"
    "\<not> canceled d \<longrightarrow> send d = drop k (send c @ ps)"
    using assms(1) by (auto simp: flows_def)
  obtain qs m where d: "m \<le> length (send d @ qs)" "written e = written d @ take m (send d @ qs)"
    "\<not> canceled e \<longrightarrow> send e = drop m (send d @ qs)"
    using assms(2) by (auto simp: flows_def)
  have "\<exists>ps k. k \<le> length (send c @ ps) \<and> written e = written c @ take k (send c @ ps)
        \<and> (\<not> canceled e \<longrightarrow> send e = drop k (send c @ ps))"
  proof (cases "canceled d")
    case True
    then have "canceled e" "written e = written d" using assms(2) by (simp_all add: flows_def)
    with c show ?thesis by (metis (no_types, lifting))
  next
    case False
    define X where "X = send c @ ps"
    note c = c [folded X_def]
    have "take k (X @ qs) = take k X" "drop k (X @ qs) = send d @ qs" using c(1,3) False by simp_all
    then have "take (k + m) (X @ qs) = take k X @ take m (send d @ qs)" "drop (k + m) (X @ qs) = drop m (send d @ qs)"
      using take_add [of k m "X @ qs"] drop_drop [of m k "X @ qs"] by (simp_all only: add.commute)
    moreover have "k + m \<le> length (X @ qs)" using c(1,3) d(1) False by simp
    ultimately show ?thesis
      using c(2) d(2,3) by (intro exI [of _ "ps @ qs"] exI [of _ "k + m"]) (simp only: X_def append_assoc simp_thms)
  qed
  then show ?thesis using assms by (auto simp: flows_def)
qed

lemma flows_refl: "flows c c"
  unfolding flows_def by (auto intro!: exI [of _ "[]"] exI [of _ 0])

lemma quiet_flows: "quiet c c' \<Longrightarrow> flows c c'"
proof -
  assume q: "quiet c c'"
  then obtain ps where "send c' = send c @ ps" by (auto simp: quiet_def)
  with q show ?thesis unfolding flows_def quiet_def by (auto intro!: exI [of _ ps] exI [of _ 0])
qed

lemma writer_step_flows: "flows (store h j) (store (writer_step i e h) j)"
proof (cases "j = i \<and> \<not> canceled (store h i)")
  case False
  then show ?thesis
    by (auto simp: writer_step_def close_connection_def Let_def flows_refl
        split: writer_event.split list.split option.split)
next
  case True
  show ?thesis
  proof (cases e)
    case (Write res)
    have "flows (store h i) (store h i\<lparr>send := ps, written := written (store h i) @ [p]\<rparr>)"
      "flows (store h i) (store h i\<lparr>send := ps, canceled := True\<rparr>)" if "send (store h i) = p # ps" for p ps
      using that True unfolding flows_def by (auto intro!: exI [of _ "[]"] exI [of _ 1])
    then show ?thesis
      using True Write by (auto simp: writer_step_def Let_def flows_refl split: list.split option.split)
  next
    case (Tick now res)
    have "flows (store h i) (store h i\<lparr>canceled := True\<rparr>)" "flows (store h i) (store h i\<lparr>close_reason := r, canceled := True\<rparr>)" for r
      using True unfolding flows_def by (auto intro!: exI [of _ "[]"] exI [of _ 0])
    then show ?thesis
      using True Tick by (auto simp: writer_step_def close_connection_def Let_def flows_refl split: option.split)
  qed
qed

lemma hub_step_flows:
  assumes "hub_step ver h h'" and "hub_ok h" and "stage_of (store h i) \<noteq> Unused"
  shows "flows (store h i) (store h' i)"
  using assms(1)
proof cases
  case (accepts j)
  then show ?thesis using assms(3) by (simp add: accept_def flows_refl split: if_splits) (metis flows_refl)
next
  case (reads ve j f)
  then show ?thesis using reader_step_quiet [of i j ver ve f h] quiet_flows flows_refl by (cases "i = j") auto
next
  case (writes j e)
  then show ?thesis using writer_step_flows by simp
next
  case (broadcasts ev p)
  have d: "distinct (registered h)" using assms(2) by (simp add: hub_ok_def)
  have "quiet (store h i) (store h' i)"
    by (auto simp: broadcasts broadcast_store [OF d] quiet_def push_def)
  then show ?thesis by (rule quiet_flows)
qed

lemma hub_runs_flows:
  assumes "hub_runs ver h h'" and "hub_ok h" and "stage_of (store h i) \<noteq> Unused"
  shows "flows (store h i) (store h' i) \<and> hub_ok h'"
  using assms(1)
proof induction
  case base
  show ?case using assms(2) flows_refl by blast
next
  case (step y z)
  have "stage_of (store y i) \<noteq> Unused" using step.IH assms(3) by (simp add: flows_def)
  with step show ?case using hub_step_flows flows_trans hub_step_ok by metis
qed

section \<open>Who is let in\<close>

context authenticator
begin

text \<open>A client enters the list of the hub, or gets another principal, only through a token the verifier
  accepts at that moment.\<close>

lemma authenticate_accepted:
  assumes "authenticate ver ve i token h = (h', True)"
  obtains p where "ver ve (''Bearer '' @ token) (hub_verifier h) = (hub_verifier h', Inr p)"
    "principal_of_client (store h' i) = p" "expires_unix (store h' i) = unix_seconds (expires_at p)"
    "has_role p ''noapp-viewer''" "unix_seconds (now_of ve) < unix_seconds (expires_at p)" "subject p \<noteq> []"
  using assms
proof (cases rule: authenticate_cases)
  case (allowed p)
  with that [of p] not_expired [OF allowed(2)] has_subject [OF allowed(2)] show thesis by simp
qed simp

lemma joins_accepted:
  assumes "hub_step ver h h'" and "hub_ok h" and "i \<notin> set (registered h)" and "i \<in> set (registered h')"
  obtains ve token p where "fst (ver ve (''Bearer '' @ token) (hub_verifier h)) = hub_verifier h'"
    "snd (ver ve (''Bearer '' @ token) (hub_verifier h)) = Inr p"
    "principal_of_client (store h' i) = p" "expires_unix (store h' i) = unix_seconds (expires_at p)"
    "has_role p ''noapp-viewer''" "unix_seconds (now_of ve) < unix_seconds (expires_at p)" "subject p \<noteq> []"
  using assms(1)
proof cases
  case (accepts j)
  then show thesis using assms(3,4) by (simp add: accept_def)
next
  case (writes j e)
  then have "registered h' = registered h"
    by (simp add: writer_step_def close_connection_def Let_def split: writer_event.split list.split option.split)
  with assms(3,4) show thesis by simp
next
  case (broadcasts ev p)
  have "distinct (registered h)" using assms(2) by (simp add: hub_ok_def)
  then have "registered h' = registered h" using broadcasts broadcast_counts(1) by blast
  with assms(3,4) show thesis by simp
next
  case (reads ve j f)
  have kept: "registered h'' = registered h" if "authenticate ver ve j token h = (h'', b)" for h'' token b
    using that by (cases rule: authenticate_cases) simp_all
  have "stage_of (store h j) = Opening \<and> (\<exists>msg h''. read_message (store h j) f = Inr msg
      \<and> authenticate ver ve j (access_token msg) h = (h'', True) \<and> i = j
      \<and> h' = set_stage j (Answering (ready_json (principal_of_client (store h'' j)))) (add_client j h''))"
  proof (cases "stage_of (store h j)")
    case Opening
    then show ?thesis
      using reads assms(3,4) kept
      by (auto simp: reader_step_def first_message_def proceed_def finish_def set_stage_def close_connection_def Let_def
          add_client_def split: sum.splits if_splits prod.splits bool.splits)
  next
    case Serving
    then show ?thesis
      using reads assms(3,4) kept
      by (auto simp: reader_step_def next_message_def proceed_def finish_def set_stage_def close_connection_def
          subscribe_def unsubscribe_def split: sum.splits if_splits prod.splits bool.splits)
  qed (use reads assms(3,4) in \<open>auto simp: reader_step_def set_stage_def send_json_def enqueue_cases split: option.splits if_splits\<close>)
  then obtain msg :: client_message and h'' where a: "authenticate ver ve j (access_token msg) h = (h'', True)" "i = j"
    and h': "h' = set_stage j (Answering (ready_json (principal_of_client (store h'' j)))) (add_client j h'')"
    by blast
  from a(1) show thesis
    by (rule authenticate_accepted) (rule that [of ve "access_token msg"], simp_all add: a(2) h' set_stage_def add_client_def)
qed

end

end
