(* ===== verification/Gateway.thy ===== *)
theory Gateway
  imports Realtime_Laws Outbox
begin

text \<open>
  \<open>cmd/realtime/main.go\<close>: the consumer that turns Kafka records into broadcasts, and the server around
  the hub. A poll yields records and fetch errors; the records are processed in order and then their
  offsets are committed. A restart begins at the committed offsets with an empty hub.
\<close>

section \<open>Consuming\<close>

record kafka_record =
  kr_partition :: int
  kr_offset :: nat
  kr_value :: string

definition process_record :: "kafka_record \<Rightarrow> 's hub \<Rightarrow> 's hub" where
  "process_record r h =
     (case decode_event (kr_value r) of
        Inl err \<Rightarrow> hub_line Error ''invalid board event skipped'' h
      | Inr ev \<Rightarrow> broadcast ev (kr_value r) h)"

text \<open>\<open>CommitRecords\<close> stores, for every partition among the records, the offset after the last one.\<close>

definition commit_records :: "kafka_record list \<Rightarrow> (int \<Rightarrow> nat) \<Rightarrow> int \<Rightarrow> nat" where
  "commit_records rs offs q =
     (let os = map kr_offset (filter (\<lambda>r. kr_partition r = q) rs)
      in if os = [] then offs q else Suc (fold max os 0))"

record poll =
  fetch_errors :: "string list"
  fetched :: "kafka_record list"
  commit_fault :: fault

record 's consumer =
  committed :: "int \<Rightarrow> nat"
  hub_of :: "'s hub"

text \<open>What the body of the loop does after a poll, action by action in the order of the code: it logs the
  fetch errors, processes the records and, when there are any, commits them.\<close>

datatype consumer_action = FetchFailed string | Process kafka_record | Commit "kafka_record list" fault

fun act :: "consumer_action \<Rightarrow> 's consumer \<Rightarrow> 's consumer" where
  "act (FetchFailed err) s = s\<lparr>hub_of := hub_line Error ''Kafka fetch failed'' (hub_of s)\<rparr>"
| "act (Process r) s = s\<lparr>hub_of := process_record r (hub_of s)\<rparr>"
| "act (Commit rs f) s =
     (case f of
        NoFault \<Rightarrow> s\<lparr>committed := commit_records rs (committed s)\<rparr>
      | Lost err \<Rightarrow> s\<lparr>hub_of := hub_line Error ''Kafka offset commit failed'' (hub_of s)\<rparr>
      | LostAfter err \<Rightarrow>
          s\<lparr>hub_of := hub_line Error ''Kafka offset commit failed'' (hub_of s),
            committed := commit_records rs (committed s)\<rparr>)"

definition poll_actions :: "poll \<Rightarrow> consumer_action list" where
  "poll_actions p =
     map FetchFailed (fetch_errors p) @ map Process (fetched p)
       @ (if fetched p = [] then [] else [Commit (fetched p) (commit_fault p)])"

definition consume_poll :: "poll \<Rightarrow> 's consumer \<Rightarrow> 's consumer" where
  "consume_poll p s = fold act (poll_actions p) s"

text \<open>\<open>consume\<close>: polls until the context is done.\<close>

fun consume :: "poll list \<Rightarrow> 's consumer \<Rightarrow> 's consumer" where
  "consume [] s = s"
| "consume (p # ps) s = consume ps (consume_poll p s)"

section \<open>The server\<close>

datatype realtime_route = SocketRoute | RealtimeHealth

definition realtime_mux :: "realtime_route mux" where
  "realtime_mux = [(''GET /api/realtime'', SocketRoute), (''GET /api/realtime/health'', RealtimeHealth)]"

definition realtime_health :: "string option \<Rightarrow> 's hub \<Rightarrow> reply" where
  "realtime_health ping h =
     (let connections = (''connections'', json_int (int (client_count h))) in
      case ping of
        None \<Rightarrow> json_reply ''application/json'' 200 (Some (JObj [connections, (''status'', JStr ''ok'')]))
      | Some err \<Rightarrow>
          json_reply ''application/json'' 503
            (Some (JObj [connections, (''kafka'', JStr err), (''status'', JStr ''degraded'')])))"

text \<open>What a request comes to: a reply, or the upgrade of the connection.\<close>

definition realtime_serve :: "string option \<Rightarrow> request \<Rightarrow> 's hub \<Rightarrow> reply option" where
  "realtime_serve ping r h =
     (case mux_find realtime_mux (req_method r) (req_path r) of
        Handler s SocketRoute wild \<Rightarrow> None
      | Handler s RealtimeHealth wild \<Rightarrow> Some (realtime_health ping h)
      | Moved s \<Rightarrow> Some moved_reply
      | NotAllowed ms \<Rightarrow> Some (not_allowed_reply ms)
      | NotFound \<Rightarrow> Some not_found_reply)"

section \<open>The gateway and its topic\<close>

text \<open>
  The partitions of the topic, where the consumer reads next, the records that the polls of its present
  life have returned, the actions of the present poll that are still to be done, and the former lives:
  the hub each ended with and the records it had processed. The process may die between any two actions,
  and connections come and go at any time.
\<close>

record 's gateway =
  log_of :: "int \<Rightarrow> string list"
  position :: "int \<Rightarrow> nat"
  returned :: "kafka_record list"
  todo :: "consumer_action list"
  consumer_of :: "'s consumer"
  past_lives :: "('s hub \<times> kafka_record list) list"

text \<open>A fetch yields of every partition the next values in order, from the position on.\<close>

definition fetch_ok :: "(int \<Rightarrow> string list) \<Rightarrow> (int \<Rightarrow> nat) \<Rightarrow> kafka_record list \<Rightarrow> bool" where
  "fetch_ok log pos rs \<longleftrightarrow>
     (\<forall>q. let own = filter (\<lambda>r. kr_partition r = q) rs in
        map kr_offset own = [pos q..<pos q + length own] \<and> pos q + length own \<le> length (log q)
        \<and> (\<forall>r \<in> set own. kr_value r = log q ! kr_offset r))"

definition advance :: "kafka_record list \<Rightarrow> (int \<Rightarrow> nat) \<Rightarrow> int \<Rightarrow> nat" where
  "advance rs pos q = pos q + length (filter (\<lambda>r. kr_partition r = q) rs)"

text \<open>The records that the code has still to process, and those it is through with.\<close>

fun to_process :: "consumer_action list \<Rightarrow> kafka_record list" where
  "to_process [] = []"
| "to_process (Process r # as) = r # to_process as"
| "to_process (a # as) = to_process as"

definition through :: "'s gateway \<Rightarrow> kafka_record list" where
  "through g = take (length (returned g) - length (to_process (todo g))) (returned g)"

text \<open>The steps of connections alone: unlike \<open>hub_step\<close>, without broadcasts, which only the consumer makes.\<close>

inductive client_step :: "('e, 's) verify_fun \<Rightarrow> 's hub \<Rightarrow> 's hub \<Rightarrow> bool" for ver where
  opens: "stage_of (store h i) = Unused \<Longrightarrow> client_step ver h (accept i h)"
| hears: "client_step ver h (reader_step ver ve i f h)"
| sends_on: "client_step ver h (writer_step i e h)"

inductive gateway_step :: "('e, 's) verify_fun \<Rightarrow> 's gateway \<Rightarrow> 's gateway \<Rightarrow> bool" for ver where
  appends: "gateway_step ver g (g\<lparr>log_of := (log_of g)(q := log_of g q @ [v])\<rparr>)"
| polls: "todo g = [] \<Longrightarrow> fetch_ok (log_of g) (position g) (fetched p) \<Longrightarrow>
    gateway_step ver g (g\<lparr>position := advance (fetched p) (position g), returned := returned g @ fetched p,
      todo := poll_actions p\<rparr>)"
| acts: "todo g = a # as \<Longrightarrow> gateway_step ver g (g\<lparr>todo := as, consumer_of := act a (consumer_of g)\<rparr>)"
| connects: "client_step ver (hub_of (consumer_of g)) h \<Longrightarrow>
    gateway_step ver g (g\<lparr>consumer_of := (consumer_of g)\<lparr>hub_of := h\<rparr>\<rparr>)"
| dies: "gateway_step ver g (g\<lparr>position := committed (consumer_of g), returned := [], todo := [],
      consumer_of := (consumer_of g)\<lparr>hub_of := new_hub v\<rparr>,
      past_lives := past_lives g @ [(hub_of (consumer_of g), through g)]\<rparr>)"

abbreviation gateway_runs :: "('e, 's) verify_fun \<Rightarrow> 's gateway \<Rightarrow> 's gateway \<Rightarrow> bool" where
  "gateway_runs ver \<equiv> (gateway_step ver)\<^sup>*\<^sup>*"

definition new_gateway :: "'s \<Rightarrow> 's gateway" where
  "new_gateway v =
     \<lparr>log_of = (\<lambda>q. []), position = (\<lambda>q. 0), returned = [], todo = [],
      consumer_of = \<lparr>committed = (\<lambda>q. 0), hub_of = new_hub v\<rparr>, past_lives = []\<rparr>"

definition lives :: "'s gateway \<Rightarrow> ('s hub \<times> kafka_record list) list" where
  "lives g = past_lives g @ [(hub_of (consumer_of g), through g)]"

text \<open>A poll without interruption is a run of these steps.\<close>

lemma acts_all:
  "gateway_runs ver g (g\<lparr>todo := [], consumer_of := fold act (todo g) (consumer_of g)\<rparr>)"
proof (induction "todo g" arbitrary: g)
  case Nil
  have "g = g\<lparr>todo := [], consumer_of := fold act (todo g) (consumer_of g)\<rparr>" using Nil [symmetric] by simp
  then show ?case by (metis rtranclp.rtrancl_refl)
next
  case (Cons a as)
  let ?g = "g\<lparr>todo := as, consumer_of := act a (consumer_of g)\<rparr>"
  have "gateway_step ver g ?g" by (rule acts) (simp add: Cons.hyps(2) [symmetric])
  moreover have "gateway_runs ver ?g (?g\<lparr>todo := [], consumer_of := fold act (todo ?g) (consumer_of ?g)\<rparr>)"
    by (rule Cons.hyps(1)) simp
  ultimately show ?case using Cons.hyps(2) [symmetric] by (simp add: converse_rtranclp_into_rtranclp)
qed

lemma consume_poll_runs:
  assumes "todo g = []" and "fetch_ok (log_of g) (position g) (fetched p)"
  shows "gateway_runs ver g (g\<lparr>position := advance (fetched p) (position g), returned := returned g @ fetched p,
    consumer_of := consume_poll p (consumer_of g)\<rparr>)"
proof -
  let ?g = "g\<lparr>position := advance (fetched p) (position g), returned := returned g @ fetched p, todo := poll_actions p\<rparr>"
  have "gateway_step ver g ?g" by (rule polls [OF assms])
  moreover have "?g\<lparr>todo := [], consumer_of := fold act (todo ?g) (consumer_of ?g)\<rparr> =
      g\<lparr>position := advance (fetched p) (position g), returned := returned g @ fetched p, consumer_of := consume_poll p (consumer_of g)\<rparr>"
    using assms(1) by (simp add: consume_poll_def)
  ultimately show ?thesis using acts_all [of ver ?g] by (simp add: converse_rtranclp_into_rtranclp)
qed

end
