(* ===== verification/Gateway_Laws.thy ===== *)
theory Gateway_Laws
  imports Gateway
begin

text \<open>
  What the consumer has really done shows in its hub: one log line for each record and, for each event, a
  count. The invariant of the reachable gateways says that this evidence agrees, life by life, with the
  records the consumer is through with, and that every committed offset is among them.
\<close>

section \<open>The evidence in the hub\<close>

definition decodable :: "kafka_record \<Rightarrow> bool" where
  "decodable r \<longleftrightarrow> (\<exists>ev. decode_event (kr_value r) = Inr ev)"

definition record_line :: "kafka_record \<Rightarrow> log" where
  "record_line r = (if decodable r then (Info, ''board event broadcast'') else (Error, ''invalid board event skipped''))"

definition record_trace :: "'s hub \<Rightarrow> log list" where
  "record_trace h =
     filter (\<lambda>l. l \<in> {(Info, ''board event broadcast''), (Error, ''invalid board event skipped'')}) (hub_log h)"

definition evidence :: "'s hub \<Rightarrow> log list \<times> nat" where
  "evidence h = (record_trace h, consumed h)"

definition agrees :: "'s hub \<Rightarrow> kafka_record list \<Rightarrow> bool" where
  "agrees h rs \<longleftrightarrow> evidence h = (map record_line rs, length (filter decodable rs))"

lemma evidence_line:
  "evidence (hub_line l msg h) =
     (if (l, msg) \<in> {(Info, ''board event broadcast''), (Error, ''invalid board event skipped'')}
      then (record_trace h @ [(l, msg)], consumed h) else evidence h)"
  by (simp add: evidence_def record_trace_def hub_line_def)

lemma evidence_fields [simp]:
  "evidence (h\<lparr>registered := xs, connections := n\<rparr>) = evidence h" "evidence (h\<lparr>hub_verifier := v\<rparr>) = evidence h"
  "evidence (h\<lparr>auth_denied := k\<rparr>) = evidence h" "evidence (h\<lparr>auth_allowed := k\<rparr>) = evidence h"
  "evidence (h\<lparr>deliveries := k\<rparr>) = evidence h" "evidence (h\<lparr>dropped := k\<rparr>) = evidence h"
  by (simp_all add: evidence_def record_trace_def)

lemma evidence_update [simp]: "evidence (update_client i f h) = evidence h"
  by (simp add: update_client_def evidence_def record_trace_def)

lemma evidence_quiet [simp]:
  "evidence (cancel i h) = evidence h" "evidence (close_connection reason i h) = evidence h"
  "evidence (set_stage i st h) = evidence h" "evidence (accept i h) = evidence h"
  "evidence (remove_client i h) = evidence h" "evidence (add_client i h) = evidence h"
  "evidence (subscribe i pid h) = evidence h" "evidence (unsubscribe i pid h) = evidence h"
  by (simp_all add: cancel_def close_connection_def set_stage_def accept_def remove_client_def add_client_def
      subscribe_def unsubscribe_def evidence_line)

lemma evidence_finish [simp]: "evidence (finish i h) = evidence h"
  by (simp add: finish_def)

lemma evidence_send_json [simp]: "evidence (send_json i v h) = evidence h"
  by (simp add: send_json_def enqueue_def split: option.split)

lemma evidence_authenticate: "authenticate ver ve i token h = (h', b) \<Longrightarrow> evidence h' = evidence h"
  by (auto simp: authenticate_def Let_def evidence_line split: prod.splits sum.splits if_splits)

lemma evidence_proceed [simp]: "evidence (proceed i r) = evidence (fst r)"
  by (cases r) (simp add: proceed_def split: outcome.split)

lemma evidence_messages [simp]:
  "evidence (fst (first_message ver ve i m h)) = evidence h" "evidence (fst (next_message ver ve i m h)) = evidence h"
  using evidence_authenticate [of ver ve i _ h]
  by (auto simp: first_message_def next_message_def Let_def split: sum.split prod.split bool.split)

lemma client_step_evidence: "client_step ver h h' \<Longrightarrow> evidence h' = evidence h"
  by (induction rule: client_step.induct)
    (simp_all add: reader_step_def writer_step_def Let_def split: stage.split writer_event.split list.split option.split)

lemma client_step_hub: "client_step ver h h' \<Longrightarrow> hub_step ver h h'"
  by (induction rule: client_step.induct) (auto intro: hub_step.intros)

lemma evidence_offer: "evidence (fst (offer pid p is h)) = evidence h"
  by (induction pid p "is" h rule: offer.induct) (auto simp: enqueue_def split: option.splits prod.splits)

lemma evidence_drop: "evidence (drop_clients is h) = evidence h"
  by (induction "is" h rule: drop_clients.induct) (simp_all add: evidence_line)

lemma evidence_broadcast:
  "evidence (broadcast ev p h) = (record_trace h @ [(Info, ''board event broadcast'')], consumed h + 1)"
proof -
  obtain h' n drops where off: "offer (event_project ev) p (registered h) (h\<lparr>consumed := consumed h + 1\<rparr>) = (h', n, drops)"
    by (rule prod_cases3)
  have "evidence h' = (record_trace h, consumed h + 1)"
    using evidence_offer [of "event_project ev" p "registered h" "h\<lparr>consumed := consumed h + 1\<rparr>"]
    unfolding off fst_conv by (simp add: evidence_def record_trace_def)
  then have "evidence (drop_clients drops (h'\<lparr>deliveries := deliveries h' + n\<rparr>)) = (record_trace h, consumed h + 1)"
    by (simp add: evidence_drop)
  then show ?thesis unfolding broadcast_def off prod.case evidence_line by (simp add: evidence_def)
qed

text \<open>Processing a record leaves exactly its own evidence.\<close>

lemma agrees_process: "agrees h rs \<Longrightarrow> agrees (process_record r h) (rs @ [r])"
  by (auto simp: agrees_def process_record_def record_line_def decodable_def evidence_line evidence_broadcast split: sum.split)
    (simp_all add: evidence_def)

lemma agrees_quiet: "evidence h' = evidence h \<Longrightarrow> agrees h' rs = agrees h rs"
  by (simp add: agrees_def)

lemma agrees_new [simp]: "agrees (new_hub v) []"
  by (simp add: agrees_def evidence_def record_trace_def new_hub_def)

section \<open>The invariant\<close>

definition stored :: "(int \<Rightarrow> string list) \<Rightarrow> int \<Rightarrow> nat \<Rightarrow> kafka_record \<Rightarrow> bool" where
  "stored log q k r \<longleftrightarrow> kr_partition r = q \<and> kr_offset r = k \<and> kr_value r = log q ! k"

text \<open>What is left of a poll: its last record is committed only after the first ones have been processed.\<close>

definition todo_ok :: "'s gateway \<Rightarrow> bool" where
  "todo_ok g \<longleftrightarrow>
     (\<exists>fs ps cs ks. todo g = map FetchFailed fs @ map Process ps @ cs \<and> returned g = ks @ ps
        \<and> (cs = [] \<or> (\<exists>rs f. cs = [Commit rs f] \<and> (\<forall>r \<in> set rs. kr_offset r < position g (kr_partition r)))))"

definition gateway_ok :: "'s gateway \<Rightarrow> bool" where
  "gateway_ok g \<longleftrightarrow>
     todo_ok g
     \<and> (\<forall>q. committed (consumer_of g) q \<le> position g q \<and> position g q \<le> length (log_of g q))
     \<and> (\<forall>q k. k < position g q \<longrightarrow>
          (\<exists>rs \<in> insert (returned g) (snd ` set (past_lives g)). \<exists>r \<in> set rs. stored (log_of g) q k r))
     \<and> (\<forall>q k. k < committed (consumer_of g) q \<longrightarrow>
          (\<exists>rs \<in> snd ` set (lives g). \<exists>r \<in> set rs. stored (log_of g) q k r))
     \<and> (\<forall>l \<in> set (lives g). agrees (fst l) (snd l))
     \<and> hub_ok (hub_of (consumer_of g))"

lemma to_process_append [simp]: "to_process (as @ bs) = to_process as @ to_process bs"
  by (induction as rule: to_process.induct) simp_all

lemma to_process_failed [simp]: "to_process (map FetchFailed fs) = []"
  by (induction fs) simp_all

lemma to_process_records [simp]: "to_process (map Process ps) = ps"
  by (induction ps) simp_all

lemma through_rest: "returned g = ks @ to_process (todo g) \<Longrightarrow> through g = ks"
  by (simp add: through_def)

lemma through_idle [simp]: "todo g = [] \<Longrightarrow> through g = returned g"
  by (simp add: through_def)

lemma commit_below:
  assumes "\<forall>r \<in> set rs. kr_offset r < pos (kr_partition r)" and "offs q \<le> pos q"
  shows "commit_records rs offs q \<le> pos q"
proof -
  let ?os = "map kr_offset (filter (\<lambda>r. kr_partition r = q) rs)"
  have "\<forall>k \<in> set ?os. k < pos q" using assms(1) by auto
  moreover have "fold max ?os 0 \<in> insert 0 (set ?os)" unfolding Max.set_eq_fold [symmetric] using Max_in [of "insert 0 (set ?os)"] by simp
  ultimately show ?thesis using assms(2) by (cases "?os") (auto simp: commit_records_def Let_def)
qed

lemma fetched_below:
  assumes "fetch_ok log pos rs" and "r \<in> set rs"
  shows "kr_offset r < advance rs pos (kr_partition r)" "kr_value r = log (kr_partition r) ! kr_offset r"
proof -
  let ?own = "filter (\<lambda>s. kr_partition s = kr_partition r) rs"
  have own: "map kr_offset ?own = [pos (kr_partition r)..<pos (kr_partition r) + length ?own]"
    "\<forall>s \<in> set ?own. kr_value s = log (kr_partition r) ! kr_offset s"
    using assms(1) by (simp_all add: fetch_ok_def Let_def)
  have "kr_offset r \<in> set (map kr_offset ?own)" using assms(2) by auto
  then show "kr_offset r < advance rs pos (kr_partition r)" unfolding own(1) by (simp add: advance_def)
  show "kr_value r = log (kr_partition r) ! kr_offset r" using own(2) assms(2) by simp
qed

lemma fetched_covers:
  assumes "fetch_ok log pos rs" and "pos q \<le> k" and "k < advance rs pos q"
  shows "\<exists>r \<in> set rs. stored log q k r"
proof -
  let ?own = "filter (\<lambda>r. kr_partition r = q) rs"
  have "k \<in> set (map kr_offset ?own)" using assms by (simp add: fetch_ok_def advance_def Let_def)
  then obtain r where "r \<in> set rs" "kr_partition r = q" "kr_offset r = k" by auto
  with fetched_below(2) [OF assms(1)] show ?thesis by (auto simp: stored_def)
qed

lemma process_record_ok: "hub_ok h \<Longrightarrow> hub_ok (process_record r h)"
  by (simp add: process_record_def broadcast_ok split: sum.split)

lemma todo_okE:
  assumes "todo_ok g"
  obtains fs ps cs where "todo g = map FetchFailed fs @ map Process ps @ cs" "returned g = through g @ ps"
    "cs = [] \<or> (\<exists>rs f. cs = [Commit rs f] \<and> (\<forall>r \<in> set rs. kr_offset r < position g (kr_partition r)))"
proof -
  obtain fs ps cs ks where g: "todo g = map FetchFailed fs @ map Process ps @ cs" "returned g = ks @ ps"
    "cs = [] \<or> (\<exists>rs f. cs = [Commit rs f] \<and> (\<forall>r \<in> set rs. kr_offset r < position g (kr_partition r)))"
    using assms unfolding todo_ok_def by blast
  then have "to_process (todo g) = ps" by auto
  then have "through g = ks" using g(2) by (intro through_rest) simp
  with g that show thesis by blast
qed

lemma gateway_ok_poll:
  assumes ok: "gateway_ok g" and idle: "todo g = []" and f: "fetch_ok (log_of g) (position g) (fetched p)"
  shows "gateway_ok (g\<lparr>position := advance (fetched p) (position g), returned := returned g @ fetched p, todo := poll_actions p\<rparr>)"
    (is "gateway_ok ?g")
proof -
  have rest: "to_process (poll_actions p) = fetched p" by (simp add: poll_actions_def)
  have thr: "through ?g = through g" using idle by (simp add: through_def rest)
  then have lives: "lives ?g = lives g" by (simp add: lives_def)
  have "todo_ok ?g"
    unfolding todo_ok_def
    by (rule exI [of _ "fetch_errors p"], rule exI [of _ "fetched p"],
        rule exI [of _ "if fetched p = [] then [] else [Commit (fetched p) (commit_fault p)]"], rule exI [of _ "returned g"])
      (use fetched_below(1) [OF f] in \<open>auto simp: poll_actions_def\<close>)
  moreover have "\<exists>rs \<in> insert (returned ?g) (snd ` set (past_lives g)). \<exists>r \<in> set rs. stored (log_of g) q k r"
    if "k < advance (fetched p) (position g) q" for q k
  proof (cases "k < position g q")
    case True
    then have "\<exists>rs \<in> insert (returned g) (snd ` set (past_lives g)). \<exists>r \<in> set rs. stored (log_of g) q k r"
      using ok by (simp add: gateway_ok_def)
    then show ?thesis by auto
  next
    case False
    with fetched_covers [OF f, of q k] that show ?thesis by auto
  qed
  moreover have "committed (consumer_of g) q \<le> advance (fetched p) (position g) q
      \<and> advance (fetched p) (position g) q \<le> length (log_of g q)" for q
    using ok f by (auto simp: gateway_ok_def fetch_ok_def advance_def Let_def intro: trans_le_add1)
  ultimately show ?thesis using ok unfolding gateway_ok_def lives by simp
qed

lemma gateway_ok_act:
  assumes ok: "gateway_ok g" and todo: "todo g = a # as"
  shows "gateway_ok (g\<lparr>todo := as, consumer_of := act a (consumer_of g)\<rparr>)" (is "gateway_ok ?g")
proof -
  have tk: "todo_ok g" and agree: "agrees (hub_of (consumer_of g)) (through g)" and hub: "hub_ok (hub_of (consumer_of g))"
    using ok by (simp_all add: gateway_ok_def lives_def)
  obtain fs ps cs where g: "todo g = map FetchFailed fs @ map Process ps @ cs" "returned g = through g @ ps"
    "cs = [] \<or> (\<exists>rs f. cs = [Commit rs f] \<and> (\<forall>r \<in> set rs. kr_offset r < position g (kr_partition r)))"
    using tk by (rule todo_okE)
  have rest: "todo_ok ?g" if "as = map FetchFailed fs' @ map Process ps' @ cs'" "returned g = ks @ ps'" "cs' = [] \<or> cs' = cs" for fs' ps' cs' ks
    unfolding todo_ok_def using that g(3) by (intro exI [of _ fs'] exI [of _ ps'] exI [of _ cs'] exI [of _ ks]) auto
  have keep: "gateway_ok ?g"
    if "todo_ok ?g" "through ?g = through g @ us" "agrees (hub_of (act a (consumer_of g))) (through ?g)"
      "hub_ok (hub_of (act a (consumer_of g)))" "committed (act a (consumer_of g)) = committed (consumer_of g)" for us
  proof -
    have "\<exists>rs \<in> snd ` set (lives ?g). \<exists>r \<in> set rs. stored (log_of g) q k r" if "k < committed (consumer_of g) q" for q k
    proof -
      have "\<exists>rs \<in> snd ` set (lives g). \<exists>r \<in> set rs. stored (log_of g) q k r" using ok that by (simp add: gateway_ok_def)
      then show ?thesis using \<open>through ?g = through g @ us\<close> by (auto simp: lives_def)
    qed
    then show ?thesis using ok that by (simp add: gateway_ok_def lives_def)
  qed
  show ?thesis
  proof (cases a)
    case (FetchFailed err)
    then obtain fs' where fs: "fs = err # fs'" "as = map FetchFailed fs' @ map Process ps @ cs"
      using todo g(1,3) by (cases fs; cases ps) auto
    have "through ?g = through g" using todo FetchFailed by (simp add: through_def)
    with keep [of "[]"] rest [OF fs(2) g(2)] agree hub show ?thesis
      by (simp add: FetchFailed agrees_quiet [OF evidence_line [THEN trans]])
  next
    case (Process r)
    then obtain ps' where ps: "fs = []" "ps = r # ps'" "as = map FetchFailed [] @ map Process ps' @ cs"
      using todo g(1,3) by (cases fs; cases ps) auto
    have ret: "returned g = (through g @ [r]) @ ps'" using g(2) ps(2) by simp
    have "to_process as = ps'" using ps(3) g(3) by auto
    then have "through ?g = through g @ [r]" using ret by (intro through_rest) simp
    with keep [of "[r]"] rest [OF ps(3) ret] agrees_process [OF agree, of r] process_record_ok [OF hub] show ?thesis
      by (simp add: Process)
  next
    case (Commit rs f)
    then have cs: "ps = []" "cs = [Commit rs f]" "as = []" using todo g(1,3) by (cases fs; cases ps; auto)+
    have thr: "through ?g = returned g" "through g = returned g" using cs g(2) by (simp_all add: through_def)
    have com: "committed (act a (consumer_of g)) = committed (consumer_of g)
        \<or> committed (act a (consumer_of g)) = commit_records rs (committed (consumer_of g))"
      by (simp add: Commit split: fault.split)
    have below: "committed (act a (consumer_of g)) q \<le> position g q" for q
      using com commit_below [of rs "position g" "committed (consumer_of g)" q] g(3) cs(2) ok by (auto simp: gateway_ok_def)
    have "\<exists>rs \<in> snd ` set (lives ?g). \<exists>r \<in> set rs. stored (log_of g) q k r" if "k < committed (act a (consumer_of g)) q" for q k
    proof -
      have "k < position g q" using that below [of q] by simp
      then have "\<exists>rs \<in> insert (returned g) (snd ` set (past_lives g)). \<exists>r \<in> set rs. stored (log_of g) q k r"
        using ok by (simp add: gateway_ok_def)
      then show ?thesis by (auto simp: lives_def thr)
    qed
    moreover have "agrees (hub_of (act a (consumer_of g))) (returned g)" "hub_ok (hub_of (act a (consumer_of g)))"
      using agree hub thr(2) by (auto simp: Commit agrees_def evidence_line split: fault.split)
    moreover have "todo_ok ?g" using rest [of "[]" "[]" "[]" "returned g"] cs(3) by simp
    ultimately show ?thesis using ok below by (simp add: gateway_ok_def lives_def thr)
  qed
qed

lemma gateway_step_ok:
  assumes "gateway_step ver g g'" and ok: "gateway_ok g"
  shows "gateway_ok g'"
  using assms(1)
proof cases
  case (appends q v)
  have same: "stored (log_of g') p k r = stored (log_of g) p k r" if "k < position g p" for p k r
    using that ok by (auto simp: appends stored_def gateway_ok_def nth_append dest!: spec [of _ p])
  have len: "length (log_of g p) \<le> length (log_of g' p)" for p by (simp add: appends)
  have com: "committed (consumer_of g) p \<le> position g p" for p using ok by (simp add: gateway_ok_def)
  have "\<exists>rs \<in> insert (returned g) (snd ` set (past_lives g)). \<exists>r \<in> set rs. stored (log_of g') p k r" if "k < position g p" for p k
    unfolding same [OF that] using ok that by (simp add: gateway_ok_def)
  moreover have "\<exists>rs \<in> snd ` set (lives g). \<exists>r \<in> set rs. stored (log_of g') p k r" if "k < committed (consumer_of g) p" for p k
    unfolding same [OF less_le_trans [OF that com]] using ok that by (simp add: gateway_ok_def)
  moreover have "position g p \<le> length (log_of g' p)" for p
    using ok len [of p] by (auto simp: gateway_ok_def intro: le_trans)
  moreover have "through g' = through g" by (simp add: appends through_def)
  ultimately show ?thesis using ok by (simp add: gateway_ok_def lives_def todo_ok_def appends(1))
next
  case (polls p)
  then show ?thesis using gateway_ok_poll [OF ok] by simp
next
  case (acts a as)
  then show ?thesis using gateway_ok_act [OF ok] by simp
next
  case (connects h)
  have "through g' = through g" by (simp add: connects(1) through_def)
  moreover have "hub_ok h" by (rule hub_step_ok [OF client_step_hub [OF connects(2)]]) (use ok in \<open>simp add: gateway_ok_def\<close>)
  moreover have "agrees h (through g)"
    using ok agrees_quiet [OF client_step_evidence [OF connects(2)]] by (simp add: gateway_ok_def lives_def)
  ultimately show ?thesis using ok by (simp add: connects(1) gateway_ok_def lives_def todo_ok_def)
next
  case (dies v)
  have "todo_ok g'" by (simp add: dies todo_ok_def)
  moreover have "committed (consumer_of g) q \<le> length (log_of g q)" for q
    using ok by (auto simp: gateway_ok_def intro: le_trans)
  moreover have "lives g' = lives g @ [(new_hub v, [])]" by (simp add: dies lives_def through_def)
  ultimately show ?thesis using ok by (simp add: dies gateway_ok_def new_hub_ok) (simp add: lives_def)
qed

lemma new_gateway_ok: "gateway_ok (new_gateway v)"
  by (simp add: gateway_ok_def new_gateway_def new_hub_ok lives_def todo_ok_def)

lemma gateway_runs_ok:
  assumes "gateway_runs ver (new_gateway v) g"
  shows "gateway_ok g"
  using assms by induction (simp_all add: new_gateway_ok gateway_step_ok)

end
