(* ===== verification/Realtime_Properties.thy ===== *)
theory Realtime_Properties
  imports Gateway_Laws Service
begin

text \<open>
  The properties of the realtime gateway: the hub on its own, and the hub behind the consumer. The
  witnesses use a connection that authenticates with the sample token of the verifier's theory and
  subscribes to project 1.
\<close>

section \<open>A sample connection\<close>

definition ascii :: "string \<Rightarrow> bool" where
  "ascii s \<longleftrightarrow> list_all (\<lambda>c. byte c < 128) s"

lemma ascii_simps [simp]: "ascii []" "ascii (c # s) \<longleftrightarrow> byte c < 128 \<and> ascii s" "ascii (s @ t) \<longleftrightarrow> ascii s \<and> ascii t"
  by (simp_all add: ascii_def)

lemma split_octets_length: "length (split_octets xs) \<le> 2 * length xs"
  by (induction xs rule: split_octets.induct) auto

lemma raw_url_encode_ascii: "ascii (raw_url_encode s)" and raw_url_encode_length: "length (raw_url_encode s) \<le> 2 * length s"
proof -
  have "\<forall>n \<in> set (split_octets (map of_char s)). n < 64"
    by (rule split_octets_bound) (simp add: of_char_bound)
  then show "ascii (raw_url_encode s)"
    by (auto simp: raw_url_encode_def ascii_def list_all_iff of_char_sextet_char)
  show "length (raw_url_encode s) \<le> 2 * length s"
    using split_octets_length [of "map of_char s"] by (simp add: raw_url_encode_def)
qed

lemma quote_string_length: "ascii s \<Longrightarrow> length (quote_string s) \<le> 6 * length s + 2"
proof (induction s)
  case (Cons c s)
  have "length (escape_char c) \<le> 6" by (simp add: escape_char_def)
  with Cons show ?case by (simp add: quote_string_def escape_string.simps [of "c # s"])
qed (simp add: quote_string_def escape_string.simps)

definition sample_token :: string where
  "sample_token = issue_token ''k'' (claims_json sample_claims [''b'', ''a'']) ''ok''"

lemma sample_token_text: "ascii sample_token" "length sample_token \<le> 1000"
proof -
  show "ascii sample_token"
    by (simp add: sample_token_def issue_token_def signing_input_def raw_url_encode_ascii)
  have "length (marshal (header_json ''k'')) \<le> 100" "length (marshal (claims_json sample_claims [''b'', ''a''])) \<le> 200"
    unfolding sample_claims_def by code_simp+
  then show "length sample_token \<le> 1000"
    using raw_url_encode_length [of "marshal (header_json ''k'')"] raw_url_encode_length [of "''ok''"]
      raw_url_encode_length [of "marshal (claims_json sample_claims [''b'', ''a''])"]
    by (simp add: sample_token_def issue_token_def signing_input_def)
qed

definition sample_login :: json where
  "sample_login = JObj [(''type'', JStr ''authenticate''), (''access_token'', JStr sample_token)]"

definition sample_subscribe :: json where
  "sample_subscribe = JObj [(''type'', JStr ''subscribe''), (''project_id'', JNum ''1'')]"

lemma read_marshaled:
  assumes "\<not> canceled c" and "length (marshal v) \<le> maximum_message_size" and "writable max_nesting v"
    and "decode_struct False client_message_fields v no_message = Inr m"
  shows "read_message c (Frame (marshal v)) = Inr m"
  using assms by (simp add: read_message_def unmarshal_marshal)

lemma sample_login_read:
  assumes "\<not> canceled c"
  shows "read_message c (Frame (marshal sample_login)) = Inr \<lparr>cm_type = ''authenticate'', access_token = sample_token, cm_project = 0\<rparr>"
proof (rule read_marshaled [OF assms])
  have "length (quote_string ''type'') \<le> 26" "length (quote_string ''access_token'') \<le> 74" "length (quote_string ''authenticate'') \<le> 74"
    using quote_string_length [of "''type''"] quote_string_length [of "''access_token''"] quote_string_length [of "''authenticate''"]
    by simp_all
  then show "length (marshal sample_login) \<le> maximum_message_size"
    using quote_string_length [OF sample_token_text(1)] sample_token_text(2)
    by (simp add: sample_login_def maximum_message_size_def)
  show "writable max_nesting sample_login"
    using sample_token_text(1) by (simp add: sample_login_def max_nesting_def utf8_ok_ascii ascii_def)
  show "decode_struct False client_message_fields sample_login no_message
      = Inr \<lparr>cm_type = ''authenticate'', access_token = sample_token, cm_project = 0\<rparr>"
    by (simp add: decode_struct_def sample_login_def client_message_fields_def no_message_def find_field_def field_def)
qed

lemma sample_subscribe_read:
  assumes "\<not> canceled c"
  shows "read_message c (Frame (marshal sample_subscribe)) = Inr \<lparr>cm_type = ''subscribe'', access_token = [], cm_project = 1\<rparr>"
proof (rule read_marshaled [OF assms])
  have "length (marshal sample_subscribe) \<le> 100" unfolding sample_subscribe_def by code_simp
  then show "length (marshal sample_subscribe) \<le> maximum_message_size" by (simp add: maximum_message_size_def)
  have "format_int 10 1 = ''1''" by code_simp
  then have "int_literal ''1''" unfolding int_literal_def by metis
  then show "writable max_nesting sample_subscribe" by (simp add: sample_subscribe_def max_nesting_def utf8_ok_ascii)
  have "parse_int64 ''1'' = Some 1" by code_simp
  then show "decode_struct False client_message_fields sample_subscribe no_message
      = Inr \<lparr>cm_type = ''subscribe'', access_token = [], cm_project = 1\<rparr>"
    by (simp add: decode_struct_def sample_subscribe_def client_message_fields_def no_message_def find_field_def field_def)
qed

abbreviation sample_ver :: "(clock \<times> jwks_reply, verifier) verify_fun" where
  "sample_ver \<equiv> call_verify sample_crypto"

definition sample_opened :: "verifier hub" where
  "sample_opened = accept 0 (new_hub sample_verifier)"

definition sample_joined :: "verifier hub" where
  "sample_joined = reader_step sample_ver (sample_clock, NoReply) 0 (Frame (marshal sample_login)) sample_opened"

lemma sample_joined_facts:
  "registered sample_joined = [0]" "store sample_joined 0 = unused_client
     \<lparr>stage_of := Answering (ready_json sample_principal), principal_of_client := sample_principal, expires_unix := 50\<rparr>"
  "hub_verifier sample_joined = sample_verifier"
proof -
  have login: "sample_ver (sample_clock, NoReply) (''Bearer '' @ sample_token) sample_verifier = (sample_verifier, Inr sample_principal)"
    using sample_verified [of NoReply] by (simp add: call_verify_def sample_token_def sample_authorization_def bearer_prefix_def)
  have "read_message (store sample_opened 0) (Frame (marshal sample_login))
      = Inr \<lparr>cm_type = ''authenticate'', access_token = sample_token, cm_project = 0\<rparr>"
    by (rule sample_login_read) (simp add: sample_opened_def accept_def unused_client_def)
  then show "registered sample_joined = [0]" "store sample_joined 0 = unused_client
     \<lparr>stage_of := Answering (ready_json sample_principal), principal_of_client := sample_principal, expires_unix := 50\<rparr>"
    "hub_verifier sample_joined = sample_verifier"
    unfolding sample_joined_def reader_step_def
    by (simp_all add: sample_opened_def accept_def new_hub_def first_message_def authenticate_def login [simplified] Let_def
        sample_principal_def proceed_def set_stage_def add_client_def unused_client_def unix_seconds_def duration_defs)
qed

definition sample_watching :: "verifier hub" where
  "sample_watching =
     reader_step sample_ver (sample_clock, NoReply) 0 (Frame (marshal sample_subscribe))
       (reader_step sample_ver (sample_clock, NoReply) 0 (Broken []) sample_joined)"

lemma sample_watching_facts:
  "registered sample_watching = [0]" "subscriptions (store sample_watching 0) = {1}" "length (send (store sample_watching 0)) \<le> 1"
  "\<not> canceled (store sample_watching 0)" "stage_of (store sample_watching 0) \<noteq> Unused" "expires_unix (store sample_watching 0) = 50"
proof -
  let ?h = "reader_step sample_ver (sample_clock, NoReply) 0 (Broken []) sample_joined"
  have h: "?h = set_stage 0 Serving (send_json 0 (ready_json sample_principal) sample_joined)"
    by (simp add: reader_step_def sample_joined_facts)
  have facts: "registered ?h = [0]" "stage_of (store ?h 0) = Serving" "\<not> canceled (store ?h 0)" "length (send (store ?h 0)) \<le> 1"
    "expires_unix (store ?h 0) = 50"
    unfolding h
    by (auto simp: set_stage_def send_json_def enqueue_cases has_room_def queue_size_def push_def sample_joined_facts unused_client_def
        split: option.split)
  then show "registered sample_watching = [0]" "subscriptions (store sample_watching 0) = {1}"
    "length (send (store sample_watching 0)) \<le> 1" "\<not> canceled (store sample_watching 0)"
    "stage_of (store sample_watching 0) \<noteq> Unused" "expires_unix (store sample_watching 0) = 50"
    unfolding sample_watching_def reader_step_def [of _ _ _ "Frame (marshal sample_subscribe)"]
    by (simp_all add: sample_subscribe_read next_message_def subscribe_def proceed_def set_stage_def)
qed

lemma sample_watching_run: "hub_runs sample_ver (new_hub sample_verifier) sample_watching"
proof -
  have "hub_step sample_ver (new_hub sample_verifier) sample_opened"
    unfolding sample_opened_def by (rule accepts) (simp add: new_hub_def unused_client_def)
  moreover have "hub_step sample_ver sample_opened sample_joined" unfolding sample_joined_def by (rule reads)
  ultimately show ?thesis
    unfolding sample_watching_def by (meson reads rtranclp.rtrancl_into_rtrancl rtranclp.rtrancl_refl)
qed

section \<open>Canceled connections and skipped records\<close>

lemma canceled_read_ends:
  assumes "canceled (store h i)" and "stage_of (store h i) = Serving"
  shows "i \<notin> set (registered (reader_step ver ve i f h))" and "stage_of (store (reader_step ver ve i f h) i) = Closed"
proof -
  have "\<exists>err. read_message (store h i) f = Inl err" using assms(1) by (cases f) (simp_all add: read_message_def)
  then show "i \<notin> set (registered (reader_step ver ve i f h))" "stage_of (store (reader_step ver ve i f h) i) = Closed"
    using assms(2) by (auto simp: reader_step_def next_message_def proceed_def finish_def set_stage_def)
qed

definition clients_of :: "'s hub \<Rightarrow> nat list \<times> (nat \<Rightarrow> client) \<times> int \<times> nat \<times> nat \<times> nat" where
  "clients_of h = (registered h, store h, connections h, deliveries h, dropped h, consumed h)"

lemma broadcast_clients:
  assumes "hub_ok h" and "hub_ok h'" and "clients_of h = clients_of h'"
  shows "clients_of (broadcast ev p h) = clients_of (broadcast ev p h')"
proof -
  have d: "distinct (registered h)" "distinct (registered h')" using assms by (simp_all add: hub_ok_def)
  have "receives ev h = receives ev h'" using assms(3) by (simp add: fun_eq_iff receives_def clients_of_def)
  then show ?thesis
    using assms(3) by (auto simp: clients_of_def broadcast_counts [OF d(1)] broadcast_counts [OF d(2)]
        broadcast_store [OF d(1)] broadcast_store [OF d(2)] fun_eq_iff)
qed

lemma process_record_clients:
  assumes "hub_ok h" and "hub_ok h'" and "clients_of h = clients_of h'"
  shows "clients_of (process_record r h) = clients_of (process_record r h')"
    and "\<not> decodable r \<Longrightarrow> clients_of (process_record r h) = clients_of h'"
  using assms broadcast_clients [OF assms]
  by (auto simp: process_record_def decodable_def split: sum.splits) (simp_all add: clients_of_def)

lemma process_all_clients:
  assumes "hub_ok h" and "hub_ok h'" and "clients_of h = clients_of h'"
  shows "clients_of (fold process_record rs h) = clients_of (fold process_record (filter decodable rs) h')"
  using assms
proof (induction rs arbitrary: h h')
  case (Cons r rs)
  have step: "hub_ok (process_record r h)" "hub_ok (process_record r h')" using Cons.prems process_record_ok by blast+
  show ?case
    using Cons.IH [OF step] Cons.IH [OF step(1) Cons.prems(2)] process_record_clients [OF Cons.prems, of r] Cons.prems(3)
    by (cases "decodable r") simp_all
qed simp

lemma fetch_lines_clients: "clients_of (fold (\<lambda>err. hub_line Error msg) es h) = clients_of h \<and> (hub_ok h \<longrightarrow> hub_ok (fold (\<lambda>err. hub_line Error msg) es h))"
  by (induction es arbitrary: h) (simp_all add: clients_of_def)

lemma act_failed: "fold act (map FetchFailed es) s = s\<lparr>hub_of := fold (\<lambda>err. hub_line Error ''Kafka fetch failed'') es (hub_of s)\<rparr>"
  by (induction es arbitrary: s) simp_all

lemma act_records: "fold act (map Process rs) s = s\<lparr>hub_of := fold process_record rs (hub_of s)\<rparr>"
  by (induction rs arbitrary: s) simp_all

lemma consume_poll_effect:
  "clients_of (hub_of (consume_poll p s)) =
     clients_of (fold process_record (fetched p) (fold (\<lambda>err. hub_line Error ''Kafka fetch failed'') (fetch_errors p) (hub_of s)))"
  "committed (consume_poll p s) =
     (case commit_fault p of Lost err \<Rightarrow> committed s | _ \<Rightarrow> commit_records (fetched p) (committed s))"
  by (simp_all add: consume_poll_def poll_actions_def act_failed act_records commit_records_def fun_eq_iff split: fault.split)
    (simp_all add: clients_of_def)

lemma client_okD:
  assumes "client_ok reg c"
  shows "reg \<longleftrightarrow> stage_of c \<notin> {Unused, Opening, Closed}" "reg \<Longrightarrow> has_role (principal_of_client c) ''noapp-viewer''"
    "length (send c) \<le> 64" "pid \<in> subscriptions c \<Longrightarrow> subscriptions c = {pid} \<and> 1 \<le> pid"
    "stage_of c = Closed \<Longrightarrow> canceled c"
  using assms by (cases "stage_of c"; auto simp: client_ok_def queue_size_def one_project_def)+

section \<open>Properties\<close>

text \<open>C23. The hub in every state it can reach, with any verifier and any interleaving: no client is
  registered twice, the metric of active connections is their number, a client is registered exactly
  while its reader runs after a successful authentication as a viewer, no queue holds more than 64
  payloads, a client watches at most one project (with a valid ID), and a closed connection is
  canceled.\<close>

theorem hub_invariant:
  assumes "hub_runs ver (new_hub v) h"
  shows "distinct (registered h) \<and> connections h = int (length (registered h))
    \<and> (i \<in> set (registered h) \<longleftrightarrow> stage_of (store h i) \<notin> {Unused, Opening, Closed})
    \<and> (i \<in> set (registered h) \<longrightarrow> has_role (principal_of_client (store h i)) ''noapp-viewer'')
    \<and> length (send (store h i)) \<le> 64
    \<and> (pid \<in> subscriptions (store h i) \<longrightarrow> subscriptions (store h i) = {pid} \<and> 1 \<le> pid)
    \<and> (stage_of (store h i) = Closed \<longrightarrow> canceled (store h i))"
proof -
  have ok: "hub_ok h" by (rule hub_runs_ok [OF assms new_hub_ok])
  then show ?thesis
    using client_okD [OF hub_okD [OF ok, of i]] unfolding hub_ok_def client_count_def by blast
qed

theorem hub_invariant_witness:
  "hub_runs sample_ver (new_hub sample_verifier) sample_watching \<and> connections sample_watching = 1
    \<and> has_role (principal_of_client (store sample_watching 0)) ''noapp-viewer''"
  using hub_invariant [OF sample_watching_run, of 0] sample_watching_run by (simp add: sample_watching_facts)

text \<open>C7. One broadcast, client by client: exactly the registered clients that watch the project of the
  event get the payload, at the end of their queue when it has room, and are canceled otherwise;
  nothing else about any client changes, and the metrics count the deliveries and the drops.\<close>

theorem broadcast_delivery:
  fixes h :: "'s hub" and ev :: envelope and p :: string and i :: nat
  assumes "hub_runs ver (new_hub v) h"
  defines "watching \<equiv> filter (\<lambda>i. event_project ev \<in> subscriptions (store h i)) (registered h)"
    and "full \<equiv> (\<lambda>i. 64 \<le> length (send (store h i)))"
  shows "store (broadcast ev p h) i =
      (if i \<in> set watching
       then if full i then (store h i)\<lparr>canceled := True\<rparr> else (store h i)\<lparr>send := send (store h i) @ [p]\<rparr>
       else store h i)
    \<and> registered (broadcast ev p h) = registered h
    \<and> deliveries (broadcast ev p h) = deliveries h + length (filter (\<lambda>i. \<not> full i) watching)
    \<and> dropped (broadcast ev p h) = dropped h + length (filter full watching)"
proof -
  have "hub_ok h" by (rule hub_runs_ok [OF assms(1) new_hub_ok])
  then have d: "distinct (registered h)" by (simp add: hub_ok_def)
  have room: "has_room (store h j) \<longleftrightarrow> \<not> full j" for j by (auto simp: has_room_def full_def queue_size_def)
  have "filter (\<lambda>i. receives ev h i \<and> Q i) (registered h) = filter Q watching" for Q
    unfolding watching_def filter_filter by (rule filter_cong) (auto simp: receives_def)
  then show ?thesis
    by (simp add: broadcast_store [OF d] broadcast_counts [OF d] room receives_def watching_def push_def)
qed

theorem broadcast_delivery_witness:
  "send (store (broadcast (sample_event\<lparr>event_project := 1\<rparr>) ''x'' sample_watching) 0) = send (store sample_watching 0) @ [''x'']
    \<and> send (store (broadcast (sample_event\<lparr>event_project := 2\<rparr>) ''x'' sample_watching) 0) = send (store sample_watching 0)"
proof -
  have "\<not> 64 \<le> length (send (store sample_watching 0))" using sample_watching_facts(3) by linarith
  then show ?thesis
    using broadcast_delivery [OF sample_watching_run, of "sample_event\<lparr>event_project := 1\<rparr>" "''x''" 0]
      broadcast_delivery [OF sample_watching_run, of "sample_event\<lparr>event_project := 2\<rparr>" "''x''" 0]
    by (simp add: sample_watching_facts)
qed

text \<open>C9. No connection gets into the hub without a token: the step in which a client becomes registered
  is a read of a bearer token that the verifier of the service accepts at that moment, for a viewer
  whose token has not expired, and the client is stored under that principal and that expiry.\<close>

theorem realtime_needs_token:
  assumes "hub_runs (call_verify cr) (new_hub v) h" and "hub_step (call_verify cr) h h'"
    and "i \<notin> set (registered h)" and "i \<in> set (registered h')"
  shows "\<exists>c rep token p. verify cr c rep (''Bearer '' @ token) (hub_verifier h) = (hub_verifier h', Inr p)
    \<and> has_role p ''noapp-viewer'' \<and> subject p \<noteq> [] \<and> unix_seconds (at_claims c) < unix_seconds (expires_at p)
    \<and> principal_of_client (store h' i) = p \<and> expires_unix (store h' i) = unix_seconds (expires_at p)"
proof -
  have "hub_ok h" by (rule hub_runs_ok [OF assms(1) new_hub_ok])
  obtain ve token p where a: "fst (call_verify cr ve (''Bearer '' @ token) (hub_verifier h)) = hub_verifier h'"
    "snd (call_verify cr ve (''Bearer '' @ token) (hub_verifier h)) = Inr p"
    "principal_of_client (store h' i) = p" "expires_unix (store h' i) = unix_seconds (expires_at p)"
    "has_role p ''noapp-viewer''" "unix_seconds (at_claims (fst ve)) < unix_seconds (expires_at p)" "subject p \<noteq> []"
    by (rule jwt.joins_accepted [OF assms(2) \<open>hub_ok h\<close> assms(3,4)])
  then have "verify cr (fst ve) (snd ve) (''Bearer '' @ token) (hub_verifier h) = (hub_verifier h', Inr p)"
    by (simp add: call_verify_def prod_eq_iff)
  with a(3-7) show ?thesis by blast
qed

theorem realtime_needs_token_witness:
  "\<exists>c rep token p. verify sample_crypto c rep (''Bearer '' @ token) sample_verifier = (sample_verifier, Inr p)
    \<and> principal_of_client (store sample_joined 0) = p"
proof -
  have run: "hub_runs sample_ver (new_hub sample_verifier) sample_opened"
    unfolding sample_opened_def by (rule r_into_rtranclp, rule accepts) (simp add: new_hub_def unused_client_def)
  have step: "hub_step sample_ver sample_opened sample_joined" unfolding sample_joined_def by (rule reads)
  have "registered sample_opened = []" "hub_verifier sample_opened = sample_verifier"
    by (simp_all add: sample_opened_def accept_def new_hub_def)
  with realtime_needs_token [OF run step, of 0] sample_joined_facts(1,3) show ?thesis by auto
qed

text \<open>C24. A connection delivers in order: whatever happens, what has been written to a client since an
  earlier state is a front part of the queue it had then followed by the payloads queued since, so
  nothing is reordered, repeated or left out in between; and as long as the connection is not
  canceled, the rest is exactly what is still in the queue.\<close>

theorem delivery_in_order:
  assumes "hub_runs ver (new_hub v) h" and "hub_runs ver h h'" and "stage_of (store h i) \<noteq> Unused"
  shows "\<exists>ps k. k \<le> length (send (store h i) @ ps)
    \<and> written (store h' i) = written (store h i) @ take k (send (store h i) @ ps)
    \<and> (\<not> canceled (store h' i) \<longrightarrow> send (store h' i) = drop k (send (store h i) @ ps))"
  using hub_runs_flows [OF assms(2) hub_runs_ok [OF assms(1) new_hub_ok] assms(3)] by (simp add: flows_def)

theorem delivery_in_order_witness:
  "\<exists>k ps. written (store (writer_step 0 (Write None) sample_watching) 0)
      = written (store sample_watching 0) @ take k (send (store sample_watching 0) @ ps)"
proof -
  have "hub_runs sample_ver sample_watching (writer_step 0 (Write None) sample_watching)"
    by (rule r_into_rtranclp) (rule writes)
  from delivery_in_order [OF sample_watching_run this sample_watching_facts(5)] show ?thesis by blast
qed

text \<open>C25. An expired token ends the connection: the first tick of the ping timer at or after the expiry
  closes and cancels it, nothing is written to it ever again, and its next read takes it out of the
  hub.\<close>

theorem expired_connection_ends:
  assumes "hub_runs ver (new_hub v) h" and "stage_of (store h i) \<noteq> Unused" and "\<not> canceled (store h i)"
    and "0 < expires_unix (store h i)" and "expires_unix (store h i) \<le> unix_seconds now"
    and "hub_runs ver (writer_step i (Tick now res) h) h'"
  shows "close_reason (store (writer_step i (Tick now res) h) i) \<noteq> None
    \<and> canceled (store h' i) \<and> written (store h' i) = written (store h i)
    \<and> (stage_of (store h' i) = Serving \<longrightarrow> i \<notin> set (registered (reader_step ver ve i f h')))"
proof -
  let ?h = "writer_step i (Tick now res) h"
  have tick: "?h = cancel i (close_connection ''access token expired'' i h)"
    using assms(2-5) by (simp add: writer_step_def Let_def)
  have "hub_ok ?h" using writer_step_ok hub_runs_ok [OF assms(1) new_hub_ok] by blast
  moreover have "stage_of (store ?h i) \<noteq> Unused" "canceled (store ?h i)" "written (store ?h i) = written (store h i)"
    "close_reason (store ?h i) \<noteq> None"
    using assms(2) by (simp_all add: tick close_connection_def split: option.split)
  ultimately have "canceled (store h' i)" "written (store h' i) = written (store h i)" "close_reason (store ?h i) \<noteq> None"
    using hub_runs_flows [OF assms(6)] by (auto simp: flows_def)
  then show ?thesis using canceled_read_ends(1) [of h' i ver ve f] by simp
qed

theorem expired_connection_ends_witness:
  "canceled (store (writer_step 0 (Tick (60 * second) None) sample_watching) 0)"
  using expired_connection_ends [OF sample_watching_run sample_watching_facts(5,4), of "60 * second" None
      "writer_step 0 (Tick (60 * second) None) sample_watching"]
  by (simp add: sample_watching_facts unix_seconds_def duration_defs)

text \<open>C19. The consumer never loses an event: wherever the process dies, between any two actions of its
  loop, and whatever fetches and commits fail, every offset of a partition below the committed one is
  that of a stored record which some life of the consumer has processed. What a life has processed
  shows in its hub: the log has exactly one line for each of its records, in their order (\<open>board event
  broadcast\<close>, or \<open>invalid board event skipped\<close> for one that does not decode), and the metric of consumed
  events counts those that decode. After a restart the consumer resumes at the committed offsets,
  which never run ahead of what it has been given.\<close>

theorem gateway_at_least_once:
  assumes "gateway_runs ver (new_gateway v) g" and "k < committed (consumer_of g) q"
  shows "(\<exists>h rs. (h, rs) \<in> set (lives g)
      \<and> (\<exists>r \<in> set rs. kr_partition r = q \<and> kr_offset r = k \<and> kr_value r = log_of g q ! k)
      \<and> record_trace h = map record_line rs \<and> consumed h = length (filter decodable rs))
    \<and> k < length (log_of g q) \<and> committed (consumer_of g) q \<le> position g q"
proof -
  have ok: "gateway_ok g" by (rule gateway_runs_ok [OF assms(1)])
  then have "committed (consumer_of g) q \<le> position g q" "position g q \<le> length (log_of g q)"
    by (simp_all add: gateway_ok_def)
  moreover have "\<exists>rs \<in> snd ` set (lives g). \<exists>r \<in> set rs. stored (log_of g) q k r"
    using ok assms(2) unfolding gateway_ok_def by blast
  then obtain h rs r where l: "(h, rs) \<in> set (lives g)" and r: "r \<in> set rs" "stored (log_of g) q k r" by force
  have "agrees h rs" using ok l unfolding gateway_ok_def by force
  ultimately show ?thesis using l r assms(2) by (auto simp: agrees_def evidence_def stored_def)
qed

theorem gateway_at_least_once_witness:
  "\<exists>g h rs. gateway_runs sample_ver (new_gateway sample_verifier) g \<and> committed (consumer_of g) 0 = 1
    \<and> log_of g 0 = [''x''] \<and> (h, rs) \<in> set (lives g) \<and> rs \<noteq> [] \<and> record_trace h = map record_line rs"
proof -
  let ?g0 = "new_gateway sample_verifier"
  let ?g1 = "?g0\<lparr>log_of := (log_of ?g0)(0 := log_of ?g0 0 @ [''x''])\<rparr>"
  let ?p = "\<lparr>fetch_errors = [], fetched = [\<lparr>kr_partition = 0, kr_offset = 0, kr_value = ''x''\<rparr>], commit_fault = NoFault\<rparr>"
  let ?g2 = "?g1\<lparr>position := advance (fetched ?p) (position ?g1), returned := returned ?g1 @ fetched ?p,
      consumer_of := consume_poll ?p (consumer_of ?g1)\<rparr>"
  have "gateway_step sample_ver ?g0 ?g1" by (rule appends)
  moreover have "gateway_runs sample_ver ?g1 ?g2"
    by (rule consume_poll_runs) (simp_all add: fetch_ok_def new_gateway_def)
  ultimately have run: "gateway_runs sample_ver ?g0 ?g2" by (rule converse_rtranclp_into_rtranclp)
  have com: "committed (consumer_of ?g2) 0 = 1"
    by (simp add: consume_poll_effect(2) commit_records_def new_gateway_def)
  then obtain h rs where "(h, rs) \<in> set (lives ?g2)" "rs \<noteq> []" "record_trace h = map record_line rs"
    using gateway_at_least_once [OF run, of 0 0] by force
  moreover have "log_of ?g2 0 = [''x'']" by (simp add: new_gateway_def)
  ultimately show ?thesis using run com by blast
qed

text \<open>C39. A record that does not decode blocks nothing: in any state in which the hub is sound, as far as the clients and the metrics are
  concerned, a poll does exactly what the same poll without such records does, in the same order, and
  unless the commit is lost the offsets of all its records are committed with it, also when none
  of them decodes.\<close>

theorem bad_records_skipped:
  assumes "hub_ok (hub_of s)"
  shows "clients_of (hub_of (consume_poll p s)) = clients_of (hub_of (consume_poll (p\<lparr>fetched := filter decodable (fetched p)\<rparr>) s))
    \<and> (case commit_fault p of
         Lost err \<Rightarrow> committed (consume_poll p s) = committed s
       | _ \<Rightarrow> list_all (\<lambda>r. kr_offset r < committed (consume_poll p s) (kr_partition r)) (fetched p))"
proof -
  let ?h = "fold (\<lambda>err. hub_line Error ''Kafka fetch failed'') (fetch_errors p) (hub_of s)"
  have h: "hub_ok ?h" using fetch_lines_clients assms by blast
  have "kr_offset r < commit_records (fetched p) (committed s) (kr_partition r)" if "r \<in> set (fetched p)" for r
  proof -
    let ?os = "map kr_offset (filter (\<lambda>q. kr_partition q = kr_partition r) (fetched p))"
    have "kr_offset r \<in> set ?os" using that by auto
    then have "kr_offset r \<le> fold max ?os 0" "?os \<noteq> []" unfolding Max.set_eq_fold [symmetric] by (auto simp: Max_ge filter_empty_conv)
    then show ?thesis by (simp add: commit_records_def Let_def del: map_is_Nil_conv)
  qed
  with process_all_clients [OF h h refl, of "fetched p"] show ?thesis
    by (simp add: consume_poll_effect list_all_iff split: fault.split)
qed

theorem bad_records_skipped_witness:
  "\<exists>p s. clients_of (hub_of (consume_poll p s)) = clients_of (new_hub sample_verifier) \<and> length (fetched p) = 1
     \<and> filter decodable (fetched p) = [] \<and> hub_of s = new_hub sample_verifier \<and> committed (consume_poll p s) 0 = 1"
proof -
  let ?r = "\<lparr>kr_partition = 0, kr_offset = 0, kr_value = ''x''\<rparr>"
  let ?p = "\<lparr>fetch_errors = [], fetched = [?r], commit_fault = NoFault\<rparr>"
  let ?s = "\<lparr>committed = (\<lambda>q. 0), hub_of = new_hub sample_verifier\<rparr>"
  have "unmarshal ''x'' = None" by code_simp
  then have bad: "\<not> decodable ?r" by (simp add: decodable_def decode_event_def)
  have "hub_ok (hub_of ?s)" by (simp add: new_hub_ok)
  from bad_records_skipped [OF this, of ?p] bad
  have "clients_of (hub_of (consume_poll ?p ?s)) = clients_of (new_hub sample_verifier)"
    by (simp add: consume_poll_effect(1))
  moreover have "committed (consume_poll ?p ?s) 0 = 1" by (simp add: consume_poll_effect(2) commit_records_def)
  ultimately show ?thesis using bad by (intro exI [of _ ?p] exI [of _ ?s]) simp
qed

end
