(* ===== verification/Gofloat.thy ===== *)
theory Gofloat
  imports Prelude "HOL-Library.Log_Nat"
begin

text \<open>
  \<open>float64\<close> as the rational number it denotes, for the finite values that the simulator computes with:
  rounding to the nearest double, ties to even, and \<open>strconv.ParseFloat\<close> on the literals of JSON.
  A double has 53 significant bits and no bit below \<open>2 ^ -1074\<close>.
\<close>

section \<open>Rounding\<close>

definition round_even :: "rat \<Rightarrow> int" where
  "round_even y =
     (let f = floor y; d = y - of_int f in
      if d < 1 / 2 \<or> d = 1 / 2 \<and> even f then f else f + 1)"

text \<open>The exponent of the leading bit of a positive number.\<close>

definition leading_bit :: "rat \<Rightarrow> int" where
  "leading_bit x =
     (let (p, q) = quotient_of x; k = int (floorlog 2 (nat p)) - int (floorlog 2 (nat q)) in
      if 2 powi k \<le> x then k else k - 1)"

definition round_at :: "int \<Rightarrow> rat \<Rightarrow> rat" where
  "round_at e x = of_int (round_even (x / 2 powi e)) * 2 powi e"

definition round64 :: "rat \<Rightarrow> rat" where
  "round64 x = (if x \<le> 0 then 0 else round_at (max (leading_bit x - 52) (- 1074)) x)"

section \<open>Literals\<close>

definition float_sign :: "string \<Rightarrow> string \<times> rat" where
  "float_sign s = (if prefix ''-'' s then (tl s, - 1) else if prefix ''+'' s then (tl s, 1) else (s, 1))"

definition literal_value :: "string \<Rightarrow> rat option" where
  "literal_value s =
     (let (t, sgn) = float_sign s;
          (m, ex, found) = cut_at (CHR ''e'') (map ascii_lower t);
          (ip, fp, dot) = cut_at (CHR ''.'') m;
          (x, esgn) = float_sign ex in
      case (digits_val 0 (ip @ fp), digits_val 0 x) of
        (Some n, Some k) \<Rightarrow> Some (sgn * of_nat n * 10 powi ((if esgn < 0 then - int k else int k) - int (length fp)))
      | _ \<Rightarrow> None)"

text \<open>A value beyond the largest double is an error.\<close>

definition parse_float :: "string \<Rightarrow> rat option" where
  "parse_float s =
     (case literal_value s of
        None \<Rightarrow> None
      | Some x \<Rightarrow> if round64 \<bar>x\<bar> < 2 ^ 1024 then Some (if x < 0 then - round64 (- x) else round64 x) else None)"

section \<open>Laws\<close>

lemma leading_bit:
  assumes "0 < x"
  shows "2 powi leading_bit x \<le> x" and "x < 2 powi (leading_bit x + 1)"
proof -
  obtain p q where pq: "quotient_of x = (p, q)" by (cases "quotient_of x")
  then have q: "0 < q" by (rule quotient_of_denom_pos)
  have x: "x = of_int p / of_int q" by (rule quotient_of_div [OF pq])
  with assms q have p: "0 < p" by (simp add: zero_less_divide_iff)
  define a b where "a = int (floorlog 2 (nat p))" and "b = int (floorlog 2 (nat q))"
  have bounds: "2 powi (int (floorlog 2 (nat n)) - 1) \<le> (of_int n :: rat) \<and> (of_int n :: rat) < 2 powi int (floorlog 2 (nat n))"
    if "0 < n" for n
  proof -
    have pos: "0 < floorlog 2 (nat n)" using that by (metis floorlog_eq_zero_iff le_zero_eq not_gr0 not_le zero_less_nat_eq numeral_le_one_iff semiring_norm(69))
    have "2 ^ (floorlog 2 (nat n) - 1) \<le> nat n" "nat n < 2 ^ floorlog 2 (nat n)"
      using floorlog_bounds [of "nat n" 2] that by simp_all
    then have "(of_nat (2 ^ (floorlog 2 (nat n) - 1)) :: rat) \<le> of_nat (nat n)" "(of_nat (nat n) :: rat) < of_nat (2 ^ floorlog 2 (nat n))"
      by (simp_all only: of_nat_le_iff of_nat_less_iff)
    then show ?thesis
      using that pos by (simp add: power_int_def of_nat_diff nat_diff_distrib)
  qed
  have "2 powi (a - 1) \<le> (of_int p :: rat)" "(of_int p :: rat) < 2 powi a" "2 powi (b - 1) \<le> (of_int q :: rat)" "(of_int q :: rat) < 2 powi b"
    using bounds [OF p] bounds [OF q] by (simp_all add: a_def b_def)
  then have lo: "2 powi (a - 1) / 2 powi b \<le> x" and hi: "x < 2 powi a / 2 powi (b - 1)"
    unfolding x using q p by (auto intro!: frac_le frac_less)
  have "2 powi (a - b - 1) \<le> x" "x < 2 powi (a - b + 1)"
    using lo hi by (simp_all add: power_int_diff power_int_add field_simps)
  then show "2 powi leading_bit x \<le> x" "x < 2 powi (leading_bit x + 1)"
    by (auto simp: leading_bit_def pq Let_def a_def b_def)
qed

lemma powi_less: "(2::rat) powi m < 2 powi n \<Longrightarrow> m < n"
  by (metis le_less_linear leD one_le_numeral power_int_increasing)

lemma round_even_mono: "x \<le> y \<Longrightarrow> round_even x \<le> round_even y"
proof -
  assume le: "x \<le> y"
  then have "floor x \<le> floor y" by (rule floor_mono)
  then consider "floor x = floor y" | "floor x + 1 \<le> floor y" by linarith
  then show ?thesis
    using le by cases (auto simp: round_even_def Let_def)
qed

lemma round_even_int: "round_even (of_int k) = k"
  by (simp add: round_even_def)

lemma round_at_mono: "x \<le> y \<Longrightarrow> round_at e x \<le> round_at e y"
  by (simp add: round_at_def round_even_mono divide_right_mono)

lemma round_at_exact: "round_at e (of_int k * 2 powi e) = of_int k * 2 powi e"
  by (simp add: round_at_def round_even_int)

lemma powi_split: "e \<le> k \<Longrightarrow> (2::rat) powi k = of_int (2 ^ nat (k - e)) * 2 powi e"
  using power_int_add [of "2::rat" "k - e" e] by (simp add: power_int_def [of _ "k - e"])

lemma round_at_power: "e \<le> k \<Longrightarrow> round_at e (of_int n * 2 powi k) = of_int n * 2 powi k"
  using round_at_exact [of e "n * 2 ^ nat (k - e)"] by (simp add: powi_split mult.assoc)

lemma round_at_nonneg: "0 \<le> x \<Longrightarrow> 0 \<le> round_at e x"
  using round_at_mono [of 0 x e] round_at_exact [of e 0] by simp

lemma round64_mono:
  assumes "x \<le> y"
  shows "round64 x \<le> round64 y"
proof (cases "0 < x")
  case True
  let ?i = "leading_bit x" and ?j = "leading_bit y"
  let ?e = "max (?i - 52) (- 1074)" and ?f = "max (?j - 52) (- 1074)"
  have y: "0 < y" using True assms by simp
  have "(2::rat) powi ?i < 2 powi (?j + 1)" using leading_bit [OF True] leading_bit [OF y] assms by linarith
  then have "?i < ?j + 1" by (rule powi_less)
  then consider "?e = ?f" | "?i < ?j" "?e < ?f" by linarith
  then have "round_at ?e x \<le> round_at ?f y"
  proof cases
    case 2
    then have below: "?e \<le> ?j" "?f \<le> ?j" by auto
    have "x \<le> 2 powi ?j"
    proof -
      have "(2::rat) powi (?i + 1) \<le> 2 powi ?j" using 2 by (intro power_int_increasing) auto
      with leading_bit(2) [OF True] show ?thesis by linarith
    qed
    then have "round_at ?e x \<le> round_at ?e (2 powi ?j)" by (rule round_at_mono)
    also have "\<dots> = round_at ?f (2 powi ?j)" using round_at_power [of ?e ?j 1] round_at_power [of ?f ?j 1] below by simp
    also have "\<dots> \<le> round_at ?f y" by (rule round_at_mono [OF leading_bit(1) [OF y]])
    finally show ?thesis .
  qed (simp add: round_at_mono [OF assms])
  with True y show ?thesis by (simp add: round64_def)
next
  case False
  then show ?thesis by (simp add: round64_def round_at_nonneg)
qed

lemma round64_exact:
  assumes "0 < k" and "k < 2 ^ 53" and "- 1074 \<le> e"
  shows "round64 (of_int k * 2 powi e) = of_int k * 2 powi e"
proof -
  let ?x = "of_int k * 2 powi e :: rat"
  have x: "0 < ?x" using assms(1) by simp
  have "(of_int k :: rat) < of_int (2 ^ 53)" using assms(2) by (simp only: of_int_less_iff)
  then have "?x < 2 ^ 53 * 2 powi e" by simp
  also have "\<dots> = 2 powi (53 + e)" by (simp add: power_int_add)
  finally have "(2::rat) powi leading_bit ?x < 2 powi (53 + e)" using leading_bit(1) [OF x] by linarith
  then have "leading_bit ?x < 53 + e" by (rule powi_less)
  with assms(3) x show ?thesis by (simp add: round64_def round_at_power)
qed

end
