(* ===== verification/Sim_Client.thy ===== *)
theory Sim_Client
  imports Http Json_Text Base64 Gofloat
begin

text \<open>
  \<open>internal/simulator/client.go\<close>: the HTTP client with which the traffic simulator drives the REST API,
  and its cached access token. A call takes what the network does with it and yields the client, the
  requests it has handed to the HTTP library, in order, and a result or the text of an error.
\<close>

section \<open>The client and the network\<close>

record oauth_config =
  token_url :: string
  client_id :: string
  client_secret :: string

record api_client =
  base_url :: string
  oauth :: oauth_config
  cached_token :: string
  cached_until :: instant

record outgoing =
  out_method :: string
  out_url :: string
  out_headers :: "(string \<times> string) list"
  out_body :: "string option"

text \<open>What sending a request comes to: an error, or a status and as much of the body as can be read.\<close>

datatype exchange = Unreachable string | Replied nat string

record network =
  net_now :: instant                          \<comment> \<open>when the cached token is looked at\<close>
  net_later :: instant                        \<comment> \<open>when a new token has arrived\<close>
  net_token :: exchange
  net_reply :: exchange
  net_malformed :: "string \<Rightarrow> string option"    \<comment> \<open>why \<open>http.NewRequest\<close> refuses a URL\<close>
  net_explain :: "json_error \<Rightarrow> string"         \<comment> \<open>the words of the JSON decoder\<close>

definition trim_slashes :: "string \<Rightarrow> string" where
  "trim_slashes s = rev (dropWhile (\<lambda>c. c = CHR ''/'') (rev s))"

definition new_api_client :: "string \<Rightarrow> oauth_config \<Rightarrow> api_client" where
  "new_api_client base oa =
     \<lparr>base_url = trim_slashes base, oauth = oa, cached_token = [], cached_until = zero_time\<rparr>"

section \<open>Access tokens\<close>

record token_response =
  granted :: string
  lifetime :: int64
  refusal :: string

definition token_fields :: "token_response fields" where
  "token_fields =
     [(''access_token'', field as_string granted_update), (''expires_in'', field as_int64 lifetime_update),
      (''error_description'', field as_string refusal_update)]"

definition no_token :: token_response where
  "no_token = \<lparr>granted = [], lifetime = 0, refusal = []\<rparr>"

text \<open>\<open>base64.StdEncoding\<close>: the alphabet with plus and slash, padded to groups of four.\<close>

definition std_char :: "char \<Rightarrow> char" where
  "std_char c = (if c = CHR ''-'' then CHR ''+'' else if c = CHR ''_'' then CHR ''/'' else c)"

definition basic_auth :: "string \<Rightarrow> string \<Rightarrow> string" where
  "basic_auth user password =
     (let s = map std_char (raw_url_encode (user @ '':'' @ password)) in
      ''Basic '' @ s @ replicate ((4 - length s mod 4) mod 4) (CHR ''=''))"

definition token_request :: "oauth_config \<Rightarrow> outgoing" where
  "token_request oa =
     \<lparr>out_method = ''POST'', out_url = token_url oa,
      out_headers = [(''Content-Type'', ''application/x-www-form-urlencoded''), (''User-Agent'', ''noapp-traffic-simulator/1.0''),
        (''Authorization'', basic_auth (client_id oa) (client_secret oa))],
      out_body = Some ''grant_type=client_credentials''\<rparr>"

text \<open>The first JSON value of a body, stored into a struct.\<close>

definition decode_body :: "network \<Rightarrow> 'r fields \<Rightarrow> 'r \<Rightarrow> string \<Rightarrow> string + 'r" where
  "decode_body n fs r s =
     (case (case decode_first s of None \<Rightarrow> Inl SyntaxError | Some v \<Rightarrow> decode_struct False fs v r) of
        Inl e \<Rightarrow> Inl (net_explain n e)
      | Inr x \<Rightarrow> Inr x)"

definition decimal :: "nat \<Rightarrow> string" where
  "decimal k = format_int 10 (int k)"

text \<open>A product of durations wraps at 64 bits.\<close>

definition wrap64 :: "int \<Rightarrow> int64" where
  "wrap64 i = signed_take_bit 63 i"

definition fetch_token :: "network \<Rightarrow> api_client \<Rightarrow> api_client \<times> outgoing list \<times> (string + string)" where
  "fetch_token n c =
     (if cached_token c \<noteq> [] \<and> 30 * second < time_sub (cached_until c) (net_now n)
      then (c, [], Inr (cached_token c))
      else case net_malformed n (token_url (oauth c)) of
          Some err \<Rightarrow> (c, [], Inl err)
        | None \<Rightarrow>
            let sent = [token_request (oauth c)] in
            (case net_token n of
               Unreachable err \<Rightarrow> (c, sent, Inl err)
             | Replied st text \<Rightarrow>
                 (case decode_body n token_fields no_token text of
                    Inl err \<Rightarrow> (c, sent, Inl (''decode token response: '' @ err))
                  | Inr t \<Rightarrow>
                      if st \<noteq> 200 \<or> granted t = []
                      then (c, sent, Inl (''token endpoint returned '' @ decimal st @ '': '' @ refusal t))
                      else (c\<lparr>cached_token := granted t, cached_until := net_later n + wrap64 (lifetime t * second)\<rparr>,
                            sent, Inr (granted t)))))"

section \<open>Calls\<close>

definition api_request :: "api_client \<Rightarrow> string \<Rightarrow> string \<Rightarrow> json option \<Rightarrow> string option \<Rightarrow> outgoing" where
  "api_request c meth path v tok =
     \<lparr>out_method = meth, out_url = base_url c @ path,
      out_headers =
        (case v of None \<Rightarrow> [] | Some j \<Rightarrow> [(''Content-Type'', ''application/json'')])
        @ [(''User-Agent'', ''noapp-traffic-simulator/1.0''), (''X-Traffic-Source'', ''simulator'')]
        @ (case tok of None \<Rightarrow> [] | Some t \<Rightarrow> [(''Authorization'', ''Bearer '' @ t)]),
      out_body = map_option marshal v\<rparr>"

definition read_reply :: "network \<Rightarrow> string \<Rightarrow> string \<Rightarrow> string + string" where
  "read_reply n meth path =
     (case net_reply n of
        Unreachable err \<Rightarrow> Inl err
      | Replied st text \<Rightarrow>
          if st < 200 \<or> 300 \<le> st
          then Inl (meth @ '' '' @ path @ '' returned '' @ decimal st @ '': '' @ trim_space (take 2048 text))
          else Inr text)"

definition call_api :: "network \<Rightarrow> string \<Rightarrow> string \<Rightarrow> json option \<Rightarrow> api_client \<Rightarrow> api_client \<times> outgoing list \<times> (string + string)" where
  "call_api n meth path v c =
     (case net_malformed n (base_url c @ path) of
        Some err \<Rightarrow> (c, [], Inl err)
      | None \<Rightarrow>
          if path \<noteq> ''/api/health'' \<and> token_url (oauth c) \<noteq> []
          then (case fetch_token n c of
                  (c', sent, Inl err) \<Rightarrow> (c', sent, Inl (''get API access token: '' @ err))
                | (c', sent, Inr tok) \<Rightarrow> (c', sent @ [api_request c' meth path v (Some tok)], read_reply n meth path))
          else (c, [api_request c meth path v None], read_reply n meth path))"

definition call_decoding ::
    "network \<Rightarrow> string \<Rightarrow> string \<Rightarrow> json option \<Rightarrow> 'r fields \<Rightarrow> 'r \<Rightarrow> api_client \<Rightarrow> api_client \<times> outgoing list \<times> (string + 'r)" where
  "call_decoding n meth path v fs r c =
     (case call_api n meth path v c of
        (c', sent, Inl err) \<Rightarrow> (c', sent, Inl err)
      | (c', sent, Inr text) \<Rightarrow>
          (c', sent,
           case decode_body n fs r text of
             Inl err \<Rightarrow> Inl (''decode '' @ meth @ '' '' @ path @ '' response: '' @ err)
           | Inr x \<Rightarrow> Inr x))"

section \<open>The operations of the API\<close>

record api_user = got_user_id :: int64  got_user_name :: string
record api_project = got_project_id :: int64
record api_task = got_task_id :: int64  got_task_project :: int64  got_task_status :: string

definition api_user_fields :: "api_user fields" where
  "api_user_fields = [(''id'', field as_int64 got_user_id_update), (''name'', field as_string got_user_name_update)]"

definition api_project_fields :: "api_project fields" where
  "api_project_fields = [(''id'', field as_int64 got_project_id_update)]"

definition api_task_fields :: "api_task fields" where
  "api_task_fields =
     [(''id'', field as_int64 got_task_id_update), (''project_id'', field as_int64 got_task_project_update),
      (''status'', field as_string got_task_status_update)]"

definition no_api_task :: api_task where
  "no_api_task = \<lparr>got_task_id = 0, got_task_project = 0, got_task_status = []\<rparr>"

definition get_health :: "network \<Rightarrow> api_client \<Rightarrow> api_client \<times> outgoing list \<times> (string + string)" where
  "get_health n c = call_api n ''GET'' ''/api/health'' None c"

text \<open>The keys of a Go map are encoded in order.\<close>

definition post_user :: "network \<Rightarrow> string \<Rightarrow> string \<Rightarrow> api_client \<Rightarrow> api_client \<times> outgoing list \<times> (string + api_user)" where
  "post_user n name email c =
     call_decoding n ''POST'' ''/api/users'' (Some (JObj [(''email'', JStr email), (''name'', JStr name)]))
       api_user_fields \<lparr>got_user_id = 0, got_user_name = []\<rparr> c"

definition post_project :: "network \<Rightarrow> string \<Rightarrow> string \<Rightarrow> api_client \<Rightarrow> api_client \<times> outgoing list \<times> (string + api_project)" where
  "post_project n name desc c =
     call_decoding n ''POST'' ''/api/projects'' (Some (JObj [(''description'', JStr desc), (''name'', JStr name)]))
       api_project_fields \<lparr>got_project_id = 0\<rparr> c"

definition tasks_path :: "int64 \<Rightarrow> string" where
  "tasks_path pid = ''/api/projects/'' @ format_int 10 pid @ ''/tasks''"

definition get_project_tasks :: "network \<Rightarrow> int64 \<Rightarrow> api_client \<Rightarrow> api_client \<times> outgoing list \<times> (string + string)" where
  "get_project_tasks n pid c = call_api n ''GET'' (tasks_path pid) None c"

definition new_task_json :: "int64 \<Rightarrow> string \<Rightarrow> string \<Rightarrow> json" where
  "new_task_json assignee titl desc =
     JObj [(''assignee_id'', json_int assignee), (''description'', JStr desc), (''status'', JStr ''todo''),
       (''title'', JStr titl)]"

definition post_task ::
    "network \<Rightarrow> int64 \<Rightarrow> int64 \<Rightarrow> string \<Rightarrow> string \<Rightarrow> api_client \<Rightarrow> api_client \<times> outgoing list \<times> (string + api_task)" where
  "post_task n pid assignee titl desc c =
     call_decoding n ''POST'' (tasks_path pid) (Some (new_task_json assignee titl desc)) api_task_fields no_api_task c"

definition patch_task_status ::
    "network \<Rightarrow> int64 \<Rightarrow> string \<Rightarrow> api_client \<Rightarrow> api_client \<times> outgoing list \<times> (string + api_task)" where
  "patch_task_status n tid st c =
     call_decoding n ''PATCH'' (''/api/tasks/'' @ format_int 10 tid @ ''/status'') (Some (JObj [(''status'', JStr st)]))
       api_task_fields no_api_task c"

end
