(* ===== verification/Simulator.thy ===== *)
theory Simulator
  imports Sim_Client "HOL-Library.AList"
begin

text \<open>
  \<open>internal/simulator/engine.go\<close> and \<open>server.go\<close>: the traffic simulator. One goroutine works through a run
  (\<open>run\<close>, \<open>bootstrap\<close>, \<open>runAction\<close>) while the control API starts and stops runs and sets the speed. The
  place of the goroutine is part of the state, a step of it is one turn of a loop, and the control
  operations come between steps; inside a turn they touch other fields than the turn does, and what a
  cancelled context does to a request is up to the network. Random numbers, the texts of the faker, the
  clock and the network are arguments of a step.
\<close>

section \<open>State\<close>

definition workforce_size :: nat where "workforce_size = 50"
definition team_count :: nat where "team_count = 5"
definition base_rate :: rat where "base_rate = 30"
definition max_projects :: nat where "max_projects = 10"

record team =
  team_name :: string
  worker_ids :: "int64 list"
  project_ids :: "int64 list"

text \<open>The tasks of a project, by identifier, with their status; Go visits them in no fixed order.\<close>

record owned_project =
  owned_id :: int64
  team_index :: nat
  owned_tasks :: "(int64 \<times> string) list"

record run_stats =
  total_actions :: nat
  error_count :: nat
  action_counts :: "(string \<times> nat) list"

record sim_event =
  sim_at :: instant
  sim_action :: string
  sim_detail :: string
  sim_success :: bool

datatype runner =
  Idle                                \<comment> \<open>no run\<close>
| Booting
| Hiring nat                          \<comment> \<open>about to create this worker\<close>
| Founding nat                        \<comment> \<open>about to create the project of this team\<close>
| Stocking nat int64 nat              \<comment> \<open>with so many of the project's first tasks to go\<close>
| Settled                             \<comment> \<open>bootstrap has succeeded\<close>
| Acting
| Pausing

record engine =
  en_api :: api_client
  en_running :: bool
  en_phase :: string
  en_speed :: rat
  en_has_cancel :: bool
  en_session :: string
  en_started :: instant
  en_teams :: "team list"
  en_projects :: "owned_project list"
  en_stats :: run_stats
  en_recent :: "sim_event list"
  en_ctx_done :: bool                 \<comment> \<open>whether the context of the run has been cancelled\<close>
  en_runner :: runner
  en_run_session :: string            \<comment> \<open>the session that the goroutine was started with\<close>
  en_traffic :: "outgoing list"       \<comment> \<open>every request sent so far\<close>
  en_log :: "log list"

definition no_stats :: run_stats where
  "no_stats = \<lparr>total_actions = 0, error_count = 0, action_counts = []\<rparr>"

definition new_engine :: "string \<Rightarrow> oauth_config \<Rightarrow> engine" where
  "new_engine target oa =
     \<lparr>en_api = new_api_client target oa, en_running = False, en_phase = ''stopped'', en_speed = 1,
      en_has_cancel = False, en_session = [], en_started = zero_time, en_teams = [], en_projects = [],
      en_stats = no_stats, en_recent = [], en_ctx_done = False, en_runner = Idle, en_run_session = [],
      en_traffic = [], en_log = []\<rparr>"

record luck =
  lk_roll :: nat
  lk_pick :: nat
  lk_pick2 :: nat
  lk_names :: "nat \<Rightarrow> string"
  lk_title :: string
  lk_text :: string
  lk_net :: network
  lk_at :: instant
  lk_fired :: bool                    \<comment> \<open>whether the timer of the pause wins\<close>

text \<open>\<open>rand.IntN\<close> below the length of a list.\<close>

definition pick :: "nat \<Rightarrow> 'a list \<Rightarrow> 'a" where
  "pick k xs = xs ! (k mod length xs)"

fun bump_count :: "string \<Rightarrow> (string \<times> nat) list \<Rightarrow> (string \<times> nat) list" where
  "bump_count a [] = [(a, 1)]"
| "bump_count a ((b, n) # cs) = (if a = b then (b, Suc n) # cs else (b, n) # bump_count a cs)"

fun update_first :: "('a \<Rightarrow> bool) \<Rightarrow> ('a \<Rightarrow> 'a) \<Rightarrow> 'a list \<Rightarrow> 'a list" where
  "update_first P f [] = []"
| "update_first P f (x # xs) = (if P x then f x # xs else x # update_first P f xs)"

definition number :: "int64 \<Rightarrow> string" where
  "number i = format_int 10 i"

definition after_call :: "api_client \<Rightarrow> outgoing list \<Rightarrow> engine \<Rightarrow> engine" where
  "after_call c sent e = e\<lparr>en_api := c, en_traffic := en_traffic e @ sent\<rparr>"

section \<open>Status\<close>

record sim_status =
  st_running :: bool
  st_phase :: string
  st_speed :: rat
  st_base_rate :: rat
  st_effective_rate :: rat
  st_session :: string
  st_started :: instant
  st_teams :: nat
  st_workers :: nat
  st_projects :: nat
  st_tasks :: "(string \<times> nat) list"
  st_stats :: run_stats
  st_recent :: "sim_event list"

definition task_statuses :: "engine \<Rightarrow> string list" where
  "task_statuses e = concat (map (\<lambda>p. map snd (owned_tasks p)) (en_projects e))"

definition status_of :: "engine \<Rightarrow> sim_status" where
  "status_of e =
     \<lparr>st_running = en_running e, st_phase = en_phase e, st_speed = en_speed e, st_base_rate = base_rate,
      st_effective_rate = round64 (base_rate * en_speed e), st_session = en_session e, st_started = en_started e,
      st_teams = length (en_teams e), st_workers = sum_list (map (\<lambda>t. length (worker_ids t)) (en_teams e)),
      st_projects = length (en_projects e),
      st_tasks = fold bump_count (task_statuses e) [(''todo'', 0), (''in_progress'', 0), (''done'', 0)],
      st_stats = en_stats e, st_recent = en_recent e\<rparr>"

section \<open>Recording\<close>

definition record_action :: "luck \<Rightarrow> string \<Rightarrow> string \<Rightarrow> string option \<Rightarrow> engine \<Rightarrow> engine" where
  "record_action lk action what err e =
     (let success = (err = None);
          s = en_stats e in
      e\<lparr>en_stats := \<lparr>total_actions = total_actions s + 1,
          error_count = (if success then error_count s else error_count s + 1),
          action_counts = bump_count action (action_counts s)\<rparr>,
        en_recent := take 30 (\<lparr>sim_at = lk_at lk, sim_action = action, sim_detail = what, sim_success = success\<rparr> # en_recent e),
        en_log := en_log e @
          [if success then (Info, ''simulation action completed'') else (Warn, ''simulation action failed'')]\<rparr>)"

section \<open>Actions\<close>

definition call_error :: "string + 'a \<Rightarrow> string option" where
  "call_error r = (case r of Inl err \<Rightarrow> Some err | Inr x \<Rightarrow> None)"

definition view_board :: "luck \<Rightarrow> engine \<Rightarrow> engine" where
  "view_board lk e =
     (if en_projects e = [] then e
      else let pid = owned_id (pick (lk_pick lk) (en_projects e)) in
        (case get_project_tasks (lk_net lk) pid (en_api e) of
           (c, sent, r) \<Rightarrow>
             record_action lk ''view_board'' (''Viewed the board for project '' @ number pid) (call_error r)
               (after_call c sent e)))"

definition create_project_for :: "luck \<Rightarrow> nat \<Rightarrow> engine \<Rightarrow> engine \<times> int64 option" where
  "create_project_for lk i e =
     (case post_project (lk_net lk) (lk_title lk) (lk_text lk) (en_api e) of
        (c, sent, Inl err) \<Rightarrow>
          (record_action lk ''create_project'' (''Team '' @ decimal (i + 1) @ '' could not create a project'') (Some err)
             (after_call c sent e), None)
      | (c, sent, Inr p) \<Rightarrow>
          let e = after_call c sent e; pid = got_project_id p;
              e = e\<lparr>en_projects := en_projects e @ [\<lparr>owned_id = pid, team_index = i, owned_tasks = []\<rparr>],
                    en_teams := (en_teams e)[i := (en_teams e ! i)\<lparr>project_ids := project_ids (en_teams e ! i) @ [pid]\<rparr>]\<rparr> in
          (record_action lk ''create_project'' (''Team '' @ decimal (i + 1) @ '' created project '' @ number pid) None e,
           Some pid))"

definition create_task_in :: "luck \<Rightarrow> int64 \<Rightarrow> engine \<Rightarrow> engine" where
  "create_task_in lk requested e =
     (if en_projects e = [] then e
      else
        let any = pick (lk_pick lk) (en_projects e);
            p = (if requested \<noteq> 0
                 then case find (\<lambda>q. owned_id q = requested) (en_projects e) of Some q \<Rightarrow> q | None \<Rightarrow> any
                 else any);
            workers = worker_ids (en_teams e ! team_index p) in
        if workers = [] then e
        else (case post_task (lk_net lk) (owned_id p) (pick (lk_pick2 lk) workers) (lk_title lk) (lk_text lk) (en_api e) of
            (c, sent, Inl err) \<Rightarrow>
              record_action lk ''create_task'' (''Could not add a task to project '' @ number (owned_id p)) (Some err)
                (after_call c sent e)
          | (c, sent, Inr t) \<Rightarrow>
              let e = after_call c sent e;
                  put = (\<lambda>q. q\<lparr>owned_tasks := AList.update (got_task_id t) (got_task_status t) (owned_tasks q)\<rparr>) in
              record_action lk ''create_task''
                (''Added task '' @ number (got_task_id t) @ '' to project '' @ number (owned_id p)) None
                (e\<lparr>en_projects := update_first (\<lambda>q. owned_id q = owned_id p) put (en_projects e)\<rparr>)))"

definition task_candidates :: "string \<Rightarrow> engine \<Rightarrow> (int64 \<times> int64) list" where
  "task_candidates from e =
     concat (map (\<lambda>p. map (\<lambda>t. (owned_id p, fst t)) (filter (\<lambda>t. snd t = from) (owned_tasks p))) (en_projects e))"

definition progress_task :: "luck \<Rightarrow> string \<Rightarrow> string \<Rightarrow> string \<Rightarrow> engine \<Rightarrow> engine" where
  "progress_task lk from to action e =
     (if task_candidates from e = [] then create_task_in lk 0 e
      else case pick (lk_pick lk) (task_candidates from e) of
        (pid, tid) \<Rightarrow>
          (case patch_task_status (lk_net lk) tid to (en_api e) of
             (c, sent, Inl err) \<Rightarrow>
               record_action lk action (''Could not move task '' @ number tid @ '' to '' @ to) (Some err) (after_call c sent e)
           | (c, sent, Inr t) \<Rightarrow>
               let e = after_call c sent e;
                   move = (\<lambda>q. q\<lparr>owned_tasks := AList.update tid to (owned_tasks q)\<rparr>) in
               record_action lk action
                 (''Moved task '' @ number tid @ '' in project '' @ number pid @ '' to '' @ to) None
                 (e\<lparr>en_projects := update_first (\<lambda>q. tid \<in> fst ` set (owned_tasks q)) move (en_projects e)\<rparr>)))"

definition eligible_teams :: "engine \<Rightarrow> nat list" where
  "eligible_teams e =
     filter (\<lambda>i. length (project_ids (en_teams e ! i)) < 2 \<and> worker_ids (en_teams e ! i) \<noteq> []) [0..<length (en_teams e)]"

definition create_another_project :: "luck \<Rightarrow> engine \<Rightarrow> engine" where
  "create_another_project lk e =
     (if max_projects \<le> length (en_projects e) then view_board lk e
      else if eligible_teams e = [] then view_board lk e
      else fst (create_project_for lk (pick (lk_pick lk) (eligible_teams e)) e))"

definition run_action :: "luck \<Rightarrow> engine \<Rightarrow> engine" where
  "run_action lk e =
     (let roll = lk_roll lk mod 100 in
      if roll < 65 then view_board lk e
      else if roll < 80 then create_task_in lk 0 e
      else if roll < 89 then progress_task lk ''todo'' ''in_progress'' ''start_task'' e
      else if roll < 96 then progress_task lk ''in_progress'' ''done'' ''complete_task'' e
      else create_another_project lk e)"

section \<open>A run\<close>

text \<open>The worker numbered \<open>i\<close> in the loop of \<open>bootstrap\<close>.\<close>

definition hire :: "luck \<Rightarrow> nat \<Rightarrow> engine \<Rightarrow> engine" where
  "hire lk i e =
     (case post_user (lk_net lk) (lk_title lk) (''sim.'' @ en_run_session e @ ''.'' @ pad 2 (i + 1) @ ''@example.test'') (en_api e) of
        (c, sent, Inl err) \<Rightarrow>
          record_action lk ''create_user'' ''Could not create a simulated worker'' (Some err) (after_call c sent e)
      | (c, sent, Inr u) \<Rightarrow>
          let e = after_call c sent e; k = i mod team_count;
              e = e\<lparr>en_teams := (en_teams e)[k := (en_teams e ! k)\<lparr>worker_ids := worker_ids (en_teams e ! k) @ [got_user_id u]\<rparr>]\<rparr> in
          record_action lk ''create_user''
            (''Worker '' @ number (got_user_id u) @ '' joined team '' @ decimal (k + 1)) None e)"

definition at_stage :: "runner \<Rightarrow> engine \<Rightarrow> engine" where
  "at_stage r e = e\<lparr>en_runner := r\<rparr>"

text \<open>The deferred part of \<open>run\<close>.\<close>

definition end_run :: "engine \<Rightarrow> engine" where
  "end_run e =
     at_stage Idle
       (if en_session e = en_run_session e then e\<lparr>en_running := False, en_phase := ''stopped'', en_has_cancel := False\<rparr> else e)"

text \<open>The pause between two actions: a conversion to \<open>time.Duration\<close> truncates.\<close>

definition pause_of :: "rat \<Rightarrow> duration" where
  "pause_of s = floor (round64 (of_int minute / round64 (base_rate * s)))"

definition runner_step :: "luck \<Rightarrow> engine \<Rightarrow> engine" where
  "runner_step lk e =
     (case en_runner e of
        Idle \<Rightarrow> e
      | Booting \<Rightarrow>
          at_stage (Hiring 0)
            (e\<lparr>en_teams := map (\<lambda>i. \<lparr>team_name = lk_names lk i, worker_ids = [], project_ids = []\<rparr>) [0..<team_count]\<rparr>)
      | Hiring i \<Rightarrow>
          if workforce_size \<le> i then at_stage (Founding 0) e
          else if en_ctx_done e then end_run e
          else at_stage (Hiring (i + 1)) (hire lk i e)
      | Founding i \<Rightarrow>
          if team_count \<le> i then (if en_ctx_done e then end_run e else at_stage Settled e)
          else if en_ctx_done e then end_run e
          else (case create_project_for lk i e of
              (e', None) \<Rightarrow> at_stage (Founding (i + 1)) e'
            | (e', Some pid) \<Rightarrow> at_stage (Stocking i pid 2) e')
      | Stocking i pid k \<Rightarrow>
          (case k of
             0 \<Rightarrow> at_stage (Founding (i + 1)) e
           | Suc k' \<Rightarrow> at_stage (Stocking i pid k') (create_task_in lk pid e))
      | Settled \<Rightarrow> at_stage Acting (if en_session e = en_run_session e then e\<lparr>en_phase := ''running''\<rparr> else e)
      | Acting \<Rightarrow> if en_ctx_done e then end_run e else at_stage Pausing (run_action lk e)
      | Pausing \<Rightarrow>
          if lk_fired lk then at_stage Acting e
          else if en_ctx_done e then end_run e
          else e)"

section \<open>Control\<close>

record control_env =
  ctl_net :: network
  ctl_nanos :: int64                  \<comment> \<open>\<open>time.Now().UnixNano()\<close>\<close>
  ctl_now :: instant

definition start_engine :: "control_env \<Rightarrow> engine \<Rightarrow> engine \<times> (string + sim_status)" where
  "start_engine ce e =
     (case get_health (ctl_net ce) (en_api e) of
        (c, sent, Inl err) \<Rightarrow> (after_call c sent e, Inl (''target app is unavailable: '' @ err))
      | (c, sent, Inr text) \<Rightarrow>
          let e = after_call c sent e in
          if en_running e then (e, Inr (status_of e))
          else
            let s = format_int 36 (ctl_nanos ce);
                e = e\<lparr>en_running := True, en_phase := ''initializing'', en_has_cancel := True, en_session := s,
                  en_started := ctl_now ce, en_teams := [], en_projects := [], en_stats := no_stats, en_recent := [],
                  en_ctx_done := False, en_runner := Booting, en_run_session := s\<rparr> in
            (e, Inr (status_of e)))"

definition stop_engine :: "engine \<Rightarrow> engine \<times> sim_status" where
  "stop_engine e =
     (let e = (if en_running e \<and> en_has_cancel e then e\<lparr>en_phase := ''stopping'', en_ctx_done := True\<rparr> else e) in
      (e, status_of e))"

definition set_speed :: "rat \<Rightarrow> engine \<Rightarrow> engine \<times> (string + sim_status)" where
  "set_speed s e =
     (if s < 1 / 4 \<or> 10 < s then (e, Inl ''speed must be between 0.25 and 10'')
      else let e = e\<lparr>en_speed := s\<rparr> in (e, Inr (status_of e)))"

fun as_float64 :: "json \<Rightarrow> json_error + rat option" where
  "as_float64 JNull = Inr None"
| "as_float64 (JNum lit) = (case parse_float lit of None \<Rightarrow> Inl TypeMismatch | Some x \<Rightarrow> Inr (Some x))"
| "as_float64 _ = Inl TypeMismatch"

record speed_input = multiplier :: rat

definition speed_fields :: "speed_input fields" where
  "speed_fields = [(''multiplier'', field as_float64 multiplier_update)]"

datatype control_route = ControlHealth | ControlStatus | ControlStart | ControlStop | ControlSpeed | ControlFiles

definition control_mux :: "control_route mux" where
  "control_mux =
     [(''GET /api/health'', ControlHealth), (''GET /api/status'', ControlStatus), (''POST /api/start'', ControlStart),
      (''POST /api/stop'', ControlStop), (''PATCH /api/speed'', ControlSpeed), (''/'', ControlFiles)]"

text \<open>A reply of the control API; the status stands for its JSON text.\<close>

datatype control_reply =
  StatusReply nat sim_status
| OtherReply reply
| FileReply

definition control_json :: "nat \<Rightarrow> (string \<times> json) list \<Rightarrow> control_reply" where
  "control_json c ms = OtherReply (json_reply ''application/json; charset=utf-8'' c (Some (JObj ms)))"

definition patch_speed :: "string \<Rightarrow> engine \<Rightarrow> engine \<times> control_reply" where
  "patch_speed text e =
     (case (case decode_first (take 1024 text) of
              None \<Rightarrow> Inl SyntaxError | Some v \<Rightarrow> decode_struct True speed_fields v \<lparr>multiplier = 0\<rparr>) of
        Inl err \<Rightarrow> (e, control_json 400 [(''error'', JStr ''invalid speed payload'')])
      | Inr inp \<Rightarrow>
          (case set_speed (multiplier inp) e of
             (e', Inl err) \<Rightarrow> (e', control_json 400 [(''error'', JStr err)])
           | (e', Inr s) \<Rightarrow> (e', StatusReply 200 s)))"

definition control :: "control_env \<Rightarrow> request \<Rightarrow> engine \<Rightarrow> engine \<times> control_reply" where
  "control ce r e =
     (case mux_find control_mux (req_method r) (req_path r) of
        Handler s ControlHealth wild \<Rightarrow> (e, control_json 200 [(''status'', JStr ''ok'')])
      | Handler s ControlStatus wild \<Rightarrow> (e, StatusReply 200 (status_of e))
      | Handler s ControlStart wild \<Rightarrow>
          (case start_engine ce e of
             (e', Inl err) \<Rightarrow> (e', control_json 503 [(''error'', JStr err)])
           | (e', Inr s) \<Rightarrow> (e', StatusReply 202 s))
      | Handler s ControlStop wild \<Rightarrow> (case stop_engine e of (e', s) \<Rightarrow> (e', StatusReply 200 s))
      | Handler s ControlSpeed wild \<Rightarrow> patch_speed (req_body r) e
      | Handler s ControlFiles wild \<Rightarrow> (e, FileReply)
      | Moved s \<Rightarrow> (e, OtherReply moved_reply)
      | NotAllowed ms \<Rightarrow> (e, OtherReply (not_allowed_reply ms))
      | NotFound \<Rightarrow> (e, OtherReply not_found_reply))"

section \<open>Everything together\<close>

text \<open>What happens to the simulator: the goroutine takes a turn, a request of the control API is served,
  or the process ends (\<open>main\<close> stops the engine).\<close>

datatype sim_input = Turn luck | Control control_env request | Shutdown

definition feed :: "sim_input \<Rightarrow> engine \<Rightarrow> engine" where
  "feed x e =
     (case x of
        Turn lk \<Rightarrow> runner_step lk e
      | Control ce r \<Rightarrow> fst (control ce r e)
      | Shutdown \<Rightarrow> fst (stop_engine e))"

fun is_turn :: "sim_input \<Rightarrow> bool" where
  "is_turn (Turn lk) = True"
| "is_turn x = False"

end
