(* ===== verification/Sim_Laws.thy ===== *)
theory Sim_Laws
  imports Simulator
begin

text \<open>
  What holds of the simulator: the invariant of every state it can reach, the bounds on its pace, the end
  of a run after it has been stopped, and the tokens that its requests carry.
\<close>

section \<open>Counting\<close>

lemma sum_bump_count [simp]: "sum_list (map snd (bump_count a cs)) = Suc (sum_list (map snd cs))"
  by (induction a cs rule: bump_count.induct) auto

lemma sum_bump_counts: "sum_list (map snd (fold bump_count as cs)) = length as + sum_list (map snd cs)"
  by (induction as arbitrary: cs) auto

lemma map_update_first: "(\<And>x. g (f x) = g x) \<Longrightarrow> map g (update_first P f xs) = map g xs"
  by (induction xs) auto

lemma pick_in: "xs \<noteq> [] \<Longrightarrow> pick k xs \<in> set xs"
  by (simp add: pick_def)

section \<open>What an action leaves alone\<close>

text \<open>The part of the state that belongs to the control of the run, and the part that \<open>record\<close> keeps.\<close>

definition run_part :: "engine \<Rightarrow> bool \<times> string \<times> rat \<times> bool \<times> string \<times> bool \<times> runner \<times> string" where
  "run_part e = (en_running e, en_phase e, en_speed e, en_has_cancel e, en_session e, en_ctx_done e, en_runner e, en_run_session e)"

definition stats_ok :: "engine \<Rightarrow> bool" where
  "stats_ok e \<longleftrightarrow>
     total_actions (en_stats e) = sum_list (map snd (action_counts (en_stats e)))
     \<and> error_count (en_stats e) \<le> total_actions (en_stats e)
     \<and> length (en_recent e) = min 30 (total_actions (en_stats e))"

definition roster :: "engine \<Rightarrow> team list \<times> nat list" where
  "roster e = (en_teams e, map team_index (en_projects e))"

lemma record_action_parts [simp]:
  "run_part (record_action lk a w err e) = run_part e"
  "roster (record_action lk a w err e) = roster e"
  "stats_ok e \<Longrightarrow> stats_ok (record_action lk a w err e)"
  by (auto simp: record_action_def run_part_def roster_def stats_ok_def Let_def)

lemma after_call_parts [simp]:
  "run_part (after_call c sent e) = run_part e" "roster (after_call c sent e) = roster e"
  "stats_ok (after_call c sent e) = stats_ok e"
  by (simp_all add: after_call_def run_part_def roster_def stats_ok_def)

lemma update_projects_parts [simp]:
  "run_part (e\<lparr>en_projects := ps\<rparr>) = run_part e" "stats_ok (e\<lparr>en_projects := ps\<rparr>) = stats_ok e"
  "run_part (e\<lparr>en_teams := ts\<rparr>) = run_part e" "stats_ok (e\<lparr>en_teams := ts\<rparr>) = stats_ok e"
  by (simp_all add: run_part_def stats_ok_def)

lemma update_tasks_roster [simp]:
  "roster (e\<lparr>en_projects := update_first P (\<lambda>q. q\<lparr>owned_tasks := f q\<rparr>) (en_projects e)\<rparr>) = roster e"
  by (simp add: roster_def map_update_first)

lemma view_board_parts [simp]:
  "run_part (view_board lk e) = run_part e" "roster (view_board lk e) = roster e"
  "stats_ok e \<Longrightarrow> stats_ok (view_board lk e)"
  by (simp_all add: view_board_def Let_def split: prod.split)

lemma create_task_in_parts [simp]:
  "run_part (create_task_in lk q e) = run_part e" "roster (create_task_in lk q e) = roster e"
  "stats_ok e \<Longrightarrow> stats_ok (create_task_in lk q e)"
  unfolding create_task_in_def Let_def by (simp_all split: prod.split sum.split)

lemma progress_task_parts [simp]:
  "run_part (progress_task lk a b c e) = run_part e" "roster (progress_task lk a b c e) = roster e"
  "stats_ok e \<Longrightarrow> stats_ok (progress_task lk a b c e)"
  unfolding progress_task_def Let_def by (simp_all split: prod.split sum.split)

lemma at_stage_parts [simp]:
  "en_runner (at_stage r e) = r" "roster (at_stage r e) = roster e" "stats_ok (at_stage r e) = stats_ok e"
  by (simp_all add: at_stage_def roster_def stats_ok_def)

lemma hire_parts:
  "run_part (hire lk i e) = run_part e" "stats_ok e \<Longrightarrow> stats_ok (hire lk i e)"
  "roster (hire lk i e) = roster e \<or> (\<exists>u. roster (hire lk i e) =
     ((en_teams e)[i mod 5 := (en_teams e ! (i mod 5))\<lparr>worker_ids := worker_ids (en_teams e ! (i mod 5)) @ [u]\<rparr>],
      map team_index (en_projects e)))"
proof -
  obtain c sent res where post: "post_user (lk_net lk) (lk_title lk) (''sim.'' @ en_run_session e @ ''.'' @ pad 2 (i + 1) @ ''@example.test'') (en_api e)
      = (c, sent, res)"
    by (cases "post_user (lk_net lk) (lk_title lk) (''sim.'' @ en_run_session e @ ''.'' @ pad 2 (i + 1) @ ''@example.test'') (en_api e)")
  show "run_part (hire lk i e) = run_part e" "stats_ok e \<Longrightarrow> stats_ok (hire lk i e)"
    unfolding hire_def post Let_def by (simp_all split: sum.split)
  show "roster (hire lk i e) = roster e \<or> (\<exists>u. roster (hire lk i e) =
     ((en_teams e)[i mod 5 := (en_teams e ! (i mod 5))\<lparr>worker_ids := worker_ids (en_teams e ! (i mod 5)) @ [u]\<rparr>],
      map team_index (en_projects e)))"
    unfolding hire_def post Let_def team_count_def
    by (cases res) (auto simp: roster_def after_call_def record_action_def Let_def)
qed

lemma create_project_for_parts:
  assumes "create_project_for lk i e = (e', r)"
  shows "run_part e' = run_part e" "stats_ok e \<Longrightarrow> stats_ok e'"
    "roster e' = (case r of None \<Rightarrow> roster e
       | Some pid \<Rightarrow> ((en_teams e)[i := (en_teams e ! i)\<lparr>project_ids := project_ids (en_teams e ! i) @ [pid]\<rparr>],
                      map team_index (en_projects e) @ [i]))"
proof -
  obtain c sent res where post: "post_project (lk_net lk) (lk_title lk) (lk_text lk) (en_api e) = (c, sent, res)"
    by (cases "post_project (lk_net lk) (lk_title lk) (lk_text lk) (en_api e)")
  show "run_part e' = run_part e" "stats_ok e \<Longrightarrow> stats_ok e'"
    "roster e' = (case r of None \<Rightarrow> roster e
       | Some pid \<Rightarrow> ((en_teams e)[i := (en_teams e ! i)\<lparr>project_ids := project_ids (en_teams e ! i) @ [pid]\<rparr>],
                      map team_index (en_projects e) @ [i]))"
    using assms unfolding create_project_for_def post Let_def
    by (cases res; auto simp: run_part_def stats_ok_def roster_def after_call_def record_action_def Let_def)+
qed

section \<open>The invariant\<close>

definition hired_at_most :: "runner \<Rightarrow> nat \<Rightarrow> nat" where
  "hired_at_most r k = (case r of Booting \<Rightarrow> 0 | Hiring i \<Rightarrow> (i + 4 - k) div 5 | _ \<Rightarrow> 10)"

definition founded_at_most :: "runner \<Rightarrow> nat \<Rightarrow> nat" where
  "founded_at_most r k =
     (case r of Booting \<Rightarrow> 0 | Hiring i \<Rightarrow> 0 | Founding i \<Rightarrow> if k < i then 1 else 0
      | Stocking i pid n \<Rightarrow> if k \<le> i then 1 else 0 | _ \<Rightarrow> 2)"

definition stage_ok :: "runner \<Rightarrow> team list \<Rightarrow> bool" where
  "stage_ok r ts =
     (case r of Idle \<Rightarrow> length ts \<le> 5 | Booting \<Rightarrow> ts = [] | Hiring i \<Rightarrow> length ts = 5 \<and> i \<le> 50
      | Founding i \<Rightarrow> length ts = 5 \<and> i \<le> 5 | Stocking i pid n \<Rightarrow> length ts = 5 \<and> i < 5 \<and> n \<le> 2 | _ \<Rightarrow> length ts = 5)"

definition roster_ok :: "runner \<Rightarrow> team list \<times> nat list \<Rightarrow> bool" where
  "roster_ok r x \<longleftrightarrow>
     stage_ok r (fst x) \<and> (\<forall>i \<in> set (snd x). i < length (fst x))
     \<and> (\<forall>k < length (fst x). length (worker_ids (fst x ! k)) \<le> hired_at_most r k
          \<and> length (project_ids (fst x ! k)) = count_list (snd x) k \<and> count_list (snd x) k \<le> founded_at_most r k)"

definition run_ok :: "engine \<Rightarrow> bool" where
  "run_ok e \<longleftrightarrow>
     1 / 4 \<le> en_speed e \<and> en_speed e \<le> 10 \<and> (en_running e \<longleftrightarrow> en_runner e \<noteq> Idle)
     \<and> (if en_running e
        then en_has_cancel e \<and> en_session e = en_run_session e \<and> en_phase e \<in> {''initializing'', ''running'', ''stopping''}
          \<and> (en_phase e = ''stopping'' \<longrightarrow> en_ctx_done e)
        else en_phase e = ''stopped'' \<and> \<not> en_has_cancel e)"

definition engine_ok :: "engine \<Rightarrow> bool" where
  "engine_ok e \<longleftrightarrow> stats_ok e \<and> run_ok e \<and> roster_ok (en_runner e) (roster e)"

lemma run_ok_part: "run_part e = run_part e' \<Longrightarrow> run_ok e = run_ok e'"
  by (simp add: run_part_def run_ok_def)

lemma run_ok_at_stage: "run_part e' = run_part e \<Longrightarrow> run_ok e \<Longrightarrow> en_runner e \<noteq> Idle \<Longrightarrow> r \<noteq> Idle \<Longrightarrow> run_ok (at_stage r e')"
  by (auto simp: run_part_def run_ok_def at_stage_def)

lemma roster_ok_weaken:
  assumes "roster_ok r x" and "stage_ok r' (fst x)"
    and "\<And>k. k < length (fst x) \<Longrightarrow> hired_at_most r k \<le> hired_at_most r' k \<and> founded_at_most r k \<le> founded_at_most r' k"
  shows "roster_ok r' x"
  using assms unfolding roster_ok_def by (meson le_trans)

lemma end_run_ok: "engine_ok e \<Longrightarrow> engine_ok (end_run e)"
proof -
  assume e: "engine_ok e"
  have "roster_ok Idle (roster e)"
  proof (rule roster_ok_weaken)
    show "roster_ok (en_runner e) (roster e)" using e by (simp add: engine_ok_def)
    then show "stage_ok Idle (fst (roster e))" by (auto simp: roster_ok_def stage_ok_def split: runner.splits)
    fix k assume "k < length (fst (roster e))"
    then show "hired_at_most (en_runner e) k \<le> hired_at_most Idle k \<and> founded_at_most (en_runner e) k \<le> founded_at_most Idle k"
      using \<open>roster_ok (en_runner e) (roster e)\<close>
      by (auto simp: roster_ok_def stage_ok_def hired_at_most_def founded_at_most_def split: runner.splits)
  qed
  with e show ?thesis
    by (auto simp: engine_ok_def end_run_def run_ok_def at_stage_def roster_def stats_ok_def)
qed

section \<open>Every step keeps the invariant\<close>

lemma hire_roster:
  assumes "roster_ok (Hiring i) (roster e)" and "i < 50"
  shows "roster_ok (Hiring (i + 1)) (roster (hire lk i e))"
proof -
  have grow: "hired_at_most (Hiring i) k \<le> hired_at_most (Hiring (i + 1)) k" for k
    by (simp add: hired_at_most_def div_le_mono)
  have same: "roster_ok (Hiring (i + 1)) (roster e)"
    by (rule roster_ok_weaken [OF assms(1)]) (use assms grow in \<open>auto simp: roster_ok_def stage_ok_def founded_at_most_def\<close>)
  from hire_parts(3) [of lk i e] show ?thesis
  proof
    assume "\<exists>u. roster (hire lk i e) =
     ((en_teams e)[i mod 5 := (en_teams e ! (i mod 5))\<lparr>worker_ids := worker_ids (en_teams e ! (i mod 5)) @ [u]\<rparr>],
      map team_index (en_projects e))"
    then obtain u where new: "roster (hire lk i e) =
     ((en_teams e)[i mod 5 := (en_teams e ! (i mod 5))\<lparr>worker_ids := worker_ids (en_teams e ! (i mod 5)) @ [u]\<rparr>],
      map team_index (en_projects e))" by blast
    have "i = 5 * (i div 5) + i mod 5" by simp
    then have "i + 1 + 4 - i mod 5 = 5 * (i div 5) + 5" "i + 4 - i mod 5 = 5 * (i div 5) + 4" by linarith+
    then have "(i + 1 + 4 - i mod 5) div 5 = (i + 4 - i mod 5) div 5 + 1" by simp
    moreover have "length (worker_ids (en_teams e ! (i mod 5))) \<le> (i + 4 - i mod 5) div 5"
      using assms by (simp add: roster_ok_def roster_def stage_ok_def hired_at_most_def)
    ultimately have "Suc (length (worker_ids (en_teams e ! (i mod 5)))) \<le> hired_at_most (Hiring (i + 1)) (i mod 5)"
      by (simp add: hired_at_most_def)
    with same show ?thesis
      unfolding new by (auto simp: roster_ok_def roster_def stage_ok_def nth_list_update)
  qed (use same in simp)
qed

lemma found_roster:
  assumes "create_project_for lk i e = (e', Some pid)" and "roster_ok r (roster e)" and "i < length (en_teams e)"
    and "stage_ok r' (en_teams e)" and "count_list (map team_index (en_projects e)) i < founded_at_most r' i"
    and "\<And>k. k < length (en_teams e) \<Longrightarrow> hired_at_most r k \<le> hired_at_most r' k \<and> founded_at_most r k \<le> founded_at_most r' k"
  shows "roster_ok r' (roster e')"
proof -
  have new: "roster e' = ((en_teams e)[i := (en_teams e ! i)\<lparr>project_ids := project_ids (en_teams e ! i) @ [pid]\<rparr>],
      map team_index (en_projects e) @ [i])"
    using create_project_for_parts(3) [OF assms(1)] by simp
  have "roster_ok r' (roster e)"
    by (rule roster_ok_weaken [OF assms(2)]) (use assms in \<open>auto simp: roster_def\<close>)
  moreover have "stage_ok r' ((en_teams e)[i := t])" for t
    using assms(4) by (auto simp: stage_ok_def split: runner.splits)
  ultimately show ?thesis
    using assms(3,5) unfolding new by (auto simp: roster_ok_def roster_def nth_list_update)
qed

lemma roster_same_limits:
  assumes "roster_ok r (roster e)" and "roster e' = roster e" and "stage_ok r' (en_teams e)"
    and "\<And>k. k < length (en_teams e) \<Longrightarrow> hired_at_most r k \<le> hired_at_most r' k \<and> founded_at_most r k \<le> founded_at_most r' k"
  shows "roster_ok r' (roster e')"
  unfolding assms(2) by (rule roster_ok_weaken [OF assms(1)]) (use assms(3,4) in \<open>auto simp: roster_def\<close>)

lemma create_another_project_parts:
  assumes "roster_ok Acting (roster e)"
  shows "run_part (create_another_project lk e) = run_part e"
    "stats_ok e \<Longrightarrow> stats_ok (create_another_project lk e)"
    "roster_ok Pausing (roster (create_another_project lk e))"
proof -
  let ?i = "pick (lk_pick lk) (eligible_teams e)"
  obtain e' r where made: "create_project_for lk ?i e = (e', r)" by fastforce
  note parts = create_project_for_parts [OF made]
  show "run_part (create_another_project lk e) = run_part e" "stats_ok e \<Longrightarrow> stats_ok (create_another_project lk e)"
    using parts(1,2) made by (simp_all add: create_another_project_def)
  have same: "roster_ok Pausing (roster e')" if "roster e' = roster e" for e'
    by (rule roster_same_limits [OF assms that])
      (use assms in \<open>auto simp: roster_ok_def roster_def stage_ok_def hired_at_most_def founded_at_most_def\<close>)
  have found: "roster_ok Pausing (roster e')" if "eligible_teams e \<noteq> []"
  proof (cases r)
    case (Some pid)
    have "?i \<in> set (eligible_teams e)" by (rule pick_in [OF that])
    then have i: "?i < length (en_teams e)" "length (project_ids (en_teams e ! ?i)) < 2" by (auto simp: eligible_teams_def)
    show ?thesis
      by (rule found_roster [OF made [unfolded Some] assms i(1)])
        (use assms i in \<open>auto simp: roster_ok_def roster_def stage_ok_def hired_at_most_def founded_at_most_def\<close>)
  qed (use parts(3) same in simp)
  show "roster_ok Pausing (roster (create_another_project lk e))"
    using same found made by (simp add: create_another_project_def)
qed

lemma run_action_parts:
  assumes "roster_ok Acting (roster e)"
  shows "run_part (run_action lk e) = run_part e" "stats_ok e \<Longrightarrow> stats_ok (run_action lk e)"
    "roster_ok Pausing (roster (run_action lk e))"
proof -
  have same: "roster_ok Pausing (roster e)"
    by (rule roster_same_limits [OF assms refl])
      (use assms in \<open>auto simp: roster_ok_def roster_def stage_ok_def hired_at_most_def founded_at_most_def\<close>)
  show "run_part (run_action lk e) = run_part e" "stats_ok e \<Longrightarrow> stats_ok (run_action lk e)"
    "roster_ok Pausing (roster (run_action lk e))"
    using create_another_project_parts [OF assms, of lk] same by (simp_all add: run_action_def Let_def)
qed

lemmas limits = hired_at_most_def founded_at_most_def stage_ok_def

lemma runner_step_ok:
  assumes "engine_ok e"
  shows "engine_ok (runner_step lk e)"
proof -
  have ok: "stats_ok e" "run_ok e" and r: "roster_ok (en_runner e) (roster e)" using assms by (simp_all add: engine_ok_def)
  have ended: "engine_ok (end_run e)" by (rule end_run_ok [OF assms])
  have moved: "engine_ok (at_stage st e')"
    if "run_part e' = run_part e" "stats_ok e'" "en_runner e \<noteq> Idle" "st \<noteq> Idle" "roster_ok st (roster e')" for st e'
    using that run_ok_at_stage [OF that(1) ok(2)] by (simp add: engine_ok_def)
  have kept: "engine_ok (at_stage st e)" if "en_runner e \<noteq> Idle" "st \<noteq> Idle" "stage_ok st (en_teams e)"
    "\<And>k. k < length (en_teams e) \<Longrightarrow>
      hired_at_most (en_runner e) k \<le> hired_at_most st k \<and> founded_at_most (en_runner e) k \<le> founded_at_most st k" for st
    using moved [OF refl ok(1) that(1,2)] roster_same_limits [OF r refl that(3,4)] by blast
  have st: "stage_ok (en_runner e) (en_teams e)" using r by (simp add: roster_ok_def roster_def)
  show ?thesis
  proof (cases "en_runner e")
    case Idle
    then show ?thesis using assms by (simp add: runner_step_def)
  next
    case Booting
    then show ?thesis
      using moved [of "e\<lparr>en_teams := map (\<lambda>i. \<lparr>team_name = lk_names lk i, worker_ids = [], project_ids = []\<rparr>) [0..<team_count]\<rparr>" "Hiring 0"] ok(1) r
      by (auto simp: runner_step_def roster_ok_def roster_def limits team_count_def)
  next
    case (Hiring i)
    have "engine_ok (at_stage (Hiring (i + 1)) (hire lk i e))" if "i < 50"
      using that Hiring r hire_parts(1,2) ok hire_roster [of i e lk] by (intro moved) auto
    moreover have "engine_ok (at_stage (Founding 0) e)"
      using Hiring st by (intro kept) (auto simp: limits)
    ultimately show ?thesis using ended Hiring by (auto simp: runner_step_def workforce_size_def)
  next
    case (Founding i)
    obtain e' res where made: "create_project_for lk i e = (e', res)" by fastforce
    note parts = create_project_for_parts [OF made]
    have "engine_ok (at_stage (Founding (i + 1)) e')" if "res = None" "i < 5"
      using that parts Founding ok st by (intro moved roster_same_limits [OF r]) (auto simp: limits)
    moreover have "engine_ok (at_stage (Stocking i pid 2) e')" if "res = Some pid" "i < 5" for pid
      using that parts(1,2) Founding ok st r
      by (intro moved found_roster [OF made [unfolded that(1)] r]) (auto simp: limits roster_ok_def roster_def)
    moreover have "engine_ok (at_stage Settled e)"
      using Founding st by (intro kept) (auto simp: limits)
    ultimately show ?thesis
      using ended Founding made by (auto simp: runner_step_def team_count_def split: option.split)
  next
    case (Stocking i pid k)
    have "engine_ok (at_stage (Stocking i pid j) (create_task_in lk pid e))" if "k = Suc j" for j
      using that Stocking ok st by (intro moved roster_same_limits [OF r]) (auto simp: limits)
    moreover have "engine_ok (at_stage (Founding (i + 1)) e)"
      using Stocking st by (intro kept) (auto simp: limits)
    ultimately show ?thesis using Stocking by (auto simp: runner_step_def split: nat.split)
  next
    case Settled
    then show ?thesis
      using kept [of Acting] ok st by (auto simp: runner_step_def limits engine_ok_def stats_ok_def run_ok_def roster_def at_stage_def)
  next
    case Acting
    have "roster_ok Acting (roster e)" using Acting r by simp
    from run_action_parts [OF this, of lk] have "engine_ok (at_stage Pausing (run_action lk e))"
      using Acting ok by (intro moved) auto
    then show ?thesis using ended Acting by (simp add: runner_step_def)
  next
    case Pausing
    then show ?thesis
      using ended kept [of Acting] assms st by (auto simp: runner_step_def limits)
  qed
qed

lemma fst_stop_engine:
  "fst (stop_engine e) = (if en_running e \<and> en_has_cancel e then e\<lparr>en_phase := ''stopping'', en_ctx_done := True\<rparr> else e)"
  by (simp add: stop_engine_def Let_def)

lemma stop_engine_ok: "engine_ok e \<Longrightarrow> engine_ok (fst (stop_engine e))"
  unfolding fst_stop_engine by (simp add: engine_ok_def run_ok_def stats_ok_def roster_def)

lemma start_engine_ok:
  assumes "engine_ok e"
  shows "engine_ok (fst (start_engine ce e))"
proof -
  obtain c sent res where h: "get_health (ctl_net ce) (en_api e) = (c, sent, res)"
    by (cases "get_health (ctl_net ce) (en_api e)")
  have called: "engine_ok (after_call c sent e)"
    using assms run_ok_part [of "after_call c sent e" e] by (simp add: engine_ok_def) (simp add: after_call_def)
  show ?thesis
  proof (cases "res = Inl (projl res) \<or> en_running (after_call c sent e)")
    case True
    then show ?thesis using called by (cases res) (auto simp: start_engine_def h Let_def)
  next
    case False
    have "1 / 4 \<le> en_speed e" "en_speed e \<le> 10" using assms by (simp_all add: engine_ok_def run_ok_def)
    with False show ?thesis
      by (cases res) (simp_all add: start_engine_def h Let_def engine_ok_def run_ok_def stats_ok_def roster_def roster_ok_def limits
          no_stats_def after_call_def)
  qed
qed

lemma set_speed_ok: "engine_ok e \<Longrightarrow> engine_ok (fst (set_speed s e))"
  by (auto simp: set_speed_def Let_def engine_ok_def run_ok_def stats_ok_def roster_def)

lemma control_ok: "engine_ok e \<Longrightarrow> engine_ok (fst (control ce r e))"
  using start_engine_ok [of e ce] stop_engine_ok [of e] set_speed_ok [of e]
  by (auto simp: control_def patch_speed_def split: dispatch.split control_route.split sum.split prod.split option.split)
    (metis fst_conv)+

lemma feed_ok: "engine_ok e \<Longrightarrow> engine_ok (feed x e)"
  by (cases x) (simp_all add: feed_def runner_step_ok control_ok stop_engine_ok)

lemma feeds_ok: "engine_ok e \<Longrightarrow> engine_ok (fold feed xs e)"
  by (induction xs arbitrary: e) (simp_all add: feed_ok)

lemma new_engine_ok: "engine_ok (new_engine target oa)"
  by (simp add: engine_ok_def new_engine_def run_ok_def stats_ok_def roster_def roster_ok_def limits no_stats_def)

section \<open>A stopped run ends\<close>

text \<open>How many turns a run takes at most after its context is done.\<close>

definition turns_left :: "runner \<Rightarrow> nat" where
  "turns_left r =
     (case r of Idle \<Rightarrow> 0 | Booting \<Rightarrow> 3 | Hiring i \<Rightarrow> if i < 50 then 1 else 2 | Founding i \<Rightarrow> 1
      | Stocking i pid k \<Rightarrow> k + 2 | Settled \<Rightarrow> 2 | Acting \<Rightarrow> 1 | Pausing \<Rightarrow> 2)"

definition winding_down :: "engine \<Rightarrow> bool" where
  "winding_down e \<longleftrightarrow> engine_ok e \<and> en_running e \<and> en_ctx_done e"

lemma run_partD:
  "run_part e = run_part e' \<Longrightarrow> en_running e = en_running e' \<and> en_ctx_done e = en_ctx_done e' \<and> en_runner e = en_runner e'"
  by (simp add: run_part_def)

lemma end_run_stops: "engine_ok e \<Longrightarrow> en_running e \<Longrightarrow> \<not> en_running (end_run e)"
  by (simp add: end_run_def engine_ok_def run_ok_def at_stage_def)

lemma turn_winds_down:
  assumes "winding_down e" and "en_running (runner_step lk e)"
  shows "winding_down (runner_step lk e)" and "turns_left (en_runner (runner_step lk e)) < turns_left (en_runner e)"
proof -
  have ok: "engine_ok e" "en_running e" "en_ctx_done e" using assms(1) by (simp_all add: winding_down_def)
  have "\<not> en_running (end_run e)" by (rule end_run_stops [OF ok(1,2)])
  moreover have "en_ctx_done (create_task_in lk q e)" for q
    using run_partD [OF create_task_in_parts(1)] ok(3) by simp
  ultimately have "en_ctx_done (runner_step lk e) \<and> turns_left (en_runner (runner_step lk e)) < turns_left (en_runner e)"
    using assms(2) ok
    by (cases "en_runner e")
      (auto simp: runner_step_def turns_left_def at_stage_def engine_ok_def run_ok_def workforce_size_def team_count_def
        split: if_splits nat.splits)
  with assms(2) runner_step_ok [OF ok(1)]
  show "winding_down (runner_step lk e)" "turns_left (en_runner (runner_step lk e)) < turns_left (en_runner e)"
    by (simp_all add: winding_down_def)
qed

lemma control_keeps_winding_down:
  assumes "winding_down e" and "\<not> is_turn x"
  shows "winding_down (feed x e)" and "en_runner (feed x e) = en_runner e"
proof -
  have run: "engine_ok e" "en_running e" "en_ctx_done e" using assms(1) by (simp_all add: winding_down_def)
  have start: "en_running (fst (start_engine ce e)) \<and> en_ctx_done (fst (start_engine ce e)) \<and> en_runner (fst (start_engine ce e)) = en_runner e"
    for ce
    using run(2,3) by (auto simp: start_engine_def after_call_def Let_def split: prod.split sum.split)
  have speed: "en_running (fst (set_speed s e)) \<and> en_ctx_done (fst (set_speed s e)) \<and> en_runner (fst (set_speed s e)) = en_runner e" for s
    using run by (simp add: set_speed_def Let_def)
  have "en_running (feed x e) \<and> en_ctx_done (feed x e) \<and> en_runner (feed x e) = en_runner e"
  proof (cases x)
    case (Control ce r)
    then show ?thesis
      using start [of ce] speed run fst_stop_engine [of e]
      by (auto simp: feed_def control_def patch_speed_def split: dispatch.split control_route.split sum.split prod.split option.split)
        (metis fst_conv)+
  qed (use assms(2) run fst_stop_engine [of e] in \<open>auto simp: feed_def\<close>)
  with feed_ok [OF run(1)] show "winding_down (feed x e)" "en_runner (feed x e) = en_runner e"
    by (simp_all add: winding_down_def)
qed

lemma winds_down:
  assumes "winding_down e" and "turns_left (en_runner e) \<le> length (filter is_turn ys)"
  shows "\<exists>zs. prefix zs ys \<and> \<not> en_running (fold feed zs e)"
  using assms
proof (induction ys arbitrary: e)
  case Nil
  then show ?case
    by (auto simp: winding_down_def engine_ok_def run_ok_def turns_left_def split: runner.splits if_splits)
next
  case (Cons x ys)
  have "\<exists>zs. prefix zs ys \<and> \<not> en_running (fold feed zs (feed x e))"
  proof (cases "en_running (feed x e)")
    case True
    show ?thesis
    proof (cases x)
      case (Turn lk)
      then have "winding_down (feed x e)" "turns_left (en_runner (feed x e)) < turns_left (en_runner e)"
        using turn_winds_down [OF Cons.prems(1), of lk] True by (simp_all add: feed_def)
      with Cons.IH [of "feed x e"] Cons.prems(2) Turn show ?thesis by simp
    qed (use Cons.IH [of "feed x e"] Cons.prems control_keeps_winding_down [of e x] in auto)
  qed (intro exI [of _ "[]"], simp)
  then obtain zs where "prefix zs ys" "\<not> en_running (fold feed zs (feed x e))" by blast
  then show ?case by (intro exI [of _ "x # zs"]) simp
qed

section \<open>Pace\<close>

lemma round_values:
  "round64 (15 / 2) = 15 / 2" "round64 300 = 300" "round64 30 = 30" "round64 200000000 = 200000000"
  "round64 8000000000 = 8000000000" "round64 2000000000 = 2000000000"
  using round64_exact [of 15 "- 1"] round64_exact [of 300 0] round64_exact [of 30 0] round64_exact [of 200000000 0]
    round64_exact [of 8000000000 0] round64_exact [of 2000000000 0]
  by simp_all

lemma pace:
  assumes "1 / 4 \<le> s" and "s \<le> 10"
  shows "15 / 2 \<le> round64 (base_rate * s)" "round64 (base_rate * s) \<le> 300"
    "200 * millisecond \<le> pause_of s" "pause_of s \<le> 8 * second"
proof -
  let ?r = "round64 (base_rate * s)"
  show r: "15 / 2 \<le> ?r" "?r \<le> 300"
    using assms round64_mono [of "15 / 2" "base_rate * s"] round64_mono [of "base_rate * s" 300]
    by (simp_all add: round_values base_rate_def)
  then have "200000000 \<le> of_int minute / ?r" "of_int minute / ?r \<le> 8000000000"
    by (simp_all add: duration_defs field_simps)
  then have "200000000 \<le> round64 (of_int minute / ?r)" "round64 (of_int minute / ?r) \<le> 8000000000"
    using round64_mono round_values by metis+
  then show "200 * millisecond \<le> pause_of s" "pause_of s \<le> 8 * second"
    by (simp_all add: pause_of_def duration_defs floor_le_iff le_floor_iff)
qed

end
