(* ===== verification/Startup_Properties.thy ===== *)
theory Startup_Properties
  imports Startup Sim_Laws
begin

text \<open>How the programs start: what a successful start means, and what a failing step leaves behind.\<close>

section \<open>Laws\<close>

lemma start_up_result:
  "start_up ss ds =
     (case find (\<lambda>s. fst s \<noteq> None) ss of
        Some s \<Rightarrow> Inl (fst (snd s))
      | None \<Rightarrow> Inr (concat (rev (map (\<lambda>s. snd (snd s)) ss)) @ ds))"
  by (induction ss ds rule: start_up.induct) (auto split: option.splits)

lemma none_failed: "find (\<lambda>s. fst s \<noteq> None) ss = None \<longleftrightarrow> list_all (\<lambda>s. fst s = None) ss"
  by (induction ss) simp_all

lemma wait_from_answered:
  "earlier \<noteq> None \<or> 0 < n \<Longrightarrow>
   wait_from ping ended k n earlier = None
     \<longleftrightarrow> (\<exists>j < n. ping (k + j) = None \<and> (\<forall>i < j. ping (k + i) \<noteq> None \<and> ended (k + i) = None))"
proof (induction ping ended k n earlier rule: wait_from.induct)
  case (2 ping ended k n earlier)
  have shift: "(\<exists>j < Suc n. P j) \<longleftrightarrow> P 0 \<or> (\<exists>j < n. P (Suc j))" for P
    by (auto simp: less_Suc_eq_0_disj)
  have all: "(\<forall>i < Suc j. P i) \<longleftrightarrow> P 0 \<and> (\<forall>i < j. P (Suc i))" for P j
    by (auto simp: less_Suc_eq_0_disj)
  show ?case
  proof (cases "ping k")
    case (Some err)
    then show ?thesis using 2 Some by (cases "ended k") (simp_all add: shift all)
  qed (simp add: shift)
qed simp

lemma verifier_configured: "verifier_failure vars = None"
  by (simp add: verifier_failure_def new_verifier_def auth_config_of_def env_or_def)

text \<open>What the handlers of a list report when each gets the record in turn.\<close>

fun handler_errors :: "('h \<Rightarrow> log \<Rightarrow> 's \<Rightarrow> 's \<times> failure) \<Rightarrow> log \<Rightarrow> 'h list \<Rightarrow> 's \<Rightarrow> failure list" where
  "handler_errors handle r [] s = []"
| "handler_errors handle r (h # hs) s = (case handle h r s of (s', err) \<Rightarrow> err # handler_errors handle r hs s')"

fun first_failure :: "failure list \<Rightarrow> failure" where
  "first_failure [] = None"
| "first_failure (f # fs) = (case f of None \<Rightarrow> first_failure fs | Some err \<Rightarrow> Some err)"

lemma multi_handle_spec:
  "multi_handle en handle r hs first s =
     (fold (\<lambda>h s. fst (handle h r s)) (filter (\<lambda>h. en h (fst r)) hs) s,
      first_failure (first # handler_errors handle r (filter (\<lambda>h. en h (fst r)) hs) s))"
  by (induction en handle r hs first s rule: multi_handle.induct) (auto split: option.splits prod.splits)

lemma console_drops_debug: "console_enabled l \<longleftrightarrow> l \<noteq> Debug"
  by (cases l) (simp_all add: console_enabled_def less_eq_level_def)

lemma telemetry_closers:
  "snd (initialize_telemetry vars te service environment t) = Inr cs \<Longrightarrow> cs = [''profiler'', ''tracer'', ''meter'', ''logger'']"
  by (auto simp: initialize_telemetry_def split: sum.splits prod.splits option.splits)

text \<open>No constructor of the telemetry fails; the profiler is only started when it has an address.\<close>

definition telemetry_works :: "(string \<Rightarrow> string) \<Rightarrow> telemetry_env \<Rightarrow> bool" where
  "telemetry_works vars te \<longleftrightarrow>
     te_log_exporter te = None \<and> te_metric_exporter te = None \<and> te_trace_exporter te = None
     \<and> list_all (\<lambda>signal. te_resource te signal = None) [''logs'', ''metrics'', ''traces'']
     \<and> (vars ''PYROSCOPE_SERVER_ADDRESS'' = [] \<or> te_profiler te = None)"

lemmas telemetry_defs = new_logger_for_def new_meter_provider_for_def new_tracer_provider_for_def new_profiler_def env_or_def

lemma telemetry_initialized:
  "(\<exists>cs. snd (initialize_telemetry vars te service environment t) = Inr cs) \<longleftrightarrow> telemetry_works vars te"
  by (auto simp: initialize_telemetry_def telemetry_defs telemetry_works_def split: option.splits)

lemma telemetry_steps: "list_all (\<lambda>s. fst s = None) (server_steps pe) \<Longrightarrow> telemetry_works (pe_vars pe) (pe_telemetry pe)"
  by (auto simp: server_steps_def Let_def telemetry_defs telemetry_works_def failure_of_def split: option.splits if_splits)

lemma server_start:
  "case listening (server_main pe) of
     Some a \<Rightarrow> exit_code (server_main pe) = 0 \<and> a \<noteq> []
       \<and> list_all (\<lambda>s. fst s = None) (server_steps pe) \<and> telemetry_works (pe_vars pe) (pe_telemetry pe)
       \<and> shut_down (server_main pe) = [''pool'', ''profiler'', ''tracer'', ''meter'', ''logger'']
       \<and> (\<exists>k < 30. pe_ping pe k = None \<and> list_all (\<lambda>j. pe_ping pe j \<noteq> None \<and> pe_context pe j = None) [0..<k])
   | None \<Rightarrow> exit_code (server_main pe) = 1 \<and> shut_down (server_main pe) = []
       \<and> (\<exists>s. find (\<lambda>s. fst s \<noteq> None) (server_steps pe) = Some s \<and> lines (server_main pe) = [(Error, fst (snd s))]
           \<and> fst (snd s) \<noteq> ''initialize token verifier'')"
proof (cases "find (\<lambda>s. fst s \<noteq> None) (server_steps pe)")
  case None
  then have all: "list_all (\<lambda>s. fst s = None) (server_steps pe)" by (simp only: none_failed)
  then have "wait_for_database (pe_ping pe) (pe_context pe) = None" by (simp add: server_steps_def Let_def)
  then have "\<exists>k < 30. pe_ping pe k = None \<and> list_all (\<lambda>j. pe_ping pe j \<noteq> None \<and> pe_context pe j = None) [0..<k]"
    using wait_from_answered [of None 30 "pe_ping pe" "pe_context pe" 0]
    by (auto simp: wait_for_database_def list_all_iff)
  with all None telemetry_steps [OF all] show ?thesis by (simp add: server_main_def start_up_result) (simp add: server_steps_def Let_def env_or_def)
next
  case (Some s)
  then have "fst s \<noteq> None" "s \<in> set (server_steps pe)" by (auto simp: find_Some_iff)
  then have "fst (snd s) \<noteq> ''initialize token verifier''" by (auto simp: server_steps_def Let_def verifier_configured)
  with Some show ?thesis by (simp add: server_main_def start_up_result exits_def)
qed

lemma relay_start:
  "case listening (relay_main pe) of
     Some a \<Rightarrow> exit_code (relay_main pe) = 0 \<and> a \<noteq> [] \<and> telemetry_works (pe_vars pe) (pe_telemetry pe)
       \<and> list_all (\<lambda>s. fst s = None) (relay_steps pe) \<and> pe_host pe \<noteq> []
       \<and> shut_down (relay_main pe) = [''kafka'', ''pool'', ''profiler'', ''tracer'', ''meter'', ''logger'']
   | None \<Rightarrow> exit_code (relay_main pe) = 1 \<and> shut_down (relay_main pe) = []
       \<and> (case snd (relay_telemetry (pe_vars pe) (pe_telemetry pe) (environment_of (pe_vars pe))) of
            Inl err \<Rightarrow> printed (relay_main pe) = [err] \<and> lines (relay_main pe) = []
          | Inr closers \<Rightarrow> printed (relay_main pe) = []
              \<and> (\<exists>s. find (\<lambda>s. fst s \<noteq> None) (relay_steps pe) = Some s \<and> lines (relay_main pe) = [(Error, fst (snd s))]))"
proof (cases "snd (relay_telemetry (pe_vars pe) (pe_telemetry pe) (environment_of (pe_vars pe)))")
  case (Inr cs)
  then have cs: "cs = [''profiler'', ''tracer'', ''meter'', ''logger'']"
    unfolding relay_telemetry_def by (rule telemetry_closers)
  have works: "telemetry_works (pe_vars pe) (pe_telemetry pe)"
    using Inr telemetry_initialized unfolding relay_telemetry_def by blast
  show ?thesis
  proof (cases "find (\<lambda>s. fst s \<noteq> None) (relay_steps pe)")
    case None
    then have "list_all (\<lambda>s. fst s = None) (relay_steps pe)" by (simp only: none_failed)
    with None Inr cs works show ?thesis
      by (auto simp: relay_main_def start_up_result relay_steps_def new_relay_def Let_def env_or_def split: if_splits)
  qed (simp add: relay_main_def start_up_result Inr exits_def)
qed (simp add: relay_main_def)

lemma realtime_start:
  "case listening (realtime_main pe) of
     Some a \<Rightarrow> exit_code (realtime_main pe) = 0 \<and> a \<noteq> [] \<and> telemetry_works (pe_vars pe) (pe_telemetry pe)
       \<and> list_all (\<lambda>s. fst s = None) (realtime_steps pe)
       \<and> shut_down (realtime_main pe) = [''kafka'', ''profiler'', ''tracer'', ''meter'', ''logger'']
   | None \<Rightarrow> exit_code (realtime_main pe) = 1 \<and> shut_down (realtime_main pe) = []
       \<and> (case snd (realtime_telemetry (pe_vars pe) (pe_telemetry pe) (environment_of (pe_vars pe))) of
            Inl err \<Rightarrow> printed (realtime_main pe) = [err] \<and> lines (realtime_main pe) = []
          | Inr closers \<Rightarrow> printed (realtime_main pe) = []
              \<and> (\<exists>s. find (\<lambda>s. fst s \<noteq> None) (realtime_steps pe) = Some s \<and> lines (realtime_main pe) = [(Error, fst (snd s))]))"
proof (cases "snd (realtime_telemetry (pe_vars pe) (pe_telemetry pe) (environment_of (pe_vars pe)))")
  case (Inr cs)
  then have cs: "cs = [''profiler'', ''tracer'', ''meter'', ''logger'']"
    unfolding realtime_telemetry_def by (rule telemetry_closers)
  have works: "telemetry_works (pe_vars pe) (pe_telemetry pe)"
    using Inr telemetry_initialized unfolding realtime_telemetry_def by blast
  show ?thesis
  proof (cases "find (\<lambda>s. fst s \<noteq> None) (realtime_steps pe)")
    case None
    then have "list_all (\<lambda>s. fst s = None) (realtime_steps pe)" by (simp only: none_failed)
    with None Inr cs works show ?thesis
      by (auto simp: realtime_main_def start_up_result realtime_steps_def Let_def env_or_def split: if_splits)
  qed (simp add: realtime_main_def start_up_result Inr exits_def)
qed (simp add: realtime_main_def)

lemma stopped_engine:
  assumes "engine_ok e"
  shows "en_running (feed Shutdown e) \<Longrightarrow> en_ctx_done (feed Shutdown e)"
  using assms by (auto simp: feed_def fst_stop_engine engine_ok_def run_ok_def split: if_splits)

lemma simulator_start:
  "case listening (fst (simulator_main pe served)) of
     Some a \<Rightarrow> exit_code (fst (simulator_main pe served)) = 0 \<and> a \<noteq> []
       \<and> (pe_vars pe ''PYROSCOPE_SERVER_ADDRESS'' = [] \<or> te_profiler (pe_telemetry pe) = None)
       \<and> shut_down (fst (simulator_main pe served)) = [''profiler'']
       \<and> (if en_running (snd (simulator_main pe served)) then en_ctx_done (snd (simulator_main pe served)) else True)
   | None \<Rightarrow> exit_code (fst (simulator_main pe served)) = 1 \<and> shut_down (fst (simulator_main pe served)) = []
       \<and> te_profiler (pe_telemetry pe) \<noteq> None \<and> pe_vars pe ''PYROSCOPE_SERVER_ADDRESS'' \<noteq> []
       \<and> lines (fst (simulator_main pe served)) = [(Error, ''initialize continuous profiling'')]"
proof (cases "snd (new_profiler (pe_telemetry pe) (env_or (pe_vars pe) ''PYROSCOPE_SERVER_ADDRESS'' []) ''noapp-simulator''
    (environment_of (pe_vars pe)) no_telemetry)")
  case None
  have "engine_ok (fold feed served (simulator_engine (pe_vars pe)))"
    unfolding simulator_engine_def by (rule feeds_ok [OF new_engine_ok])
  note stopped = stopped_engine [OF this]
  have "pe_vars pe ''PYROSCOPE_SERVER_ADDRESS'' = [] \<or> te_profiler (pe_telemetry pe) = None"
    using None by (auto simp: new_profiler_def env_or_def split: option.splits if_splits)
  with None stopped show ?thesis by (simp add: simulator_main_def Let_def env_or_def)
next
  case (Some err)
  then have "te_profiler (pe_telemetry pe) \<noteq> None \<and> pe_vars pe ''PYROSCOPE_SERVER_ADDRESS'' \<noteq> []"
    by (auto simp: new_profiler_def env_or_def split: option.splits if_splits)
  with Some show ?thesis by (simp add: simulator_main_def Let_def exits_def)
qed

section \<open>Properties\<close>

text \<open>C40. Several log handlers behind one are as good as each on its own: the record goes to exactly those
  that are enabled for its level, once each and in order, whether or not an earlier one fails, and the
  first failure is reported; the whole is enabled when one of them is, so that when it is not, handling
  a record does nothing.\<close>

theorem multi_handler_each:
  "multi_handle en handle r hs None s =
     (fold (\<lambda>h s. fst (handle h r s)) (filter (\<lambda>h. en h (fst r)) hs) s,
      first_failure (handler_errors handle r (filter (\<lambda>h. en h (fst r)) hs) s))
   \<and> multi_enabled en l hs = list_ex (\<lambda>h. en h l) hs
   \<and> (multi_enabled en (fst r) hs \<or> multi_handle en handle r hs None s = (s, None))"
proof -
  have enabled: "multi_enabled en l hs = list_ex (\<lambda>h. en h l) hs" for l
    by (induction en l hs rule: multi_enabled.induct) simp_all
  then have "filter (\<lambda>h. en h (fst r)) hs = []" if "\<not> multi_enabled en (fst r) hs"
    using that by (auto simp: list_ex_iff filter_empty_conv)
  with enabled show ?thesis by (auto simp: multi_handle_spec)
qed

text \<open>C36. The four programs start completely or not at all. Each listens only when every step of its start has
  succeeded, the telemetry included (for the simulator that is the profiler alone); for the API that
  means also an answer of the database within 30 attempts, each failed one followed by a second in
  which the process was not told to stop. At the end it has then shut down everything it has set up,
  in reverse order, and exits with 0, and the simulator has cancelled a run that was going on. Otherwise
  it exits with 1 after one message, which names the first step that failed, and nothing that was set
  up is shut down; an incomplete configuration of the verifier is never the reason, since every
  setting has a default.\<close>

theorem programs_start_or_exit:
  "(case listening (server_main pe) of
     Some a \<Rightarrow> exit_code (server_main pe) = 0 \<and> a \<noteq> []
       \<and> list_all (\<lambda>s. fst s = None) (server_steps pe) \<and> telemetry_works (pe_vars pe) (pe_telemetry pe)
       \<and> shut_down (server_main pe) = [''pool'', ''profiler'', ''tracer'', ''meter'', ''logger'']
       \<and> (\<exists>k < 30. pe_ping pe k = None \<and> list_all (\<lambda>j. pe_ping pe j \<noteq> None \<and> pe_context pe j = None) [0..<k])
   | None \<Rightarrow> exit_code (server_main pe) = 1 \<and> shut_down (server_main pe) = []
       \<and> (\<exists>s. find (\<lambda>s. fst s \<noteq> None) (server_steps pe) = Some s \<and> lines (server_main pe) = [(Error, fst (snd s))]
           \<and> fst (snd s) \<noteq> ''initialize token verifier'')) \<and>
   (case listening (relay_main pe) of
     Some a \<Rightarrow> exit_code (relay_main pe) = 0 \<and> a \<noteq> [] \<and> telemetry_works (pe_vars pe) (pe_telemetry pe)
       \<and> list_all (\<lambda>s. fst s = None) (relay_steps pe) \<and> pe_host pe \<noteq> []
       \<and> shut_down (relay_main pe) = [''kafka'', ''pool'', ''profiler'', ''tracer'', ''meter'', ''logger'']
   | None \<Rightarrow> exit_code (relay_main pe) = 1 \<and> shut_down (relay_main pe) = []
       \<and> (case snd (relay_telemetry (pe_vars pe) (pe_telemetry pe) (environment_of (pe_vars pe))) of
            Inl err \<Rightarrow> printed (relay_main pe) = [err] \<and> lines (relay_main pe) = []
          | Inr closers \<Rightarrow> printed (relay_main pe) = []
              \<and> (\<exists>s. find (\<lambda>s. fst s \<noteq> None) (relay_steps pe) = Some s \<and> lines (relay_main pe) = [(Error, fst (snd s))]))) \<and>
   (case listening (realtime_main pe) of
     Some a \<Rightarrow> exit_code (realtime_main pe) = 0 \<and> a \<noteq> [] \<and> telemetry_works (pe_vars pe) (pe_telemetry pe)
       \<and> list_all (\<lambda>s. fst s = None) (realtime_steps pe)
       \<and> shut_down (realtime_main pe) = [''kafka'', ''profiler'', ''tracer'', ''meter'', ''logger'']
   | None \<Rightarrow> exit_code (realtime_main pe) = 1 \<and> shut_down (realtime_main pe) = []
       \<and> (case snd (realtime_telemetry (pe_vars pe) (pe_telemetry pe) (environment_of (pe_vars pe))) of
            Inl err \<Rightarrow> printed (realtime_main pe) = [err] \<and> lines (realtime_main pe) = []
          | Inr closers \<Rightarrow> printed (realtime_main pe) = []
              \<and> (\<exists>s. find (\<lambda>s. fst s \<noteq> None) (realtime_steps pe) = Some s \<and> lines (realtime_main pe) = [(Error, fst (snd s))]))) \<and>
   (case listening (fst (simulator_main pe served)) of
     Some a \<Rightarrow> exit_code (fst (simulator_main pe served)) = 0 \<and> a \<noteq> []
       \<and> (pe_vars pe ''PYROSCOPE_SERVER_ADDRESS'' = [] \<or> te_profiler (pe_telemetry pe) = None)
       \<and> shut_down (fst (simulator_main pe served)) = [''profiler'']
       \<and> (if en_running (snd (simulator_main pe served)) then en_ctx_done (snd (simulator_main pe served)) else True)
   | None \<Rightarrow> exit_code (fst (simulator_main pe served)) = 1 \<and> shut_down (fst (simulator_main pe served)) = []
       \<and> te_profiler (pe_telemetry pe) \<noteq> None \<and> pe_vars pe ''PYROSCOPE_SERVER_ADDRESS'' \<noteq> []
       \<and> lines (fst (simulator_main pe served)) = [(Error, ''initialize continuous profiling'')])"
  using server_start relay_start realtime_start simulator_start by blast

end
