(* ===== verification/Sim_Properties.thy ===== *)
theory Sim_Properties
  imports Sim_Laws
begin

text \<open>The properties of the traffic simulator.\<close>

section \<open>A sample run\<close>

definition sample_network :: network where
  "sample_network =
     \<lparr>net_now = 0, net_later = 0, net_token = Unreachable ''down'', net_reply = Replied 200 ''{}'',
      net_malformed = (\<lambda>url. None), net_explain = (\<lambda>e. [])\<rparr>"

definition sample_luck :: luck where
  "sample_luck =
     \<lparr>lk_roll = 0, lk_pick = 0, lk_pick2 = 0, lk_names = (\<lambda>i. []), lk_title = ''x'', lk_text = ''y'',
      lk_net = sample_network, lk_at = 0, lk_fired = True\<rparr>"

definition sample_control :: control_env where
  "sample_control = \<lparr>ctl_net = sample_network, ctl_nanos = 7, ctl_now = 0\<rparr>"

definition sample_post :: "string \<Rightarrow> request" where
  "sample_post p = \<lparr>req_method = ''POST'', req_path = p, req_body = [], req_authorization = [], req_request_id = []\<rparr>"

definition no_oauth :: oauth_config where
  "no_oauth = \<lparr>token_url = [], client_id = [], client_secret = []\<rparr>"

definition sample_boot :: "sim_input list" where
  "sample_boot = [Control sample_control (sample_post ''/api/start''), Turn sample_luck, Turn sample_luck]"

section \<open>Properties\<close>

text \<open>C10. The simulator in every state it can reach, whatever the control API is asked, whatever the target
  answers and however the dice fall: at most 10 projects, at most 5 teams with at most 10 workers and 2
  projects each (so at most 50 workers), a history of the last 30 actions at most, counters that add up,
  and a phase that fits the run.\<close>

theorem simulator_invariant:
  "let e = fold feed xs (new_engine target oa) in
     length (en_projects e) \<le> 10 \<and> length (en_teams e) \<le> 5
     \<and> list_all (\<lambda>t. length (worker_ids t) \<le> 10 \<and> length (project_ids t) \<le> 2) (en_teams e)
     \<and> st_workers (status_of e) \<le> 50
     \<and> length (en_recent e) = min 30 (total_actions (en_stats e))
     \<and> total_actions (en_stats e) = sum_list (map snd (action_counts (en_stats e)))
     \<and> error_count (en_stats e) \<le> total_actions (en_stats e)
     \<and> en_phase e \<in> (if en_running e then {''initializing'', ''running'', ''stopping''} else {''stopped''})"
proof -
  define e where "e = fold feed xs (new_engine target oa)"
  have ok: "engine_ok e" unfolding e_def by (rule feeds_ok [OF new_engine_ok])
  let ?ts = "en_teams e" and ?ps = "map team_index (en_projects e)"
  have r: "roster_ok (en_runner e) (?ts, ?ps)" using ok by (simp add: engine_ok_def roster_def)
  have teams: "length ?ts \<le> 5" using r by (auto simp: roster_ok_def stage_ok_def split: runner.splits)
  have few: "hired_at_most (en_runner e) k \<le> 10 \<and> founded_at_most (en_runner e) k \<le> 2" for k
    using r by (auto simp: roster_ok_def stage_ok_def hired_at_most_def founded_at_most_def split: runner.splits)
  have team: "length (worker_ids (?ts ! k)) \<le> 10 \<and> length (project_ids (?ts ! k)) = count_list ?ps k
      \<and> count_list ?ps k \<le> 2" if "k < length ?ts" for k
    using r that few [of k] by (fastforce simp: roster_ok_def)
  have "length ?ps = sum (count_list ?ps) {..<length ?ts}"
    using r by (intro sum_count_set [symmetric]) (auto simp: roster_ok_def)
  also have "\<dots> \<le> of_nat (card {..<length ?ts}) * 2" by (rule sum_bounded_above) (use team in auto)
  finally have projects: "length (en_projects e) \<le> 10" using teams by simp
  have all: "list_all (\<lambda>t. length (worker_ids t) \<le> 10 \<and> length (project_ids t) \<le> 2) ?ts"
    using team by (simp add: list_all_length)
  have "sum_list (map (\<lambda>t. length (worker_ids t)) ts) \<le> 10 * length ts"
    if "list_all (\<lambda>t. length (worker_ids t) \<le> 10 \<and> length (project_ids t) \<le> 2) ts" for ts
    using that by (induction ts) auto
  from this [OF all] teams have "st_workers (status_of e) \<le> 50" by (simp add: status_of_def)
  with projects teams all ok show ?thesis
    unfolding e_def [symmetric] Let_def by (auto simp: engine_ok_def stats_ok_def run_ok_def)
qed

text \<open>C33. The pace of the simulator: in every reachable state the pause between two actions, computed
  in double precision and truncated to nanoseconds, lies between 0.2 and 8 seconds, and the rate that
  the status reports between 7.5 and 300 actions a minute; at speed 1 the pause is 2 seconds.\<close>

theorem simulator_pace:
  "let e = fold feed xs (new_engine target oa) in
     200 * millisecond \<le> pause_of (en_speed e) \<and> pause_of (en_speed e) \<le> 8 * second
     \<and> 15 / 2 \<le> st_effective_rate (status_of e) \<and> st_effective_rate (status_of e) \<le> 300
     \<and> pause_of 1 = 2 * second"
proof -
  define e where "e = fold feed xs (new_engine target oa)"
  have "engine_ok e" unfolding e_def by (rule feeds_ok [OF new_engine_ok])
  then have "1 / 4 \<le> en_speed e" "en_speed e \<le> 10" by (simp_all add: engine_ok_def run_ok_def)
  note bounds = pace [OF this]
  have "pause_of 1 = 2 * second" by (simp add: pause_of_def base_rate_def duration_defs round_values)
  with bounds show ?thesis unfolding e_def [symmetric] Let_def status_of_def sim_status.simps by blast
qed

text \<open>C34. A stopped run ends: after \<open>Stop\<close> four turns of the goroutine are enough, whatever the target
  answers and whatever the control API is asked meanwhile; a start that comes before the run has ended
  does not keep it alive.\<close>

theorem stop_ends_run:
  assumes "4 \<le> length (filter is_turn ys)"
  shows "\<exists>zs. prefix zs ys \<and> (let e = fold feed zs (feed Shutdown (fold feed xs (new_engine target oa))) in
     \<not> en_running e \<and> en_phase e = ''stopped'' \<and> en_runner e = Idle)"
proof -
  define e where "e = feed Shutdown (fold feed xs (new_engine target oa))"
  have ok: "engine_ok e" unfolding e_def by (intro feed_ok feeds_ok new_engine_ok)
  have "\<exists>zs. prefix zs ys \<and> \<not> en_running (fold feed zs e)"
  proof (cases "en_running e")
    case True
    have "engine_ok (fold feed xs (new_engine target oa))" by (intro feeds_ok new_engine_ok)
    with True have "en_ctx_done e"
      by (auto simp: e_def feed_def fst_stop_engine engine_ok_def run_ok_def split: if_splits)
    with ok True have "winding_down e" by (simp add: winding_down_def)
    moreover have "turns_left (en_runner e) \<le> 4"
      using ok by (auto simp: engine_ok_def roster_ok_def stage_ok_def turns_left_def split: runner.splits)
    ultimately show ?thesis using winds_down assms le_trans by blast
  qed (intro exI [of _ "[]"], simp)
  then obtain zs where zs: "prefix zs ys" "\<not> en_running (fold feed zs e)" by blast
  then have "en_phase (fold feed zs e) = ''stopped'' \<and> en_runner (fold feed zs e) = Idle"
    using feeds_ok [OF ok, of zs] by (auto simp: engine_ok_def run_ok_def)
  with zs show ?thesis unfolding e_def [symmetric] Let_def by blast
qed

theorem stop_ends_run_witness:
  "en_running (fold feed sample_boot (new_engine [] no_oauth))
   \<and> (\<exists>zs. prefix zs (replicate 4 (Turn sample_luck))
       \<and> en_runner (fold feed zs (feed Shutdown (fold feed sample_boot (new_engine [] no_oauth)))) = Idle)"
proof -
  have "en_running (fold feed sample_boot (new_engine [] no_oauth))"
    unfolding sample_boot_def sample_control_def sample_post_def sample_luck_def sample_network_def no_oauth_def by code_simp
  then show ?thesis
    using stop_ends_run [of "replicate 4 (Turn sample_luck)" sample_boot "[]" no_oauth]
    by (auto simp: Let_def numeral_eq_Suc)
qed

text \<open>The phase of a run can hide that it has been stopped: the step after \<open>bootstrap\<close> sets it to
  running without another look at the context.\<close>

lemma stop_overwritten:
  assumes "en_runner e = Settled" and "en_session e = en_run_session e" and "en_running e" and "en_has_cancel e"
  shows "en_phase (fst (stop_engine e)) = ''stopping''"
    and "en_phase (runner_step lk (fst (stop_engine e))) = ''running''"
    and "en_ctx_done (runner_step lk (fst (stop_engine e)))"
  using assms by (simp_all add: fst_stop_engine runner_step_def at_stage_def)

text \<open>C35. The token of a call other than the health check, when a token endpoint is configured, on every
  branch, with exactly the requests that are sent: a malformed URL of the target sends nothing; a cached token with more than 30 seconds left is used and the token
  endpoint is not asked; otherwise the token endpoint is asked once (not at all when its URL is
  malformed), and when it grants a token, that token is cached and sent with the one call to the
  target; when it grants none, nothing goes to the target, nothing is cached and the call fails.\<close>

theorem api_call_tokens:
  assumes "call_api n meth path v c = (c', sent, r)" and "path \<noteq> ''/api/health''" and "token_url (oauth c) \<noteq> []"
  defines "grants \<equiv> (\<lambda>t. \<exists>text. net_token n = Replied 200 text \<and> decode_body n token_fields no_token text = Inr t
    \<and> granted t \<noteq> [])"
  shows "case net_malformed n (base_url c @ path) of
      Some err \<Rightarrow> c' = c \<and> sent = [] \<and> r = Inl err
    | None \<Rightarrow>
        if cached_token c \<noteq> [] \<and> 30 * second < time_sub (cached_until c) (net_now n)
        then c' = c \<and> sent = [api_request c meth path v (Some (cached_token c))] \<and> r = read_reply n meth path
        else (case net_malformed n (token_url (oauth c)) of
            Some err \<Rightarrow> c' = c \<and> sent = [] \<and> r = Inl (''get API access token: '' @ err)
          | None \<Rightarrow>
              if \<exists>t. grants t
              then \<exists>t. grants t \<and> c' = c\<lparr>cached_token := granted t, cached_until := net_later n + wrap64 (lifetime t * second)\<rparr>
                \<and> sent = [token_request (oauth c), api_request c meth path v (Some (granted t))] \<and> r = read_reply n meth path
              else c' = c \<and> sent = [token_request (oauth c)] \<and> (\<exists>err. r = Inl (''get API access token: '' @ err)))"
proof -
  have base: "api_request (c\<lparr>cached_token := a, cached_until := b\<rparr>) = api_request c" for a b
    by (simp add: api_request_def fun_eq_iff)
  show ?thesis
    using assms(1-3) unfolding call_api_def fetch_token_def grants_def
    by (auto simp: Let_def base split: if_splits option.splits exchange.splits sum.splits)
qed

theorem api_call_tokens_witness:
  "\<exists>c' sent r. call_api (sample_network\<lparr>net_token := Replied 200 (marshal (JObj [(''access_token'', JStr ''t'')]))\<rparr>) ''GET'' ''/p'' None
        (new_api_client ''h'' \<lparr>token_url = ''u'', client_id = [], client_secret = []\<rparr>) = (c', sent, r)
     \<and> cached_token c' = ''t'' \<and> length sent = 2"
proof -
  let ?n = "sample_network\<lparr>net_token := Replied 200 (marshal (JObj [(''access_token'', JStr ''t'')]))\<rparr>"
  let ?c = "new_api_client ''h'' \<lparr>token_url = ''u'', client_id = [], client_secret = []\<rparr>"
  obtain c' sent r where call: "call_api ?n ''GET'' ''/p'' None ?c = (c', sent, r)" by (cases "call_api ?n ''GET'' ''/p'' None ?c")
  have "cached_token ?c = []" "token_url (oauth ?c) \<noteq> []" "net_malformed ?n u = None" for u
    by (simp_all add: new_api_client_def sample_network_def)
  moreover have "decode_body ?n token_fields no_token (marshal (JObj [(''access_token'', JStr ''t'')]))
      = Inr \<lparr>granted = ''t'', lifetime = 0, refusal = []\<rparr>"
    unfolding sample_network_def by code_simp
  moreover have "net_token ?n = Replied 200 (marshal (JObj [(''access_token'', JStr ''t'')]))" by simp
  ultimately have "cached_token c' = ''t'' \<and> length sent = 2"
    using api_call_tokens [OF call] by (auto simp del: marshal.simps)
  with call show ?thesis by blast
qed

end
