(* ===== verification/Pipeline.thy ===== *)
theory Pipeline
  imports Outbox_Laws Replies Realtime_Properties Startup_Properties Sim_Properties
begin

text \<open>
  The components together: a row that the API has written goes through the relay into Kafka and through
  the gateway to the clients that watch its project.
\<close>

section \<open>The loop of the relay\<close>

lemma relay_run_simulated:
  assumes "mirrors n x s" and "w_phase x w = Ready []" and "r_config (sys_relay s) = config_of c w"
    and "\<forall>be \<in> set bes. \<forall>rs. mset (cl_order (be_claim be) rs) = mset rs"
  shows "simulated render c n w x (fst (relay_run render bes s)) []"
  using assms
proof (induction bes arbitrary: s x)
  case Nil
  then show ?case unfolding simulated_def by (auto intro!: exI [of _ x] simp: fun_upd_idem)
next
  case (Cons be bes)
  obtain s' err where call: "run_batch render be s = (s', err)" by (rule prod.exhaust)
  have "simulated render c n w x s' []"
    by (rule run_batch_simulated [OF Cons.prems(1-3) _ call]) (use Cons.prems(4) in simp)
  then show ?case
  proof (rule simulated_trans)
    fix y assume y: "mirrors n y s'" "w_phase y w = Ready []" "r_config (sys_relay s') = config_of c w"
    then show "simulated render c n w y (fst (relay_run render (be # bes) s)) []"
      using Cons.IH [of y s'] Cons.IH [of y "log_line Error ''outbox batch failed'' s'"] Cons.prems(4) call
      by (cases err) simp_all
  qed
qed

text \<open>A healthy run loses no row and gives none up.\<close>

lemma relay_run_rows:
  assumes "board_ok (sys_db s)" and "faithful render" and "\<forall>be \<in> set bes. healthy t be"
    and "r \<in> set (outbox (sys_db s))" and "dead_at r = None \<or> published_at r \<noteq> None"
  shows "\<exists>r' \<in> set (outbox (sys_db (fst (relay_run render bes s)))). event_part r' = event_part r
    \<and> (dead_at r' = None \<or> published_at r' \<noteq> None)"
  using assms
proof (induction bes arbitrary: s r)
  case (Cons be bes)
  obtain s' err where call: "run_batch render be s = (s', err)" by (rule prod.exhaust)
  have h: "healthy t be" using Cons.prems(3) by simp
  note batch = run_batch_healthy [OF Cons.prems(1,2) h call]
  obtain g where g: "sys_db s' = update_rows (\<lambda>r. True) g (sys_db s)" "event_part (g r) = event_part r"
    "published_at (g r) \<noteq> None \<or> g r = r"
    using batch(2) Cons.prems(4) unfolding published_only_def by blast
  have "g r \<in> set (outbox (sys_db s'))" using Cons.prems(4) by (simp add: g(1) outbox_update_rows)
  moreover have "dead_at (g r) = None \<or> published_at (g r) \<noteq> None" using g(3) Cons.prems(5) by auto
  moreover have "board_ok (sys_db s')" by (rule published_only_board [OF batch(2) Cons.prems(1)])
  ultimately have "\<exists>r' \<in> set (outbox (sys_db (fst (relay_run render bes s')))). event_part r' = event_part (g r)
      \<and> (dead_at r' = None \<or> published_at r' \<noteq> None)"
    using Cons.IH [of s' "g r"] Cons.prems(2,3) by simp
  then show ?case using call batch(1) g(2) by simp
qed auto

text \<open>No step of any worker or server removes a row or changes the event it holds.\<close>

lemma updated_row:
  assumes "r \<in> set (outbox d)" and "\<And>r. event_part (f r) = event_part r"
  shows "\<exists>r' \<in> set (outbox (update_rows P f d)). event_part r' = event_part r"
  unfolding bex_updated using assms by (intro bexI [of _ r]) auto

lemma row_survives_step:
  assumes "relay_step render c x y" and r: "r \<in> set (outbox (w_db x))"
  shows "\<exists>r' \<in> set (outbox (w_db y)). event_part r' = event_part r"
proof -
  have stmt: "\<exists>r' \<in> set (outbox d). event_part r' = event_part r" if "run_stmt f stmt (w_db x) = (d, res)"
    "\<exists>r' \<in> set (outbox (fst (stmt (w_db x)))). event_part r' = event_part r" for f stmt d and res :: "nat result"
    using that r by (cases f) (auto simp: run_stmt_def)
  have claim: "\<exists>r' \<in> set (outbox (claim_rows cc now locked (w_db x))). event_part r' = event_part r" for cc now locked
    unfolding claim_rows_def by (rule updated_row [OF r]) simp
  show ?thesis
    using assms(1)
  proof cases
    case (claims w ce d batch)
    then show ?thesis using claim_result [OF claims(4)] claim r by auto
  next
    case (claim_fails w ce d err)
    then show ?thesis using claim_result [OF claim_fails(3)] claim r by auto
  next
    case (marks w it its f now d res)
    then show ?thesis using stmt [OF marks(3)] updated_row [OF r] by (simp add: mark_published_def)
  next
    case (records w it cause its f now later d res)
    have "\<exists>r' \<in> set (outbox (fst (record_failure now w (ce_sequence it) later cause
        (max_attempts c \<le> ce_attempt_count it + 1) (w_db x)))). event_part r' = event_part r"
      using updated_row [OF r] r by (auto simp: record_failure_def)
    with stmt [OF records(3)] records(1) show ?thesis by simp
  next
    case (serves cr ui files ve e rq v v' d resp obs)
    then show ?thesis using serve_http_outbox [OF serves(2)] r by auto
  qed (use r in auto)
qed

lemma row_survives:
  assumes "relay_runs render c x y" and "r \<in> set (outbox (w_db x))"
  shows "\<exists>r' \<in> set (outbox (w_db y)). event_part r' = event_part r"
  using assms(1)
proof induction
  case (step y z)
  then obtain q where q: "q \<in> set (outbox (w_db y))" "event_part q = event_part r" by blast
  from row_survives_step [OF step(2) q(1)] q(2) show ?case by simp
qed (use assms(2) in blast)

lemma world_ok_runs:
  assumes "relay_runs render c x y" and "world_ok render c x" and "faithful render" and "1 \<le> max_attempts c"
  shows "world_ok render c y"
  using assms(1) by induction (use relay_step_ok assms(2-4) in blast)+

section \<open>From the outbox to Kafka\<close>

text \<open>
  Whatever the workers and servers have done since a row was written: once every pending row is due and a
  healthy relay runs enough batches, the event of the row is in Kafka, unless it was given up before.
\<close>

lemma relay_delivers:
  assumes ok: "world_ok render c x" and "faithful render" and "1 \<le> max_attempts c" and r: "r \<in> set (outbox (w_db x))"
    and later: "relay_runs render c x y" and alive: "\<forall>q \<in> set (outbox (w_db y)). ob_event_id q = ob_event_id r \<longrightarrow> dead_at q = None"
    and s: "sys_db s = w_db y" "sys_kafka s = w_kafka y" "r_config (sys_relay s) = config_of c w"
    and "all_due t (w_db y)" and "\<forall>be \<in> set bes. healthy t be"
    and "length (pending_ids (w_db y)) \<le> length bes * nat (batch_size c)"
  shows "\<exists>m \<in> set (sys_kafka (fst (relay_run render bes s))). message_of render r m"
proof -
  let ?s' = "fst (relay_run render bes s)" and ?y = "y\<lparr>w_phase := (w_phase y)(w := Ready [])\<rparr>"
  have "relay_runs render c x ?y" using later relay_step.stops by (rule rtranclp.rtrancl_into_rtrancl)
  moreover have "simulated render c (int (length (w_acked y)) - int (published_count (sys_relay s))) w ?y ?s' []"
    by (rule relay_run_simulated) (use s assms(11) in \<open>auto simp: mirrors_def healthy_def Let_def\<close>)
  then obtain z where z: "relay_runs render c ?y z" "w_db z = sys_db ?s'" "w_kafka z = sys_kafka ?s'"
    unfolding simulated_def mirrors_def by blast
  ultimately have "world_ok render c z" using world_ok_runs [OF rtranclp_trans ok] assms(2,3) by blast
  then have kafka: "\<forall>r \<in> set (outbox (sys_db ?s')). published_at r \<noteq> None \<longrightarrow> (\<exists>m \<in> set (sys_kafka ?s'). message_of render r m)"
    using z(2,3) by (simp add: world_ok_def table_ok_def)
  have board: "board_ok (sys_db s)"
    using world_ok_runs [OF later ok assms(2,3)] s(1) by (simp add: world_ok_def table_ok_def)
  obtain q where q: "q \<in> set (outbox (sys_db s))" "event_part q = event_part r"
    using row_survives [OF later r] s(1) by auto
  then have "dead_at q = None" using alive event_part_eq(2) [OF q(2)] s(1) by simp
  with relay_run_rows [OF board assms(2,11) q(1)] q(2)
  obtain r' where r': "r' \<in> set (outbox (sys_db ?s'))" "event_part r' = event_part r" "dead_at r' = None \<or> published_at r' \<noteq> None"
    by auto
  have "length (pending_ids (sys_db ?s')) = 0"
    using relay_run_drains [OF board assms(2) _ assms(11)] assms(10,12) s(1,3) by (simp add: config_of_def)
  then have "\<not> pending r'" using r'(1) by (auto simp: pending_ids_def filter_empty_conv)
  then have "published_at r' \<noteq> None" using r'(3) by (auto simp: pending_def)
  with kafka r' obtain m where "m \<in> set (sys_kafka ?s')" "message_of render r' m" by blast
  with message_of_event_part [OF r'(2)] show ?thesis by blast
qed

section \<open>A sample run: two creations\<close>

text \<open>The sample creation on any sound board that has project 1 and user 1.\<close>

lemma sample_creation:
  assumes ok: "board_ok d" and ready: "env_ready e ''s'' d" and refs: "project_exists d 1" "user_exists d 1"
    and run: "create_task e ''s'' [''1''] (marshal sample_new_task) d = (d', resp)"
  shows "code (fst resp) = 201" and "board_ok d'"
    and "users d' = users d" "projects d' = projects d" "users_seq d' = users_seq d" "projects_seq d' = projects_seq d"
    and "tasks_seq d' = tasks_seq d + 1" "outbox_seq d' = outbox_seq d + 1"
    and "\<exists>r. outbox d' = outbox d @ [r] \<and> fresh_row r \<and> ob_event_id r = ev_uuid e"
    and "\<exists>row. tasks d' = tasks d @ [row] \<and> tsk_project row = 1"
proof -
  have pid: "path_id [''1''] = Inr 1" by (simp add: path_id_def parse_one)
  have inputs: "event_inputs_ok e ''s''" using ready by (simp add: env_ready_def)
  have ep: "run_endpoint e ''s'' CreateTask [''1''] (marshal sample_new_task) d = (d', resp)"
    using run by (simp add: run_endpoint_def)
  show "board_ok d'" by (rule run_endpoint_board [OF ok inputs ep])
  have "code (fst (snd (create_task e ''s'' [''1''] (marshal sample_new_task) d))) = 201"
    by (rule create_task_runs [OF ok ready pid sample_new_decoded sample_new_acceptable(1)])
      (simp_all add: sample_new_acceptable sample_text pg_text_def no_nul_def utf8_ok_ascii refs)
  then show made: "code (fst resp) = 201" by (simp add: run)
  obtain pid' inp row r ev where res: "path_id [''1''] = Inr pid'" "row = fresh_task (ev_now e) pid' (in_assignee inp)
      (trim_space (in_task_title inp)) (trim_space (in_task_description inp)) (chosen_status inp) d"
    "tasks d' = tasks d @ [row]" "outbox d' = outbox d @ [r]" "users d' = users d" "projects d' = projects d"
    "carries r ev" "ev = the_event e task_created ''s'' (joined d' row)"
    by (rule create_task_result [OF run made ok inputs])
  show "users d' = users d" "projects d' = projects d" by (rule res(5,6))+
  have "tsk_project row = 1" using res(1) pid unfolding res(2) by (simp add: fresh_task_def)
  with res(3) show "\<exists>row. tasks d' = tasks d @ [row] \<and> tsk_project row = 1" by blast
  have "ob_event_id r = ev_uuid e" using res(7,8) by (simp add: carries_def the_event_def new_task_event_def)
  with res(4) run_endpoint_outbox [OF ep] show "\<exists>r. outbox d' = outbox d @ [r] \<and> fresh_row r \<and> ob_event_id r = ev_uuid e"
    by auto
  have "users_seq d' = users_seq d \<and> projects_seq d' = projects_seq d \<and> tasks_seq d' = tasks_seq d + 1
      \<and> outbox_seq d' = outbox_seq d + 1"
    using run
  proof (cases rule: create_task_cases)
    case (created pid inp work t)
    then show ?thesis by (auto elim!: insert_task_cases insert_outbox_cases)
  qed (use made in auto)
  then show "users_seq d' = users_seq d" "projects_seq d' = projects_seq d" "tasks_seq d' = tasks_seq d + 1"
    "outbox_seq d' = outbox_seq d + 1"
    by simp_all
qed

lemma sample_env_again:
  assumes "ob_event_id ` set (outbox d) \<subseteq> {''event-1''}" and "users_seq d \<le> 2" "projects_seq d \<le> 2" "tasks_seq d \<le> 2" "outbox_seq d \<le> 2"
  shows "env_ready (sample_env\<lparr>ev_uuid := ''event-2''\<rparr>) ''s'' d"
  using assms
  by (auto simp: env_ready_def no_faults_def sample_env_def event_inputs_ok_def carrier_get_def no_nul_def
      writable_time_def utf8_ok_ascii duration_defs)

text \<open>A first task has been created and its event published by worker \<open>w\<close>: the outbox and Kafka are in use.\<close>

lemma sample_in_use:
  "\<exists>d0 x. board_ok d0 \<and> (\<forall>r \<in> set (outbox d0). fresh_row r) \<and> relay_runs marshal sample_config (start d0) x
    \<and> board_ok (w_db x) \<and> env_ready (sample_env\<lparr>ev_uuid := ''event-2''\<rparr>) ''s'' (w_db x)
    \<and> project_exists (w_db x) 1 \<and> user_exists (w_db x) 1 \<and> w_kafka x \<noteq> []
    \<and> (\<exists>r1. outbox (w_db x) = [r1] \<and> published_at r1 \<noteq> None \<and> ob_event_id r1 = ''event-1'')"
proof -
  obtain d0 resp where run: "create_task sample_env ''s'' [''1''] (marshal sample_new_task) sample_board = (d0, resp)"
    by (rule prod.exhaust)
  have refs: "project_exists sample_board 1" "user_exists sample_board 1"
    by (simp_all add: sample_board_def project_exists_def user_exists_def)
  note first = sample_creation [OF sample_board_ok sample_env_ready refs run]
  obtain r where r: "outbox d0 = [r]" "fresh_row r" "ob_event_id r = ''event-1''"
    using first(9) by (auto simp: sample_board_def sample_env_def)
  let ?be = "sample_batch (next_attempt_at r)"
  obtain s' err where call: "run_batch marshal ?be (sample_system d0) = (s', err)" by (rule prod.exhaust)
  have "simulated marshal sample_config 0 ''w'' (start d0) s' []"
    by (rule run_batch_simulated [OF _ _ _ _ call])
      (simp_all add: mirrors_def start_def sample_system_def config_of_def sample_config_def sample_batch_def)
  then obtain x where x: "relay_runs marshal sample_config (start d0) x" "w_db x = sys_db s'" by (auto simp: simulated_def mirrors_def)
  have "set (candidates sample_config (next_attempt_at r) [] d0) = {sequence_no r}"
    using r(1,2) by (simp add: candidates_def claimable_def fresh_row_def sample_config_def)
  then have only: "published_only {sequence_no r} d0 (sys_db s')"
    using run_batch_healthy(2) [OF _ faithful_marshal sample_healthy [of "next_attempt_at r"] call] first(2)
    by (simp add: sample_system_def sample_batch_def)
  then obtain g where g: "sys_db s' = update_rows (\<lambda>r. True) g d0" "event_part (g r) = event_part r" "published_at (g r) \<noteq> None"
    using r(1) unfolding published_only_def by auto
  have out: "outbox (w_db x) = [g r]" "ob_event_id (g r) = ''event-1''"
    using r(1,3) event_part_eq(2) [OF g(2)] by (simp_all add: x(2) g(1) outbox_update_rows)
  have fresh: "\<forall>r \<in> set (outbox d0). fresh_row r" using r by simp
  have "1 \<le> max_attempts sample_config" by (simp add: sample_config_def)
  then have "world_ok marshal sample_config x" by (rule relay_runs_ok [OF x(1) first(2) fresh faithful_marshal])
  then have "w_kafka x \<noteq> []" using out(1) g(3) by (auto simp: world_ok_def table_ok_def)
  moreover have "board_ok (w_db x)" unfolding x(2) by (rule published_only_board [OF only first(2)])
  moreover have "env_ready (sample_env\<lparr>ev_uuid := ''event-2''\<rparr>) ''s'' (w_db x)"
    using first(5-8) out by (intro sample_env_again) (simp_all add: x(2) g(1) sample_board_def)
  moreover have "project_exists (w_db x) 1" "user_exists (w_db x) 1"
    using refs first(3,4) by (simp_all add: x(2) g(1) project_exists_def user_exists_def)
  ultimately show ?thesis using first(2) fresh x(1) out g(3) by blast
qed

section \<open>From Kafka to the clients\<close>

lemma record_reaches_clients:
  assumes "hub_runs ver (new_hub v) h" and "decode_event (msg_value m) = Inr ev"
  shows "store (process_record (produced q k m) h) i =
    (if i \<in> set (registered h) \<and> event_project ev \<in> subscriptions (store h i)
     then if length (send (store h i)) < 64 then (store h i)\<lparr>send := send (store h i) @ [msg_value m]\<rparr>
          else (store h i)\<lparr>canceled := True\<rparr>
     else store h i)"
proof -
  have "hub_ok h" by (rule hub_runs_ok [OF assms(1) new_hub_ok])
  then have "distinct (registered h)" by (simp add: hub_ok_def)
  from broadcast_store [OF this] show ?thesis
    using assms(2) by (simp add: process_record_def produced_def receives_def has_room_def queue_size_def push_def)
qed

section \<open>The simulator and the API\<close>

text \<open>What the server gets of a request that was sent to its base URL.\<close>

definition received :: "string \<Rightarrow> outgoing \<Rightarrow> request" where
  "received base q =
     \<lparr>req_method = out_method q, req_path = trim_prefix (out_url q) base,
      req_body = (case out_body q of None \<Rightarrow> [] | Some t \<Rightarrow> t),
      req_authorization = (case map_of (out_headers q) ''Authorization'' of None \<Rightarrow> [] | Some a \<Rightarrow> a),
      req_request_id = []\<rparr>"

lemma format_nat_chars:
  assumes "0 \<le> i" and "c \<in> set (format_int 10 i)"
  shows "is_digit c"
proof -
  obtain k where k: "c = digit_char k" "k < 10"
    using assms nat_digits_bound [of 10 "nat i"] by (auto simp: format_int_def)
  show ?thesis unfolding k(1) using less_ten_cases [OF k(2)] by (elim disjE) (simp_all add: digit_char_def is_digit_def byte_in_def)
qed

lemma format_nat_segment:
  assumes "0 \<le> i"
  shows "CHR ''/'' \<notin> set (format_int 10 i)" "CHR ''%'' \<notin> set (format_int 10 i)" "format_int 10 i \<noteq> []"
    "format_int 10 i \<noteq> ''.''" "format_int 10 i \<noteq> ''..''" "format_int 10 i \<noteq> ''/''"
proof -
  have digits: "\<forall>c \<in> set (format_int 10 i). is_digit c" using format_nat_chars [OF assms] by blast
  show "CHR ''/'' \<notin> set (format_int 10 i)" "CHR ''%'' \<notin> set (format_int 10 i)"
    using digits by (auto simp: is_digit_def byte_in_def)
  show "format_int 10 i \<noteq> []" by (simp add: format_int_def)
  show "format_int 10 i \<noteq> ''.''" "format_int 10 i \<noteq> ''..''" "format_int 10 i \<noteq> ''/''"
    using digits by (auto simp: is_digit_def byte_in_def)
qed

lemma tasks_path_segments:
  assumes "0 \<le> pid"
  shows "split_on (CHR ''/'') (tasks_path pid) = [[], ''api'', ''projects'', format_int 10 pid, ''tasks'']"
    "path_segments (tasks_path pid) = [''api'', ''projects'', format_int 10 pid, ''tasks'']"
    "clean_path (tasks_path pid) = tasks_path pid"
proof -
  note f = format_nat_segment [OF assms]
  have join: "tasks_path pid = join_on (CHR ''/'') [[], ''api'', ''projects'', format_int 10 pid, ''tasks'']"
    by (simp add: tasks_path_def)
  show split: "split_on (CHR ''/'') (tasks_path pid) = [[], ''api'', ''projects'', format_int 10 pid, ''tasks'']"
    unfolding join by (rule split_join) (use f(1) in auto)
  show "path_segments (tasks_path pid) = [''api'', ''projects'', format_int 10 pid, ''tasks'']"
    using f(2) by (simp add: path_segments_def split)
  have "last (tasks_path pid) \<noteq> CHR ''/''" by (simp add: tasks_path_def)
  moreover have "clean_segments [] [[], ''api'', ''projects'', format_int 10 pid, ''tasks'']
      = [''api'', ''projects'', format_int 10 pid, ''tasks'']"
    using f(3-5) by simp
  ultimately show "clean_path (tasks_path pid) = tasks_path pid"
    by (simp add: clean_path_def split Let_def) (simp add: tasks_path_def)
qed

lemma post_tasks_route:
  assumes "0 \<le> pid"
  shows "mux_find protected ''POST'' (tasks_path pid) = Handler ''POST /api/projects/{id}/tasks'' CreateTask [format_int 10 pid]"
proof -
  note f = format_nat_segment [OF assms] and p = tasks_path_segments [OF assms]
  have pats: "parse_pattern ''GET /api/users'' = \<lparr>pat_method = Some ''GET'', pat_segs = [Lit ''api'', Lit ''users''], pat_subtree = False\<rparr>"
    "parse_pattern ''POST /api/users'' = \<lparr>pat_method = Some ''POST'', pat_segs = [Lit ''api'', Lit ''users''], pat_subtree = False\<rparr>"
    "parse_pattern ''GET /api/projects'' = \<lparr>pat_method = Some ''GET'', pat_segs = [Lit ''api'', Lit ''projects''], pat_subtree = False\<rparr>"
    "parse_pattern ''POST /api/projects'' = \<lparr>pat_method = Some ''POST'', pat_segs = [Lit ''api'', Lit ''projects''], pat_subtree = False\<rparr>"
    "parse_pattern ''GET /api/projects/{id}/tasks'' = \<lparr>pat_method = Some ''GET'', pat_segs = [Lit ''api'', Lit ''projects'', Wild, Lit ''tasks''], pat_subtree = False\<rparr>"
    "parse_pattern ''POST /api/projects/{id}/tasks'' = \<lparr>pat_method = Some ''POST'', pat_segs = [Lit ''api'', Lit ''projects'', Wild, Lit ''tasks''], pat_subtree = False\<rparr>"
    by code_simp+
  have "mux_match protected ''POST'' (path_segments (tasks_path pid))
      = Some (''POST /api/projects/{id}/tasks'', CreateTask, [format_int 10 pid])"
    unfolding protected_def p(2) mux_match.simps pats Let_def pattern.simps method_matches_def option.case
    using f by simp
  then show ?thesis
    by (simp add: mux_find_def p(3) slash_redirect_def exact_match_def pats Let_def)
qed

lemma new_task_decoded:
  assumes "utf8_ok titl" and "utf8_ok desc" and "in_int64 a" and "length (marshal (new_task_json a titl desc)) \<le> max_body"
  shows "decode_json e task_input_fields (marshal (new_task_json a titl desc)) no_task_input
    = Inr \<lparr>in_task_title = titl, in_task_description = desc, in_assignee = Some a, in_task_status = ''todo''\<rparr>"
proof (rule decode_json_marshal [OF _ assms(4)])
  show "writable max_nesting (new_task_json a titl desc)"
    using assms(1,2) by (simp add: new_task_json_def max_nesting_def json_int_writable utf8_ok_ascii)
  show "decode_struct True task_input_fields (new_task_json a titl desc) no_task_input
    = Inr \<lparr>in_task_title = titl, in_task_description = desc, in_assignee = Some a, in_task_status = ''todo''\<rparr>"
    using assms(3)
    by (simp add: decode_struct_def new_task_json_def task_input_fields_def find_field_def field_def no_task_input_def
        json_int_def parse_format_int)
qed

lemma folded_keys:
  "fold_name ''id'' = ''ID''" "fold_name ''project_id'' = ''PROJECT_ID''" "fold_name ''status'' = ''STATUS''"
  "fold_name ''assignee_id'' = ''ASSIGNEE_ID''" "fold_name ''assignee_name'' = ''ASSIGNEE_NAME''"
  "fold_name ''title'' = ''TITLE''" "fold_name ''description'' = ''DESCRIPTION''" "fold_name ''version'' = ''VERSION''"
  "fold_name ''created_at'' = ''CREATED_AT''" "fold_name ''updated_at'' = ''UPDATED_AT''"
  by code_simp+

lemma api_task_keys:
  "find_field api_task_fields ''id'' = Some (field as_int64 got_task_id_update)"
  "find_field api_task_fields ''project_id'' = Some (field as_int64 got_task_project_update)"
  "find_field api_task_fields ''status'' = Some (field as_string got_task_status_update)"
  "find_field api_task_fields ''assignee_id'' = None"
  "find_field api_task_fields ''assignee_name'' = None"
  "find_field api_task_fields ''title'' = None"
  "find_field api_task_fields ''description'' = None"
  "find_field api_task_fields ''version'' = None"
  "find_field api_task_fields ''created_at'' = None"
  "find_field api_task_fields ''updated_at'' = None"
  unfolding find_field_def api_task_fields_def by (simp_all add: folded_keys del: fold_name.simps)

text \<open>The client reads the task back from the reply.\<close>

lemma task_reply_decoded:
  assumes "task_typed t" and "task_json t = Some v"
  shows "decode_body n api_task_fields no_api_task (encode_line (Some v))
    = Inr \<lparr>got_task_id = task_id t, got_task_project = project_id t, got_task_status = status t\<rparr>"
proof -
  obtain ms where ms: "task_members t = Some ms" "v = JObj ms" using assms(2) by (auto simp: task_json_def)
  have "writable max_nesting v"
    using task_members_writable [OF assms(1) ms(1)] by (auto simp: ms(2) max_nesting_def)
  then have "decode_first (encode_line (Some v)) = Some v" by (rule decode_first_line)
  moreover have "decode_members False api_task_fields ms no_api_task
      = Inr \<lparr>got_task_id = task_id t, got_task_project = project_id t, got_task_status = status t\<rparr>"
    using ms(1) assms(1)
    by (auto simp: task_members_def task_typed_def no_api_task_def api_task_keys field_def
        omit_empty_def omit_nil_def as_int64_json_int split: option.splits)
  ultimately show ?thesis by (simp add: decode_body_def ms(2) decode_struct_def)
qed

text \<open>A call gets as far as the target: its URLs are well-formed and it has a token if it needs one.\<close>

definition reaches :: "network \<Rightarrow> api_client \<Rightarrow> bool" where
  "reaches n c \<longleftrightarrow>
     (\<forall>url. net_malformed n url = None) \<and> (token_url (oauth c) = [] \<or> (\<exists>tok. snd (snd (fetch_token n c)) = Inr tok))"

lemma fetch_token_base: "fetch_token n c = (c', sent, res) \<Longrightarrow> base_url c' = base_url c"
  by (auto simp: fetch_token_def Let_def split: if_splits option.splits exchange.splits sum.splits)

lemma reached_call:
  assumes "call_api n meth path v c = (c', sent, r)" and "reaches n c"
  shows "\<exists>tok c1. last sent = api_request c1 meth path v tok \<and> base_url c1 = base_url c" and "r = read_reply n meth path"
proof -
  obtain c1 s1 res where tok: "fetch_token n c = (c1, s1, res)" by (cases "fetch_token n c")
  have "(\<exists>tok c1. last sent = api_request c1 meth path v tok \<and> base_url c1 = base_url c) \<and> r = read_reply n meth path"
  proof (cases "path \<noteq> ''/api/health'' \<and> token_url (oauth c) \<noteq> []")
    case True
    then obtain t where "res = Inr t" using assms(2) tok by (auto simp: reaches_def)
    then have "last sent = api_request c1 meth path v (Some t)" "r = read_reply n meth path"
      using assms True tok by (auto simp: call_api_def reaches_def)
    with fetch_token_base [OF tok] show ?thesis by blast
  next
    case False
    then have "last sent = api_request c meth path v None" "r = read_reply n meth path"
      using assms by (auto simp: call_api_def reaches_def)
    then show ?thesis by blast
  qed
  then show "\<exists>tok c1. last sent = api_request c1 meth path v tok \<and> base_url c1 = base_url c" "r = read_reply n meth path"
    by simp_all
qed

lemma reached_target:
  assumes "call_decoding n meth path v fs z c = (c', sent, r)" and "reaches n c"
  shows "\<exists>tok c1. last sent = api_request c1 meth path v tok \<and> base_url c1 = base_url c"
    and "read_reply n meth path = Inr txt \<Longrightarrow> r = (case decode_body n fs z txt of
      Inl err \<Rightarrow> Inl (''decode '' @ meth @ '' '' @ path @ '' response: '' @ err) | Inr x \<Rightarrow> Inr x)"
proof -
  obtain c2 s2 res where call: "call_api n meth path v c = (c2, s2, res)" by (cases "call_api n meth path v c")
  then have "sent = s2" using assms(1) by (auto simp: call_decoding_def split: sum.splits)
  with reached_call(1) [OF call assms(2)]
  show "\<exists>tok c1. last sent = api_request c1 meth path v tok \<and> base_url c1 = base_url c" by simp
  show "r = (case decode_body n fs z txt of
      Inl err \<Rightarrow> Inl (''decode '' @ meth @ '' '' @ path @ '' response: '' @ err) | Inr x \<Rightarrow> Inr x)"
    if "read_reply n meth path = Inr txt"
    using assms(1) call that reached_call(2) [OF call assms(2)] by (simp add: call_decoding_def)
qed

lemma simulated_task:
  assumes call: "post_task n pid a titl desc c = (c', sent, r)" "reaches n c"
    and served: "serve_protected e subj (received (base_url c) (last sent)) d = (d', reply, logs)"
    and answered: "net_reply n = Replied (code reply) (body reply)"
    and board: "board_ok d" "env_ready e subj d" "project_exists d pid" "user_exists d a"
    and texts: "utf8_ok titl" "utf8_ok desc" "trim_space titl \<noteq> []" "pg_text (trim_space titl)" "pg_text (trim_space desc)"
      "length (marshal (new_task_json a titl desc)) \<le> max_body"
  shows "code reply = 201 \<and> (\<exists>row. tasks d' = tasks d @ [row] \<and> tsk_title row = trim_space titl
    \<and> tsk_description row = trim_space desc \<and> tsk_project row = pid \<and> tsk_assignee row = Some a
    \<and> r = Inr \<lparr>got_task_id = tsk_id row, got_task_project = pid, got_task_status = ''todo''\<rparr>)"
proof -
  let ?inp = "\<lparr>in_task_title = titl, in_task_description = desc, in_assignee = Some a, in_task_status = ''todo''\<rparr>"
  let ?j = "new_task_json a titl desc"
  have db: "db_ok d" using board(1) by (simp add: board_ok_def)
  have ids: "in_int64 pid" "1 \<le> pid" "in_int64 a"
    using db board(3,4) ids_ok_int64 [of "map prj_id (projects d)"] ids_ok_int64 [of "map usr_id (users d)"]
    by (auto simp: db_ok_defs project_exists_def user_exists_def)
  note call' = call(1) [unfolded post_task_def]
  obtain tok c1 where q: "last sent = api_request c1 ''POST'' (tasks_path pid) (Some ?j) tok" "base_url c1 = base_url c"
    using reached_target(1) [OF call' call(2)] by blast
  have "received (base_url c) (last sent) = (received (base_url c) (last sent))
      \<lparr>req_method := ''POST'', req_path := tasks_path pid, req_body := marshal ?j\<rparr>"
    by (simp add: q received_def api_request_def)
  then have create: "create_task e subj [format_int 10 pid] (marshal ?j) d = (d', reply, logs)"
    using served post_tasks_route [of pid] ids(2)
    by (simp add: serve_protected_def run_endpoint_def q received_def api_request_def)
  have pid: "path_id [format_int 10 pid] = Inr pid" using ids by (simp add: path_id_def parse_format_int)
  note decoded = new_task_decoded [OF texts(1,2) ids(3) texts(6), of e]
  have ok: "acceptable ?inp" using texts(3) by (simp add: acceptable_def chosen_status_def valid_status_def)
  have "code (fst (snd (create_task e subj [format_int 10 pid] (marshal ?j) d))) = 201"
    by (rule create_task_runs [OF board(1,2) pid decoded ok]) (use texts board in simp_all)
  then have made: "code reply = 201" by (simp add: create)
  have inputs: "event_inputs_ok e subj" using board(2) by (simp add: env_ready_def)
  have code: "code (fst (reply, logs)) = 201" using made by simp
  obtain pid' inp row rr ev where res: "path_id [format_int 10 pid] = Inr pid'"
    "decode_json e task_input_fields (marshal ?j) no_task_input = Inr inp"
    "row = fresh_task (ev_now e) pid' (in_assignee inp) (trim_space (in_task_title inp))
      (trim_space (in_task_description inp)) (chosen_status inp) d"
    "tasks d' = tasks d @ [row]" "body (fst (reply, logs)) = encode_line (task_json (joined d' row))"
    by (rule create_task_result [OF create code board(1) inputs])
  have inp: "inp = ?inp" "pid' = pid" using res(1,2) pid decoded by simp_all
  have row: "row = fresh_task (ev_now e) pid (Some a) (trim_space titl) (trim_space desc) ''todo'' d"
    unfolding res(3) inp by (simp add: chosen_status_def)
  have ep: "run_endpoint e subj CreateTask [format_int 10 pid] (marshal ?j) d = (d', reply, logs)"
    using create by (simp add: run_endpoint_def)
  have "db_ok d'" using run_endpoint_board [OF board(1) inputs ep] by (simp add: board_ok_def)
  then have typed: "task_typed (joined d' row)" using res(4) by (intro joined_typed) simp_all
  have now: "writable_time (ev_now e)" using board(2) by (simp add: env_ready_def)
  then obtain ts where "format_time (ev_now e) = Some ts" using format_time_defined by (auto simp: writable_time_def)
  then obtain v where v: "task_json (joined d' row) = Some v"
    by (simp add: task_json_def task_members_def joined_def row fresh_task_def)
  have "read_reply n ''POST'' (tasks_path pid) = Inr (encode_line (Some v))"
    using answered made res(5) v by (simp add: read_reply_def)
  from reached_target(2) [OF call' call(2) this] task_reply_decoded [OF typed v, of n]
  have "r = Inr \<lparr>got_task_id = tsk_id row, got_task_project = pid, got_task_status = ''todo''\<rparr>"
    by (simp add: joined_def row fresh_task_def)
  with made res(4) row show ?thesis by (simp add: fresh_task_def)
qed

end
