(* ===== verification/Outbox_Leases.thy ===== *)
theory Outbox_Leases
  imports Outbox_Laws
begin

text \<open>
  What a claim keeps while its lease runs. Between two claims of the same table anything may happen:
  other workers claim, mark and record failures, the API inserts events, statements fail or lose
  their answers. A statement does one of four things to a row, and only the worker that holds the
  claim can end it before the lease runs out.
\<close>

section \<open>The statements on the outbox table\<close>

datatype statement =
  Claim_Stmt relay_config claim_env
| Mark_Stmt fault instant string int64
| Fail_Stmt fault instant string int64 instant string bool
| Request_Stmt crypto auth_ui "request \<Rightarrow> reply" "clock \<times> jwks_reply" env request verifier

fun run_statement :: "(json \<Rightarrow> string) \<Rightarrow> statement \<Rightarrow> db \<Rightarrow> db" where
  "run_statement render (Claim_Stmt c ce) d = fst (claim render c ce d)"
| "run_statement render (Mark_Stmt f now w i) d = fst (run_stmt f (mark_published now w i) d)"
| "run_statement render (Fail_Stmt f now w i next cause dead) d =
     fst (run_stmt f (record_failure now w i next cause dead) d)"
| "run_statement render (Request_Stmt cr ui files ve e rq v) d =
     snd (fst (serve_http (call_verify cr) ui files ve e rq (v, d)))"

text \<open>The statements that run before \<open>t\<close>: what matters of the time is which leases a claim finds over.\<close>

fun before :: "instant \<Rightarrow> statement \<Rightarrow> bool" where
  "before t (Claim_Stmt c ce) = (cl_now ce \<le> t)"
| "before t (Mark_Stmt f now w i) = True"
| "before t (Fail_Stmt f now w i next cause dead) = True"
| "before t (Request_Stmt cr ui files ve e rq v) = env_text_ok e"

definition records_failure :: "string \<Rightarrow> int64 \<Rightarrow> statement \<Rightarrow> bool" where
  "records_failure w i s =
     (case s of Fail_Stmt f now w' i' next cause dead \<Rightarrow> w' = w \<and> i' = i | _ \<Rightarrow> False)"

section \<open>What a statement does to a row\<close>

inductive row_change :: "instant \<Rightarrow> statement \<Rightarrow> outbox_row \<Rightarrow> outbox_row \<Rightarrow> bool" for t s r where
  same: "row_change t s r r"
| taken: "claimable now r \<Longrightarrow> now \<le> t \<Longrightarrow> row_change t s r (take_claim c now r)"
| published: "row_change t s r (set_published now r)"
| failed: "claimed_by r = Some w \<Longrightarrow> records_failure w (sequence_no r) s \<Longrightarrow>
    row_change t s r (set_failed now next cause dead r)"

lemma row_change_update:
  assumes "r \<in> set (outbox d)" and "\<And>r. event_part (f r) = event_part r" and "P r \<Longrightarrow> row_change t s r (f r)"
  shows "\<exists>r' \<in> set (outbox (update_rows P f d)). sequence_no r' = sequence_no r \<and> row_change t s r r'"
  unfolding bex_updated using assms(1,3) event_part_eq(1) [OF assms(2)] row_change.same
  by (intro bexI [of _ r]) auto

lemma row_change_stmt:
  assumes "r \<in> set (outbox d)"
    and "\<exists>r' \<in> set (outbox (fst (stmt d))). sequence_no r' = sequence_no r \<and> row_change t s r r'"
  shows "\<exists>r' \<in> set (outbox (fst (run_stmt f stmt d))). sequence_no r' = sequence_no r \<and> row_change t s r r'"
  using assms row_change.same by (cases f) (auto simp: run_stmt_def)

lemma statement_row:
  assumes "before t s" and inj: "distinct (map sequence_no (outbox d))" and r: "r \<in> set (outbox d)"
  shows "\<exists>r' \<in> set (outbox (run_statement render s d)). sequence_no r' = sequence_no r \<and> row_change t s r r'"
proof (cases s)
  case (Claim_Stmt c ce)
  obtain d' res where call: "claim render c ce d = (d', res)" by (rule prod.exhaust)
  have "\<exists>r' \<in> set (outbox (claim_rows c (cl_now ce) (cl_locked ce) d)). sequence_no r' = sequence_no r \<and> row_change t s r r'"
    unfolding claim_rows_def
    using assms(1) claimed_row [OF r _ inj] by (intro row_change_update [OF r]) (auto simp: Claim_Stmt intro: row_change.taken)
  with claim_result [OF call] r row_change.same show ?thesis by (auto simp: Claim_Stmt call)
next
  case (Mark_Stmt f now w i)
  then show ?thesis
    by (simp, intro row_change_stmt [OF r])
      (auto simp: mark_published_def intro!: row_change_update [OF r] row_change.published)
next
  case (Fail_Stmt f now w i later cause dead)
  have "\<exists>r' \<in> set (outbox (update_rows (owned w i) (set_failed now later cause dead) d)).
      sequence_no r' = sequence_no r \<and> row_change t s r r'"
    by (rule row_change_update [OF r])
      (auto simp: owned_def Fail_Stmt records_failure_def intro!: row_change.failed)
  then show ?thesis
    using r row_change.same
    by (simp add: Fail_Stmt, intro row_change_stmt [OF r]) (auto simp: record_failure_def Fail_Stmt)
next
  case (Request_Stmt cr ui files ve e rq v)
  obtain v' d' resp obs where call: "serve_http (call_verify cr) ui files ve e rq (v, d) = ((v', d'), resp, obs)"
    by (metis prod.collapse)
  show ?thesis using serve_http_outbox [OF call] r row_change.same by (auto simp: Request_Stmt call)
qed

lemma statement_board:
  assumes "before t s" and "board_ok d"
  shows "board_ok (run_statement render s d)"
proof (cases s)
  case (Claim_Stmt c ce)
  obtain d' res where call: "claim render c ce d = (d', res)" by (rule prod.exhaust)
  have "board_ok (claim_rows c (cl_now ce) (cl_locked ce) d)"
    unfolding claim_rows_def by (rule board_ok_update_rows [OF _ assms(2)]) simp
  with claim_result [OF call] assms(2) show ?thesis by (auto simp: Claim_Stmt call)
next
  case (Mark_Stmt f now w i)
  then show ?thesis using board_ok_update_rows [OF _ assms(2)] assms(2)
    by (cases f) (simp_all add: run_stmt_def mark_published_def)
next
  case (Fail_Stmt f now w i later cause dead)
  then show ?thesis using board_ok_update_rows [OF _ assms(2)] assms(2)
    by (cases f) (simp_all add: run_stmt_def record_failure_def)
next
  case (Request_Stmt cr ui files ve e rq v)
  obtain v' d' resp obs where call: "serve_http (call_verify cr) ui files ve e rq (v, d) = ((v', d'), resp, obs)"
    by (metis prod.collapse)
  show ?thesis using jwt.serve_http_board [OF assms(2) _ call] assms(1) by (simp add: Request_Stmt call)
qed

section \<open>A lease holds until its worker ends it\<close>

text \<open>After a claim of worker \<open>w\<close> with lease \<open>t\<close> at attempt \<open>a\<close>, the row is still held, or published, or
  back with more attempts because \<open>w\<close> recorded a failure of it.\<close>

definition leased :: "string \<Rightarrow> instant \<Rightarrow> int \<Rightarrow> statement list \<Rightarrow> outbox_row \<Rightarrow> bool" where
  "leased w t a ss r \<longleftrightarrow>
     claimed_by r = Some w \<and> claim_until r = Some t \<and> attempt_count r = a
     \<or> published_at r \<noteq> None
     \<or> a < attempt_count r \<and> list_ex (records_failure w (sequence_no r)) ss"

lemma leased_change:
  assumes "row_change t s r r'" and "leased w t a ss r"
  shows "leased w t a (s # ss) r'"
  using assms
  by (cases rule: row_change.cases)
    (auto simp: leased_def claimable_def take_claim_def set_published_def set_failed_def)

lemma leased_run:
  assumes "board_ok d" and "list_all (before t) ss" and "r \<in> set (outbox d)" and "leased w t a us r"
  shows "board_ok (fold (run_statement render) ss d)
    \<and> (\<exists>r' \<in> set (outbox (fold (run_statement render) ss d)). sequence_no r' = sequence_no r
         \<and> leased w t a (rev ss @ us) r')"
  using assms
proof (induction ss arbitrary: d r us)
  case (Cons s ss)
  have t: "before t s" using Cons.prems(2) by simp
  obtain r' where r': "r' \<in> set (outbox (run_statement render s d))" "sequence_no r' = sequence_no r" "row_change t s r r'"
    using statement_row [OF t board_sequences [OF Cons.prems(1)] Cons.prems(3)] by blast
  from Cons.IH [OF statement_board [OF t Cons.prems(1)] _ r'(1) leased_change [OF r'(3) Cons.prems(4)]] Cons.prems(2) r'(2)
  show ?case by simp
qed auto

text \<open>The rows a claim hands out.\<close>

lemma claimed_rows:
  assumes "claim render c ce d = (d', Inr b)" and "board_ok d" and order: "\<forall>rs. mset (cl_order ce rs) = mset rs"
    and "it \<in> set b"
  obtains q where "q \<in> set (outbox d)" "claimable (cl_now ce) q" "sequence_no q = ce_sequence it"
    "attempt_count q = ce_attempt_count it" "take_claim c (cl_now ce) q \<in> set (outbox d')"
proof -
  let ?cs = "candidates c (cl_now ce) (cl_locked ce) d"
  have d': "d' = claim_rows c (cl_now ce) (cl_locked ce) d" and b: "b = map (claimed_item render) (returned_rows c ce d)"
    using claim_result [OF assms(1)] by simp_all
  from assms(4) obtain r where it: "it = claimed_item render r" and "r \<in> set (returned_rows c ce d)"
    by (auto simp: b)
  moreover have "set (returned_rows c ce d) = set (filter (\<lambda>r. sequence_no r \<in> set ?cs) (outbox d'))"
    using order unfolding returned_rows_def d' by (intro mset_eq_setD) simp
  ultimately have r: "r \<in> set (outbox d')" "sequence_no r \<in> set ?cs" by auto
  from r(1) obtain q where q: "q \<in> set (outbox d)" "r = (if sequence_no q \<in> set ?cs then take_claim c (cl_now ce) q else q)"
    by (auto simp: d' claim_rows_def outbox_update_rows)
  have "sequence_no q \<in> set ?cs" by (rule ccontr) (use r(2) q(2) in \<open>simp only: if_False\<close>)
  with q(2) have taken: "sequence_no q \<in> set ?cs" "r = take_claim c (cl_now ce) q" by (simp_all only: if_True)
  show thesis
  proof (rule that)
    show "q \<in> set (outbox d)" by (rule q(1))
    show "claimable (cl_now ce) q" by (rule claimed_row [OF q(1) taken(1) board_sequences [OF assms(2)]])
    show "take_claim c (cl_now ce) q \<in> set (outbox d')" using r(1) taken(2) by metis
    show "sequence_no q = ce_sequence it" "attempt_count q = ce_attempt_count it"
      unfolding it taken(2) by (simp_all add: claimed_item_def take_claim_def)
  qed
qed

lemma reclaimed:
  assumes c1: "claim render c1 ce1 d = (d1, Inr b1)"
    and c2: "claim render c2 ce2 (fold (run_statement render) ss d1) = (d2, Inr b2)"
    and ok: "board_ok d" and orders: "\<forall>rs. mset (cl_order ce1 rs) = mset rs" "\<forall>rs. mset (cl_order ce2 rs) = mset rs"
    and t: "list_all (before (cl_now ce1 + claim_seconds c1 * second)) ss" "cl_now ce2 \<le> cl_now ce1 + claim_seconds c1 * second"
    and its: "it1 \<in> set b1" "it2 \<in> set b2" "ce_sequence it1 = ce_sequence it2"
  shows "ce_attempt_count it1 < ce_attempt_count it2 \<and> list_ex (records_failure (worker_id c1) (ce_sequence it1)) ss"
proof -
  let ?t = "cl_now ce1 + claim_seconds c1 * second" and ?d = "fold (run_statement render) ss d1"
  obtain q where q: "sequence_no q = ce_sequence it1" "attempt_count q = ce_attempt_count it1"
    "take_claim c1 (cl_now ce1) q \<in> set (outbox d1)"
    using claimed_rows [OF c1 ok orders(1) its(1)] .
  have ok1: "board_ok d1"
    using claim_result [OF c1] board_ok_update_rows [OF _ ok] by (simp add: claim_rows_def)
  have "leased (worker_id c1) ?t (ce_attempt_count it1) [] (take_claim c1 (cl_now ce1) q)"
    using q(2) by (simp add: leased_def take_claim_def)
  from leased_run [OF ok1 t(1) q(3) this, of render] obtain r
    where ok2: "board_ok ?d" and r: "r \<in> set (outbox ?d)" "sequence_no r = ce_sequence it1"
      "leased (worker_id c1) ?t (ce_attempt_count it1) (rev ss) r"
    using q(1) by (auto simp: take_claim_def)
  obtain p where p: "p \<in> set (outbox ?d)" "claimable (cl_now ce2) p" "sequence_no p = ce_sequence it2"
    "attempt_count p = ce_attempt_count it2"
    using claimed_rows [OF c2 ok2 orders(2) its(2)] .
  have "p = r" using unique_row [OF board_sequences [OF ok2] p(1) r(1)] p(3) r(2) its(3) by simp
  with r(2,3) p(2,4) t(2) show ?thesis
    by (auto simp: leased_def claimable_def list_ex_iff)
qed

section \<open>Properties\<close>

text \<open>C17. Claims are leases: a claim hands out no event twice and at most the configured number; and whatever
  statements other workers, the worker itself and the API run after it (the claims among them before
  the end of the lease, the texts of the requests in UTF-8), and whichever of them fail, a second claim before
  the end of the lease gets an event of the first only when the first worker has
  recorded a failure of that event in between, and then with a higher attempt count. Without such a
  failure the two batches share nothing.\<close>

theorem claims_are_leases:
  assumes "claim render c1 ce1 d = (d1, Inr b1)"
    and "claim render c2 ce2 (fold (run_statement render) ss d1) = (d2, Inr b2)" and "board_ok d" and "faithful render"
    and "\<forall>rs. mset (cl_order ce1 rs) = mset rs" and "\<forall>rs. mset (cl_order ce2 rs) = mset rs"
    and "list_all (before (cl_now ce1 + claim_for c1 div second * second)) ss"
    and "cl_now ce2 \<le> cl_now ce1 + claim_for c1 div second * second"
  shows "distinct (map ce_sequence b1) \<and> length b1 \<le> nat (batch_size c1)
    \<and> (\<forall>it1 \<in> set b1. \<forall>it2 \<in> set b2. ce_sequence it1 = ce_sequence it2 \<longrightarrow>
         ce_attempt_count it1 < ce_attempt_count it2 \<and> list_ex (records_failure (worker_id c1) (ce_sequence it1)) ss)
    \<and> (\<not> list_ex (\<lambda>s. \<exists>i. records_failure (worker_id c1) i s) ss \<longrightarrow> ce_sequence ` set b1 \<inter> ce_sequence ` set b2 = {})"
proof -
  have b1: "b1 = map (claimed_item render) (returned_rows c1 ce1 d)" using claim_result [OF assms(1)] by simp
  note batch = claimed_batch [OF assms(3,4,5), of c1, folded b1]
  have "length (candidates c1 (cl_now ce1) (cl_locked ce1) d) \<le> nat (batch_size c1)" by (simp add: candidates_def)
  moreover note again = reclaimed [OF assms(1,2,3,5,6), unfolded claim_seconds_def, OF assms(7,8)]
  have "ce_sequence ` set b1 \<inter> ce_sequence ` set b2 = {}"
    if "\<not> list_ex (\<lambda>s. \<exists>i. records_failure (worker_id c1) i s) ss"
    using that again by (fastforce simp: list_ex_iff)
  ultimately show ?thesis using batch(1,3) again by auto
qed

text \<open>A worker claims an event and records a failure; two seconds later another one claims it again.\<close>

definition sample_failure :: "instant \<Rightarrow> int64 \<Rightarrow> statement" where
  "sample_failure now i = Fail_Stmt NoFault now ''w'' i now ''broker down'' False"

lemma sample_claim_again:
  assumes "outbox d = [r]" and "fresh_row r"
  defines "t \<equiv> next_attempt_at r"
  shows "\<exists>d1 d2 it1 it2. claim marshal sample_config (be_claim (sample_batch t)) d = (d1, Inr [it1])
    \<and> claim marshal (config_of sample_config ''v'') (be_claim (sample_batch (t + 2 * second)))
        (fold (run_statement marshal) [sample_failure t (sequence_no r)] d1) = (d2, Inr [it2])
    \<and> ce_sequence it1 = sequence_no r \<and> ce_sequence it2 = sequence_no r"
proof -
  let ?r1 = "take_claim sample_config t r"
  let ?r2 = "set_failed t t ''broker down'' False ?r1"
  let ?d1 = "d\<lparr>outbox := [?r1]\<rparr>" and ?d2 = "d\<lparr>outbox := [?r2]\<rparr>"
  have cand: "candidates c now [] (d\<lparr>outbox := [q]\<rparr>) = [sequence_no q]"
    if "claimable now q" "batch_size c = 100" for c now q
    using that by (simp add: candidates_def)
  have first: "claimable t r" using assms(2) by (simp add: claimable_def fresh_row_def t_def)
  have one: "claim marshal c (be_claim (sample_batch now)) (d\<lparr>outbox := [q]\<rparr>)
      = (d\<lparr>outbox := [take_claim c now q]\<rparr>, Inr [claimed_item marshal (take_claim c now q)])"
    if "claimable now q" "batch_size c = 100" for c now q
    using cand [OF that]
    by (simp add: claim_def sample_batch_def commit_def Let_def claim_rows_def update_rows_def returned_rows_def take_claim_def)
  have "d\<lparr>outbox := [r]\<rparr> = d" using assms(1) by simp
  then have claim1: "claim marshal sample_config (be_claim (sample_batch t)) d = (?d1, Inr [claimed_item marshal ?r1])"
    using one [OF first, of sample_config] by (simp add: sample_config_def)
  have fail: "fold (run_statement marshal) [sample_failure t (sequence_no r)] ?d1 = ?d2"
    using assms(2)
    by (simp add: sample_failure_def run_stmt_def record_failure_def owned_def take_claim_def fresh_row_def sample_config_def
        update_rows_def pg_text_def utf8_ok_ascii no_nul_def)
  have "claimable (t + 2 * second) ?r2"
    using assms(2) by (simp add: claimable_def set_failed_def take_claim_def fresh_row_def micros_def duration_defs)
  from one [OF this, of "config_of sample_config ''v''"]
  have claim2: "claim marshal (config_of sample_config ''v'') (be_claim (sample_batch (t + 2 * second))) ?d2
      = (d\<lparr>outbox := [take_claim (config_of sample_config ''v'') (t + 2 * second) ?r2]\<rparr>,
         Inr [claimed_item marshal (take_claim (config_of sample_config ''v'') (t + 2 * second) ?r2)])"
    by (simp add: config_of_def sample_config_def)
  show ?thesis
    using claim1 claim2 fail
    by (intro exI conjI) (assumption | simp add: claimed_item_def take_claim_def set_failed_def)+
qed

theorem claims_are_leases_witness:
  "\<exists>d d1 d2 it1 it2 i t. claim marshal sample_config (be_claim (sample_batch t)) d = (d1, Inr [it1])
    \<and> claim marshal (config_of sample_config ''v'') (be_claim (sample_batch (t + 2 * second)))
        (fold (run_statement marshal) [sample_failure t i] d1) = (d2, Inr [it2])
    \<and> ce_sequence it1 = ce_sequence it2 \<and> ce_attempt_count it1 < ce_attempt_count it2"
proof -
  obtain d r where d: "board_ok d" "outbox d = [r]" "fresh_row r" using sample_created by blast
  let ?t = "next_attempt_at r"
  obtain d1 d2 it1 it2
    where c1: "claim marshal sample_config (be_claim (sample_batch ?t)) d = (d1, Inr [it1])"
      and c2: "claim marshal (config_of sample_config ''v'') (be_claim (sample_batch (?t + 2 * second)))
        (fold (run_statement marshal) [sample_failure ?t (sequence_no r)] d1) = (d2, Inr [it2])"
      and i: "ce_sequence it1 = sequence_no r" "ce_sequence it2 = sequence_no r"
    using sample_claim_again [OF d(2,3)] by (elim exE conjE)
  have "ce_attempt_count it1 < ce_attempt_count it2"
    using claims_are_leases [OF c1 c2 d(1) faithful_marshal] i
    by (simp add: sample_batch_def sample_config_def sample_failure_def duration_defs)
  with c1 c2 i show ?thesis by metis
qed

end
