(* ===== verification/Spec2Isabelle.thy ===== *)
theory Spec2Isabelle
  imports Pipeline Outbox_Leases
begin

text \<open>
  Verification library of NoApp, a project board of four Go programs around PostgreSQL and Kafka.

  \<^bold>\<open>The program.\<close> \<open>cmd/server\<close> serves the REST API of \<open>internal/app\<close>: users, projects and tasks in
  PostgreSQL. Every change of a task is written in one transaction with a row of the table
  \<open>outbox_events\<close> that carries the event (\<open>internal/events\<close>). \<open>cmd/outbox-relay\<close> runs the workers of
  \<open>internal/outbox\<close>: they claim rows for a while, publish them to Kafka, and mark them published or
  schedule a retry. \<open>cmd/realtime\<close> consumes the topic and broadcasts every event to the browsers that
  \<open>internal/realtime\<close> has connected and that watch the project. Both servers let \<open>internal/auth\<close> verify
  the tokens of an identity provider. \<open>cmd/simulator\<close> drives the API with the traffic that
  \<open>internal/simulator\<close> makes up. All of them report through \<open>internal/telemetry\<close>.

  \<^bold>\<open>Conventions.\<close> Byte strings are \<open>string\<close>; Go's \<open>int64\<close> is \<open>int\<close> with the predicate \<open>in_int64\<close> where
  a range matters and \<open>wrap64\<close> where the code can wrap around; instants and durations are
  nanoseconds; \<open>float64\<close> is the rational number it denotes, rounded by \<open>Gofloat.round64\<close> after every
  operation. Errors are values (\<open>string + 'a\<close> or \<open>failure\<close>). What the code calls outside the repository
  is an argument of the definitions that use it: records of environment values (\<open>env\<close>, \<open>item_env\<close>,
  \<open>claim_env\<close>, \<open>network\<close>, \<open>luck\<close>, \<open>process_env\<close>) hold the clock readings, random values and the outcome,
  faults included, of each statement, publication, HTTP exchange or constructor, so every theorem
  about all environments is a theorem about all faults. \<open>fault\<close> distinguishes a statement that failed from one that
  succeeded and whose answer was lost.

  \<^bold>\<open>Theories, from the bottom.\<close>
  \<^item> \<open>Prelude\<close>: collections of hints, \<open>strings\<close> and \<open>strconv\<close> as far as they are used.
  \<^item> \<open>Json\<close>, \<open>Json_Writer\<close>, \<open>Json_Struct\<close>, \<open>Json_Text\<close>: the reader and the writer of \<open>encoding/json\<close>, storing a
    value into a struct, UTF-8. The reader takes fuel, \<open>2 * length + 1\<close> for a text; \<open>parse_value_fuel\<close>
    shows that more changes nothing, since every step consumes input. \<open>parse_marshal\<close> is the
    round trip on which all others rest.
  \<^item> \<open>Gotime\<close>, \<open>Base64\<close>, \<open>Gofloat\<close>: RFC 3339 in JSON, \<open>RawURLEncoding\<close>, double precision.
  \<^item> \<open>Auth\<close> (\<open>internal/auth/verifier.go\<close>): the claims, the cache of keys, \<open>verify\<close>. The RSA check is the
    argument \<open>crypto\<close>. The locale \<open>authenticator\<close> is what the servers rely on; \<open>jwt\<close> interprets it.
  \<^item> \<open>Events\<close> (\<open>internal/events/events.go\<close>): envelope, encoder and decoder, and their round trip through JSONB.
  \<^item> \<open>Database\<close> (\<open>db/init.sql\<close> and the SQL in \<open>server.go\<close> and \<open>events.go\<close>): tables, sequences, constraints, and each
    statement on them; \<open>db_ok\<close> is what the schema guarantees.
  \<^item> \<open>Http\<close>, \<open>App\<close> (\<open>internal/app/server.go\<close>): the multiplexer of \<open>net/http\<close>; handlers, authorization, routing, the
    request logger. \<open>Board\<close> and \<open>Service\<close>: the invariant \<open>board_ok\<close> (constraints and a gapless history of
    events for each task) and runs of requests from \<open>init_sql\<close>. \<open>Api_Laws\<close>: what each reply means.
    \<open>Replies\<close>: the types of the replies.
  \<^item> \<open>Outbox\<close> (\<open>internal/outbox/relay.go\<close>): claim, publication, acknowledgement, failure, batch. \<open>Outbox_Rows\<close>: the
    life of a row. \<open>Outbox_Steps\<close>: the step relation \<open>relay_step\<close> of any number of workers and API servers,
    one statement or publication a step; the locale \<open>lease\<close> states what a table of claims promises, and
    \<open>rows\<close> interprets it on the outbox. \<open>Outbox_Laws\<close>: \<open>runBatch\<close> refines the steps, at least once, and drainage.
    \<open>Outbox_Leases\<close>: what a claim keeps while arbitrary statements of others follow it (\<open>statement\<close>,
    \<open>run_statement\<close>), until its lease ends.
  \<^item> \<open>Realtime\<close> (\<open>internal/realtime/hub.go\<close>): clients, queues of 64, authentication, subscriptions, broadcast, reader and
    writer. \<open>Realtime_Laws\<close>: the step relation \<open>hub_step\<close> and its invariant. \<open>Gateway\<close>
    (\<open>cmd/realtime/main.go\<close>): the consumer, whose poll is a list of actions (log an error, process a record,
    commit) in the order of the code; the relation \<open>gateway_step\<close>, in which one action is a step and
    the process may die between any two; and the health server. \<open>Gateway_Laws\<close>: what the hub of a life of the
    consumer shows of the records it has processed, and the invariant \<open>gateway_ok\<close>. \<open>Realtime_Properties\<close>.
  \<^item> \<open>Sim_Client\<close>, \<open>Simulator\<close> (\<open>internal/simulator\<close>): the API client with its cached token; the engine as a state machine
    whose goroutine advances one call a turn, and the control API. \<open>Sim_Laws\<close>, \<open>Sim_Properties\<close>: bounds on every
    reachable state, the pace, and the end of a run within four turns after a stop.
  \<^item> \<open>Startup\<close>, \<open>Startup_Properties\<close> (\<open>cmd\<close>, \<open>internal/telemetry\<close>): settings, the steps of a start and their failures, the
    wait for the database with at most 30 pings, the log handler in front of others.
  \<^item> \<open>Pipeline\<close> and this theory: the components together. An event that the API has recorded goes through the
    relay and the gateway to the queues of the browsers, whatever the workers and servers did before
    and did after it; a request of the simulator goes through the router and the decoder of the API
    and its reply back.

  \<^bold>\<open>What the properties show.\<close> The API: only verified editors change the board, every change is whole, with its event,
  and answered by its code; replies have their types. The relay: no row is published that
  Kafka has not accepted, none is acknowledged twice, settled rows stay settled, due rows are drained when nothing
  fails, and within its lease a claimed event is claimed again only after its worker has recorded a failure of it.
  The gateway: only viewers with a token are registered, a broadcast reaches exactly the watching
  clients, in order, and no record is committed that was not processed, wherever the process dies. The
  simulator: its bounds, its pace and its end. The four programs: a complete start or an exit. Together: in a system
  in use, a created task that is not given up reaches the browsers.

  \<^bold>\<open>Assumptions.\<close> Handlers run one after another between their statements only as far as the row lock and the transactions
  serialise them. PostgreSQL renders JSONB so that the text denotes the stored value (\<open>faithful\<close>, which
  \<open>marshal\<close> satisfies). The liveness theorems assume an environment without faults and say so.

  \<^bold>\<open>Where the model is coarser than the code.\<close> A member of the key document that occurs twice replaces its first
  value; Go decodes the second array into the slice the first one left, so elements of it may keep
  fields of the first (\<open>verifier.go\<close>, \<open>realm_access\<close> and \<open>keys\<close>). A read of a cancelled connection always fails; Go may
  still hand out a frame that was already in its buffer (\<open>Hub.ServeHTTP\<close>). A writer that finds the token expired at a tick closes
  the connection and cancels the client in one step; in Go the client stays registered during the closing handshake
  (\<open>client.writeLoop\<close>). In \<open>relay_step\<close> a whole HTTP request is one step: its transaction has the isolation of
  the row lock, and what other requests see of it is its effect. A claim time is a whole number of
  seconds, exact below 48 days, where Go's conversion through \<open>float64\<close> is.

  \<^bold>\<open>Not modelled.\<close> The web pages, which are files the servers embed (\<open>files\<close> stands for the file server); the
  internals of OpenTelemetry, Pyroscope, pgx, franz-go and the WebSocket library, spans and
  histograms, and the attributes of metrics; the timeouts of contexts, of the HTTP servers and of a graceful
  shutdown, whose outcome is an argument; signals; the JSON text of the simulator's status; the target of a
  redirect; tests, dashboards and containers.
\<close>

section \<open>Properties of the whole\<close>

text \<open>C1. A new task reaches the browsers, in a system in use: after any run of the workers and servers from
  a board whose outbox was untouched, with whatever is published, claimed, given up or in Kafka by then,
  a creation is answered 201; the workers and servers go on in any way, with any faults. When afterwards
  every pending row is due and one worker runs without faults for as many batches as the pending rows
  need, and the event has not been given up before (its row is not dead), then there is a record in
  Kafka that decodes to the \<open>task.created\<close> event with that very task, under its project as the key; and
  when the gateway processes the record, in any state its hub can be in, every registered client that
  watches the project gets the record at the end of its queue, or, when its queue of 64 is full, is
  cancelled and gets nothing, and no other client is touched.\<close>

theorem task_reaches_subscribers:
  assumes "relay_runs render c (start d0) x" and "board_ok d0" and "\<forall>r \<in> set (outbox d0). fresh_row r"
    and "faithful render" and "1 \<le> max_attempts c"
    and "create_task e subj wild inpt (w_db x) = (d', resp)" and "code (fst resp) = 201" and "event_inputs_ok e subj"
    and "relay_runs render c (x\<lparr>w_db := d'\<rparr>) y"
    and "\<forall>q \<in> set (outbox (w_db y)). ob_event_id q = ev_uuid e \<longrightarrow> dead_at q = None"
    and "sys_db s = w_db y" and "sys_kafka s = w_kafka y" and "r_config (sys_relay s) = config_of c w"
    and "relay_run render bes s = (s', out)"
    and "all_due t (w_db y)" and "\<forall>be \<in> set bes. healthy t be"
    and "length (pending_ids (w_db y)) \<le> length bes * nat (batch_size c)"
    and "hub_runs ver (new_hub v) h"
  shows "\<exists>row m ev. tasks d' = tasks (w_db x) @ [row] \<and> m \<in> set (sys_kafka s') \<and> msg_topic m = ''noapp.board-events.v1''
    \<and> msg_key m = format_int 10 (tsk_project row)
    \<and> decode_event (msg_value m) = Inr ev \<and> event_type ev = ''task.created'' \<and> event_task ev = joined d' row
    \<and> (\<forall>q k i. store (process_record (produced q k m) h) i =
        (if i \<in> set (registered h) \<and> tsk_project row \<in> subscriptions (store h i)
         then if length (send (store h i)) < 64 then (store h i)\<lparr>send := send (store h i) @ [msg_value m]\<rparr>
              else (store h i)\<lparr>canceled := True\<rparr>
         else store h i))"
proof -
  have x: "world_ok render c x" by (rule relay_runs_ok [OF assms(1-5)])
  then have board: "board_ok (w_db x)" by (simp add: world_ok_def table_ok_def)
  obtain pid inp row r ev where made: "tasks d' = tasks (w_db x) @ [row]" "outbox d' = outbox (w_db x) @ [r]" "carries r ev"
    "ev = the_event e task_created subj (joined d' row)"
    by (rule create_task_result [OF assms(6,7) board assms(8)])
  have ep: "run_endpoint e subj CreateTask wild inpt (w_db x) = (d', resp)" using assms(6) by (simp add: run_endpoint_def)
  have "board_ok d'" by (rule run_endpoint_board [OF board assms(8) ep])
  moreover obtain rs where "outbox d' = outbox (w_db x) @ rs" "\<forall>r \<in> set rs. fresh_row r"
    using run_endpoint_outbox [OF ep] by blast
  ultimately have after: "world_ok render c (x\<lparr>w_db := d'\<rparr>)" using world_ok_append [OF x _ _ _ assms(5)] by blast
  have proj: "event_project ev = tsk_project row" "event_type ev = ''task.created''" "event_task ev = joined d' row"
    "event_id ev = ev_uuid e"
    by (simp_all add: made(4) the_event_def new_task_event_def joined_def task_created_def)
  then have row: "ob_event_id r = ev_uuid e" "ob_project r = tsk_project row" using made(3) by (simp_all add: carries_def)
  have "r \<in> set (outbox (w_db (x\<lparr>w_db := d'\<rparr>)))" by (simp add: made(2))
  from relay_delivers [OF after assms(4,5) this assms(9) _ assms(11-13,15-17)] assms(10,14) row(1)
  obtain m where m: "m \<in> set (sys_kafka s')" "message_of render r m" by auto
  have ev: "decode_event (msg_value m) = Inr ev"
    using carried_decodes [OF assms(4) made(3)] m(2) by (simp add: message_of_def)
  with record_reaches_clients [OF assms(18) ev] made(1) m row(2) proj show ?thesis
    by (intro exI [of _ row] exI [of _ m] exI [of _ ev]) (simp add: topic_def message_of_def)
qed

text \<open>A second task on a board whose first event one worker has published: another worker publishes it.\<close>

theorem task_reaches_subscribers_witness:
  "\<exists>(x :: world) d' resp s' out m. w_kafka x \<noteq> []
    \<and> create_task (sample_env\<lparr>ev_uuid := ''event-2''\<rparr>) ''s'' [''1''] (marshal sample_new_task) (w_db x) = (d', resp)
    \<and> code (fst resp) = 201 \<and> m \<in> set (sys_kafka s')
    \<and> (\<exists>bes s. sys_db s = d' \<and> sys_kafka s = w_kafka x \<and> relay_run marshal bes s = (s', out))
    \<and> send (store (process_record (produced 0 0 m) sample_watching) 0) = send (store sample_watching 0) @ [msg_value m]"
proof -
  let ?e = "sample_env\<lparr>ev_uuid := ''event-2''\<rparr>"
  obtain d0 x r1 where x: "board_ok d0" "\<forall>r \<in> set (outbox d0). fresh_row r" "relay_runs marshal sample_config (start d0) x"
    "board_ok (w_db x)" "env_ready ?e ''s'' (w_db x)" "project_exists (w_db x) 1" "user_exists (w_db x) 1" "w_kafka x \<noteq> []"
    and r1: "outbox (w_db x) = [r1]" "published_at r1 \<noteq> None" "ob_event_id r1 = ''event-1''"
    using sample_in_use by blast
  obtain d' resp where run: "create_task ?e ''s'' [''1''] (marshal sample_new_task) (w_db x) = (d', resp)"
    by (rule prod.exhaust)
  note second = sample_creation [OF x(4-7) run]
  obtain r where r: "outbox d' = [r1, r]" "fresh_row r" "ob_event_id r = ''event-2''"
    using second(9) r1(1) by auto
  let ?t = "next_attempt_at r" and ?y = "x\<lparr>w_db := d'\<rparr>"
  let ?s = "(sample_system d')\<lparr>sys_kafka := w_kafka x,
    sys_relay := (sys_relay (sample_system d'))\<lparr>r_config := config_of sample_config ''v''\<rparr>\<rparr>"
  obtain s' out where relay: "relay_run marshal [sample_batch ?t] ?s = (s', out)" by (rule prod.exhaust)
  have due: "all_due ?t (w_db ?y)" and alive: "\<forall>q \<in> set (outbox (w_db ?y)). ob_event_id q = ev_uuid ?e \<longrightarrow> dead_at q = None"
    using r r1 by (auto simp: all_due_def pending_def claimable_def fresh_row_def)
  have inputs: "event_inputs_ok ?e ''s''" using x(5) by (simp add: env_ready_def)
  have few: "length (pending_ids (w_db ?y)) \<le> length [sample_batch ?t] * nat (batch_size sample_config)"
    by (simp add: pending_ids_def r(1) sample_config_def)
  have sys: "sys_db ?s = w_db ?y" "sys_kafka ?s = w_kafka ?y" "r_config (sys_relay ?s) = config_of sample_config ''v''"
    by (simp_all add: sample_system_def)
  have attempts: "1 \<le> max_attempts sample_config" by (simp add: sample_config_def)
  have healthy: "\<forall>be \<in> set [sample_batch ?t]. healthy ?t be" by (simp add: sample_healthy)
  obtain row m where reached: "tasks d' = tasks (w_db x) @ [row]" "m \<in> set (sys_kafka s')"
    "\<forall>q k i. store (process_record (produced q k m) sample_watching) i =
      (if i \<in> set (registered sample_watching) \<and> tsk_project row \<in> subscriptions (store sample_watching i)
       then if length (send (store sample_watching i)) < 64
            then (store sample_watching i)\<lparr>send := send (store sample_watching i) @ [msg_value m]\<rparr>
            else (store sample_watching i)\<lparr>canceled := True\<rparr>
       else store sample_watching i)"
    using task_reaches_subscribers [OF x(3,1,2) faithful_marshal attempts run second(1) inputs rtranclp.rtrancl_refl alive
        sys relay due healthy few sample_watching_run] by blast
  have "tsk_project row = 1" using reached(1) second(10) by auto
  with reached(3) sample_watching_facts
  have "send (store (process_record (produced 0 0 m) sample_watching) 0) = send (store sample_watching 0) @ [msg_value m]"
    by auto
  moreover have "sys_db ?s = d'" "sys_kafka ?s = w_kafka x" by (simp_all add: sample_system_def)
  ultimately show ?thesis using x(8) run second(1) reached(2) relay by blast
qed

text \<open>C15. The simulator and the API understand each other: when the request with which the simulator adds
  a task reaches an API that works, on a sound board with that project and that worker, it is answered
  201 and adds exactly the task it describes, and the simulator reads the new task's identifier,
  project and status back from the reply.\<close>

theorem simulated_task_accepted:
  assumes "post_task n pid a titl desc c = (c', sent, r)" and "reaches n c"
    and "serve_protected e subj (received (base_url c) (last sent)) d = (d', reply, logs)"
    and "net_reply n = Replied (code reply) (body reply)"
    and "board_ok d" and "env_ready e subj d" and "project_exists d pid" and "user_exists d a"
    and "utf8_ok titl" and "utf8_ok desc" and "trim_space titl \<noteq> []" and "pg_text (trim_space titl)"
    and "pg_text (trim_space desc)" and "length (marshal (new_task_json a titl desc)) \<le> max_body"
  shows "code reply = 201 \<and> (\<exists>row. tasks d' = tasks d @ [row] \<and> tsk_title row = trim_space titl
    \<and> tsk_description row = trim_space desc \<and> tsk_project row = pid \<and> tsk_assignee row = Some a
    \<and> r = Inr \<lparr>got_task_id = tsk_id row, got_task_project = pid, got_task_status = ''todo''\<rparr>)"
  by (rule simulated_task [OF assms])

text \<open>The simulator adds a task to the sample board, over a network that carries the reply of the API.\<close>

lemma sample_sent:
  "fst (snd (post_task n 1 1 titl desc (new_api_client ''http://h'' no_oauth)))
    = (if net_malformed n (''http://h'' @ tasks_path 1) = None
       then [api_request (new_api_client ''http://h'' no_oauth) ''POST'' (tasks_path 1) (Some (new_task_json 1 titl desc)) None]
       else [])"
  by (simp add: post_task_def call_decoding_def call_api_def new_api_client_def no_oauth_def trim_slashes_def
      split: option.split sum.split)

lemma sample_simulated:
  "trim_space ''Test'' = ''Test''" "trim_space [] = []" "length (marshal (new_task_json 1 ''Test'' [])) \<le> max_body"
proof -
  show "trim_space ''Test'' = ''Test''" "trim_space [] = []"
    using sample_new_acceptable(2,3) by (simp_all add: sample_new_input_def)
  have "length (marshal (new_task_json 1 ''Test'' [])) \<le> 100" unfolding new_task_json_def by code_simp
  then show "length (marshal (new_task_json 1 ''Test'' [])) \<le> max_body" by (simp add: max_body_def)
qed

theorem simulated_task_accepted_witness:
  "\<exists>n c' sent r d' reply logs row. post_task n 1 1 ''Test'' [] (new_api_client ''http://h'' no_oauth) = (c', sent, r)
    \<and> serve_protected sample_env ''s'' (received ''http://h'' (last sent)) sample_board = (d', reply, logs)
    \<and> code reply = 201 \<and> tasks d' = tasks sample_board @ [row] \<and> tsk_title row = ''Test''
    \<and> r = Inr \<lparr>got_task_id = tsk_id row, got_task_project = 1, got_task_status = ''todo''\<rparr>"
proof -
  let ?c = "new_api_client ''http://h'' no_oauth"
  let ?q = "api_request ?c ''POST'' (tasks_path 1) (Some (new_task_json 1 ''Test'' [])) None"
  obtain d' reply logs where served:
    "serve_protected sample_env ''s'' (received ''http://h'' ?q) sample_board = (d', reply, logs)"
    by (rule prod_cases3)
  let ?n = "sample_network\<lparr>net_reply := Replied (code reply) (body reply)\<rparr>"
  obtain c' sent r where call: "post_task ?n 1 1 ''Test'' [] ?c = (c', sent, r)" by (rule prod_cases3)
  then have sent: "last sent = ?q" using sample_sent [of ?n "''Test''" "[]"] by (simp add: sample_network_def)
  have base: "base_url ?c = ''http://h''" by (simp add: new_api_client_def trim_slashes_def)
  have reached: "reaches ?n ?c" by (simp add: reaches_def sample_network_def new_api_client_def no_oauth_def)
  have at: "serve_protected sample_env ''s'' (received (base_url ?c) (last sent)) sample_board = (d', reply, logs)"
    using served by (simp only: base sent)
  have "code reply = 201 \<and> (\<exists>row. tasks d' = tasks sample_board @ [row] \<and> tsk_title row = trim_space ''Test''
    \<and> tsk_description row = trim_space [] \<and> tsk_project row = 1 \<and> tsk_assignee row = Some 1
    \<and> r = Inr \<lparr>got_task_id = tsk_id row, got_task_project = 1, got_task_status = ''todo''\<rparr>)"
    by (rule simulated_task_accepted [OF call reached at _ sample_board_ok sample_env_ready])
      (simp_all add: sample_simulated pg_text_def no_nul_def utf8_ok_ascii,
        simp_all add: sample_board_def project_exists_def user_exists_def)
  then obtain row where "code reply = 201" "tasks d' = tasks sample_board @ [row]" "tsk_title row = ''Test''"
    "r = Inr \<lparr>got_task_id = tsk_id row, got_task_project = 1, got_task_status = ''todo''\<rparr>"
    unfolding sample_simulated by blast
  with call at [unfolded base] show ?thesis by blast
qed

end
